(* ===== verification/Go_Prelude.thy ===== *)
theory Go_Prelude
  imports
    Main
    "HOL-Library.Sublist"
    "HOL-Library.AList"
    "HOL-Library.Char_ord"
    "HOL-Library.List_Lexorder"
    "HOL-Library.Multiset"
begin

text \<open>
  The Go run-time vocabulary every component of rest-rego is written in: byte strings with the
  functions of the packages \<^verbatim>\<open>strings\<close> and \<^verbatim>\<open>bytes\<close> that the sources call, Go maps, dynamically
  typed values (\<^verbatim>\<open>interface{}\<close>), error values with \<^verbatim>\<open>errors.Is\<close>, and computations that may
  panic. A Go string is a sequence of bytes and so is a \<^typ>\<open>string\<close> here.

  The collections \<open>go_lib\<close> (definitions of library functions, for evaluation) and \<open>go_split\<close>
  (case rules of the model's types) carry the component proofs.
\<close>

named_theorems go_lib \<open>definitions of the Go library functions\<close>
named_theorems go_split \<open>case distinction rules of the model's types\<close>

section \<open>Panics\<close>

text \<open>A Go call either returns a value or panics with a message.\<close>

datatype 'a outcome = Done 'a | Panic string

declare outcome.splits [go_split] option.splits [go_split] sum.splits [go_split]
  list.splits [go_split] prod.splits [go_split] if_splits [go_split]

fun bind_outcome :: "'a outcome \<Rightarrow> ('a \<Rightarrow> 'b outcome) \<Rightarrow> 'b outcome" where
  "bind_outcome (Done a) f = f a"
| "bind_outcome (Panic m) f = Panic m"

section \<open>Strings\<close>

definition has_prefix :: "string \<Rightarrow> string \<Rightarrow> bool" where
  [go_lib]: "has_prefix s p \<longleftrightarrow> take (length p) s = p"

definition trim_prefix :: "string \<Rightarrow> string \<Rightarrow> string" where
  [go_lib]: "trim_prefix s p = (if has_prefix s p then drop (length p) s else s)"

text \<open>\<^verbatim>\<open>strings.Split\<close> at a one-byte separator, \<^verbatim>\<open>strings.SplitN(s, sep, 2)\<close> and \<^verbatim>\<open>strings.Join\<close>.\<close>

fun split_on :: "char \<Rightarrow> string \<Rightarrow> string list" where
  "split_on c [] = [[]]"
| "split_on c (x # xs) =
     (if x = c then [] # split_on c xs
      else (case split_on c xs of [] \<Rightarrow> [[x]] | p # ps \<Rightarrow> (x # p) # ps))"

definition splitn2 :: "char \<Rightarrow> string \<Rightarrow> string list" where
  [go_lib]: "splitn2 c s =
     (case dropWhile (\<lambda>x. x \<noteq> c) s of
        [] \<Rightarrow> [s]
      | _ # rest \<Rightarrow> [takeWhile (\<lambda>x. x \<noteq> c) s, rest])"

fun join :: "string \<Rightarrow> string list \<Rightarrow> string" where
  "join sep [] = []"
| "join sep [x] = x"
| "join sep (x # y # ys) = x @ sep @ join sep (y # ys)"

text \<open>\<^verbatim>\<open>strings.IndexByte\<close>: the index of the first occurrence, or -1.\<close>

fun index_byte :: "string \<Rightarrow> char \<Rightarrow> int" where
  "index_byte [] c = -1"
| "index_byte (x # xs) c =
     (if x = c then 0 else (let i = index_byte xs c in if i < 0 then -1 else i + 1))"

fun contains :: "string \<Rightarrow> string \<Rightarrow> bool" where
  "contains [] sub \<longleftrightarrow> sub = []"
| "contains (x # xs) sub \<longleftrightarrow> has_prefix (x # xs) sub \<or> contains xs sub"

text \<open>\<^verbatim>\<open>strings.ReplaceAll\<close> of one byte by another.\<close>

definition replace_all :: "string \<Rightarrow> char \<Rightarrow> char \<Rightarrow> string" where
  [go_lib]: "replace_all s old new = map (\<lambda>c. if c = old then new else c) s"

subsection \<open>Letter case\<close>

text \<open>
  \<^verbatim>\<open>strings.ToLower\<close> and \<^verbatim>\<open>strings.EqualFold\<close>. ASCII letters are mapped byte by byte. Three
  multi-byte code points fold to ASCII letters and are mapped as the Go tables map them: the Kelvin
  sign U+212A (to \<open>k\<close>, by both functions), the dotted capital I U+0130 (to \<open>i\<close>, by \<^verbatim>\<open>ToLower\<close>
  only) and the long s U+017F (to \<open>s\<close>, by \<^verbatim>\<open>EqualFold\<close> only). All other multi-byte letters are left as
  they are, so \<open>equal_fold\<close> is the Go function whenever one of its arguments is ASCII, which is
  how every call of the sources but the tenant comparison is made, and \<open>to_lower\<close> is the Go function
  on valid UTF-8 whose letters outside ASCII, other than these, are not upper case.
\<close>

definition lower_byte :: "char \<Rightarrow> char" where
  [go_lib]: "lower_byte c =
     (let n = (of_char c :: nat) in if 65 \<le> n \<and> n \<le> 90 then char_of (n + 32) else c)"

fun to_lower :: "string \<Rightarrow> string" where
  "to_lower (a # b # c # s) =
     (if a = CHR 0xE2 \<and> b = CHR 0x84 \<and> c = CHR 0xAA then CHR ''k'' # to_lower s
      else if a = CHR 0xC4 \<and> b = CHR 0xB0 then CHR ''i'' # to_lower (c # s)
      else lower_byte a # to_lower (b # c # s))"
| "to_lower [a, b] =
     (if a = CHR 0xC4 \<and> b = CHR 0xB0 then [CHR ''i''] else [lower_byte a, lower_byte b])"
| "to_lower s = map lower_byte s"

fun fold_case :: "string \<Rightarrow> string" where
  "fold_case (a # b # c # s) =
     (if a = CHR 0xE2 \<and> b = CHR 0x84 \<and> c = CHR 0xAA then CHR ''k'' # fold_case s
      else if a = CHR 0xC5 \<and> b = CHR 0xBF then CHR ''s'' # fold_case (c # s)
      else lower_byte a # fold_case (b # c # s))"
| "fold_case [a, b] =
     (if a = CHR 0xC5 \<and> b = CHR 0xBF then [CHR ''s''] else [lower_byte a, lower_byte b])"
| "fold_case s = map lower_byte s"

definition equal_fold :: "string \<Rightarrow> string \<Rightarrow> bool" where
  [go_lib]: "equal_fold s t \<longleftrightarrow> fold_case s = fold_case t"

subsection \<open>White space\<close>

text \<open>
  \<^verbatim>\<open>strings.TrimSpace\<close> removes Unicode white space at both ends; \<open>go_spaces\<close> lists the UTF-8
  encodings of all white-space code points.
\<close>

definition go_spaces :: "string list" where
  [go_lib]: "go_spaces =
     [[CHR 0x09], [CHR 0x0A], [CHR 0x0B], [CHR 0x0C], [CHR 0x0D], [CHR 0x20],
      [CHR 0xC2, CHR 0x85], [CHR 0xC2, CHR 0xA0], [CHR 0xE1, CHR 0x9A, CHR 0x80],
      [CHR 0xE2, CHR 0x80, CHR 0x80], [CHR 0xE2, CHR 0x80, CHR 0x81], [CHR 0xE2, CHR 0x80, CHR 0x82],
      [CHR 0xE2, CHR 0x80, CHR 0x83], [CHR 0xE2, CHR 0x80, CHR 0x84], [CHR 0xE2, CHR 0x80, CHR 0x85],
      [CHR 0xE2, CHR 0x80, CHR 0x86], [CHR 0xE2, CHR 0x80, CHR 0x87], [CHR 0xE2, CHR 0x80, CHR 0x88],
      [CHR 0xE2, CHR 0x80, CHR 0x89], [CHR 0xE2, CHR 0x80, CHR 0x8A], [CHR 0xE2, CHR 0x80, CHR 0xA8],
      [CHR 0xE2, CHR 0x80, CHR 0xA9], [CHR 0xE2, CHR 0x80, CHR 0xAF], [CHR 0xE2, CHR 0x81, CHR 0x9F],
      [CHR 0xE3, CHR 0x80, CHR 0x80]]"

function strip_front :: "string list \<Rightarrow> string \<Rightarrow> string" where
  "strip_front ps s =
     (case find (\<lambda>p. p \<noteq> [] \<and> s \<noteq> [] \<and> has_prefix s p) ps of
        None \<Rightarrow> s
      | Some p \<Rightarrow> strip_front ps (drop (length p) s))"
  by pat_completeness auto
termination
  by (relation "measure (\<lambda>(ps, s). length s)") (auto simp: find_Some_iff)

declare strip_front.simps [simp del]

definition trim_space :: "string \<Rightarrow> string" where
  [go_lib]: "trim_space s =
     rev (strip_front (map rev go_spaces) (rev (strip_front go_spaces s)))"

text \<open>The bytes of visible ASCII characters: none of them starts or ends a white-space code point.\<close>

definition visible :: "char \<Rightarrow> bool" where
  "visible c \<longleftrightarrow> 0x21 \<le> (of_char c :: nat) \<and> (of_char c :: nat) \<le> 0x7E"

subsection \<open>Decimal numbers\<close>

text \<open>\<^verbatim>\<open>strconv.Itoa\<close>, and reading the digits back.\<close>

definition digit_char :: "nat \<Rightarrow> char" where
  [go_lib]: "digit_char n = char_of (48 + n)"

definition is_digit :: "char \<Rightarrow> bool" where
  [go_lib]: "is_digit c \<longleftrightarrow> 48 \<le> (of_char c :: nat) \<and> (of_char c :: nat) \<le> 57"

fun nat_digits :: "nat \<Rightarrow> string" where
  "nat_digits n = (if n < 10 then [digit_char n] else nat_digits (n div 10) @ [digit_char (n mod 10)])"

declare nat_digits.simps [simp del]

definition itoa :: "int \<Rightarrow> string" where
  [go_lib]: "itoa n = (if n < 0 then CHR ''-'' # nat_digits (nat (- n)) else nat_digits (nat n))"

definition digits_val :: "string \<Rightarrow> nat" where
  "digits_val s = foldl (\<lambda>a c. 10 * a + (of_char c - 48)) 0 s"

section \<open>Maps\<close>

text \<open>
  A Go map is an association list: its order stands for the order in which a \<^verbatim>\<open>range\<close> loop meets
  the keys, which Go leaves open, so a statement about a map is about every order of its list. A
  map has each key once.
\<close>

type_synonym ('k, 'v) gomap = "('k \<times> 'v) list"

definition map_wf :: "('k, 'v) gomap \<Rightarrow> bool" where
  "map_wf m \<longleftrightarrow> distinct (map fst m)"

abbreviation map_put :: "'k \<Rightarrow> 'v \<Rightarrow> ('k, 'v) gomap \<Rightarrow> ('k, 'v) gomap" where
  "map_put \<equiv> AList.update"

abbreviation map_del :: "'k \<Rightarrow> ('k, 'v) gomap \<Rightarrow> ('k, 'v) gomap" where
  "map_del \<equiv> AList.delete"

section \<open>Dynamic values and errors\<close>

text \<open>
  The values an \<^verbatim>\<open>interface{}\<close> holds in this program: what decoding JSON gives (numbers are kept
  as their text, as \<^verbatim>\<open>json.Number\<close> does), string slices of HTTP headers, and \<open>VNil\<close> for the nil
  interface.
\<close>

datatype goval =
    VNil
  | VBool bool
  | VNum string
  | VString string
  | VStrs "string list"
  | VList "goval list"
  | VMap "(string, goval) gomap"

declare goval.splits [go_split]

text \<open>\<^verbatim>\<open>fmt.Sprint\<close> of one value: maps print sorted by key, slices in brackets.\<close>

fun sprint :: "goval \<Rightarrow> string" where
  "sprint VNil = ''<nil>''"
| "sprint (VBool b) = (if b then ''true'' else ''false'')"
| "sprint (VNum n) = n"
| "sprint (VString s) = s"
| "sprint (VStrs ss) = ''['' @ join '' '' ss @ '']''"
| "sprint (VList vs) = ''['' @ join '' '' (map sprint vs) @ '']''"
| "sprint (VMap m) =
     ''map['' @ join '' '' (map (\<lambda>(k, s). k @ '':'' @ s)
        (sort_key fst (map (\<lambda>(k, v). (k, sprint v)) m))) @ '']''"

datatype goerror =
    ErrAuthenticationFailed
  | ErrAuthenticationUnavailable
  | ErrText string
  | ErrWrap string goerror

text \<open>\<^verbatim>\<open>errors.Is\<close> follows the chain of wrapped errors.\<close>

fun errors_is :: "goerror \<Rightarrow> goerror \<Rightarrow> bool" where
  "errors_is (ErrWrap m e) t \<longleftrightarrow> ErrWrap m e = t \<or> errors_is e t"
| "errors_is e t \<longleftrightarrow> e = t"

section \<open>Lemmas on strings\<close>

lemma has_prefix_append [simp]: "has_prefix (p @ s) p"
  by (simp add: has_prefix_def)

lemma has_prefix_Nil [simp]: "has_prefix s []"
  by (simp add: has_prefix_def)

lemma has_prefix_iff: "has_prefix s p \<longleftrightarrow> (\<exists>r. s = p @ r)"
  by (metis append_take_drop_id has_prefix_append has_prefix_def)

lemma trim_prefix_append [simp]: "trim_prefix (p @ s) p = s"
  by (simp add: trim_prefix_def)

lemma split_on_not_Nil [simp]: "split_on c s \<noteq> []"
  by (induction s) (auto split: list.splits)

lemma join_Cons_if: "join sep (x # xs) = (if xs = [] then x else x @ sep @ join sep xs)"
  by (cases xs) auto

lemma join_split_on: "join [c] (split_on c s) = s"
  by (induction s) (auto simp: join_Cons_if split: list.splits if_splits)

lemma split_on_no_sep: "p \<in> set (split_on c s) \<Longrightarrow> c \<notin> set p"
  by (induction s arbitrary: p) (auto split: list.splits if_splits)

lemma split_on_id: "c \<notin> set s \<Longrightarrow> split_on c s = [s]"
  by (induction s) auto

lemma split_on_append: "c \<notin> set s \<Longrightarrow> split_on c (s @ c # t) = s # split_on c t"
  by (induction s) auto

lemma split_on_join:
  "xs \<noteq> [] \<Longrightarrow> \<forall>x \<in> set xs. c \<notin> set x \<Longrightarrow> split_on c (join [c] xs) = xs"
proof (induction xs)
  case (Cons x xs)
  then show ?case
    by (cases "xs = []") (auto simp: join_Cons_if split_on_id split_on_append)
qed simp

lemma splitn2_no_sep: "c \<notin> set s \<Longrightarrow> splitn2 c s = [s]"
proof -
  assume "c \<notin> set s"
  then have "dropWhile (\<lambda>x. x \<noteq> c) s = []" by (auto simp: dropWhile_eq_Nil_conv)
  then show ?thesis by (simp add: splitn2_def del: dropWhile_eq_Nil_conv)
qed

lemma splitn2_sep: "c \<notin> set s \<Longrightarrow> splitn2 c (s @ c # t) = [s, t]"
proof -
  assume a: "c \<notin> set s"
  then have "dropWhile (\<lambda>x. x \<noteq> c) (s @ c # t) = c # t"
    by (induction s) auto
  moreover from a have "takeWhile (\<lambda>x. x \<noteq> c) (s @ c # t) = s"
    by (induction s) auto
  ultimately show ?thesis by (simp add: splitn2_def)
qed

lemma splitn2_cases:
  obtains (none) "splitn2 c s = [s]" "c \<notin> set s"
  | (some) a b where "splitn2 c s = [a, b]" "s = a @ c # b" "c \<notin> set a"
proof (cases "c \<in> set s")
  case True
  then obtain a b where "s = a @ c # b" "c \<notin> set a"
    using split_list_first by metis
  then show ?thesis using some splitn2_sep by metis
next
  case False
  then show ?thesis using none splitn2_no_sep by metis
qed

lemma index_byte_neg: "index_byte s c < 0 \<longleftrightarrow> c \<notin> set s"
  by (induction s) (auto simp: Let_def)

lemma index_byte_append: "c \<notin> set s \<Longrightarrow> index_byte (s @ c # t) c = int (length s)"
  by (induction s) (auto simp: Let_def)

lemma contains_iff: "contains s sub \<longleftrightarrow> (\<exists>a b. s = a @ sub @ b)"
proof (induction s)
  case (Cons x xs)
  have "(\<exists>a b. x # xs = a @ sub @ b) \<longleftrightarrow>
      (\<exists>b. x # xs = sub @ b) \<or> (\<exists>a b. xs = a @ sub @ b)"
    by (metis append_Cons append_Nil list.exhaust list.inject)
  with Cons show ?case by (auto simp: has_prefix_iff)
qed auto

section \<open>Lemmas on numbers\<close>

lemma of_digit_char: "n < 10 \<Longrightarrow> (of_char (digit_char n) :: nat) = 48 + n"
  by (simp add: digit_char_def)

lemma digits_val_nat_digits: "digits_val (nat_digits n) = n"
proof (induction n rule: nat_digits.induct)
  case (1 n)
  then show ?case
    by (cases "n < 10") (simp_all add: nat_digits.simps [of n] digits_val_def of_digit_char)
qed

lemma nat_digits_chars: "c \<in> set (nat_digits n) \<Longrightarrow> 48 \<le> (of_char c :: nat) \<and> (of_char c :: nat) \<le> 57"
proof (induction n rule: nat_digits.induct)
  case (1 n)
  have "n mod 10 \<le> 9" by simp
  with 1 show ?case
    by (cases "n < 10") (auto simp: nat_digits.simps [of n] of_digit_char)
qed

lemma list_all_nat_digits: "list_all is_digit (nat_digits n)"
  using nat_digits_chars by (auto simp: list_all_iff is_digit_def)

lemma nat_digits_not_Nil [simp]: "nat_digits n \<noteq> []"
  by (subst nat_digits.simps) simp

lemma itoa_inject: "itoa m = itoa n \<longleftrightarrow> m = n"
proof
  assume eq: "itoa m = itoa n"
  have sign: "\<And>k. CHR ''-'' \<notin> set (nat_digits k)"
    using nat_digits_chars by force
  have digits: "\<And>j k. nat_digits j = nat_digits k \<Longrightarrow> j = k"
    by (metis digits_val_nat_digits)
  show "m = n"
  proof (cases "m < 0 \<longleftrightarrow> n < 0")
    case True
    with eq show ?thesis by (auto simp: itoa_def dest: digits split: if_splits)
  next
    case False
    with eq sign show ?thesis
      by (metis itoa_def list.set_intros(1))
  qed
qed simp

section \<open>Lemmas on maps\<close>

lemma map_wf_Nil [simp]: "map_wf []"
  by (simp add: map_wf_def)

lemma map_wf_put [simp]: "map_wf m \<Longrightarrow> map_wf (map_put k v m)"
  by (simp add: map_wf_def AList.distinct_update)

lemma map_wf_del [simp]: "map_wf m \<Longrightarrow> map_wf (map_del k m)"
  by (simp add: map_wf_def AList.distinct_delete)

lemma map_of_put [simp]: "map_of (map_put k v m) = (map_of m)(k \<mapsto> v)"
  by (simp add: AList.update_conv')

lemma map_of_del [simp]: "map_of (map_del k m) = (map_of m)(k := None)"
  by (simp add: AList.delete_conv')

lemma set_map_put_subset: "set (map_put k v m) \<subseteq> insert (k, v) (set m)"
  by (induction m) auto

lemma map_put_cases: "p \<in> set (map_put k v m) \<Longrightarrow> p = (k, v) \<or> p \<in> set m"
  using set_map_put_subset by fastforce

lemma map_wf_perm: "map_wf m \<Longrightarrow> mset m' = mset m \<Longrightarrow> map_wf m'"
  by (metis map_wf_def mset_eq_imp_distinct_iff mset_map)

lemma map_of_perm:
  assumes "map_wf m" and "mset m' = mset m"
  shows "map_of m' = map_of m"
proof -
  have "set m' = set m" using assms(2) by (rule mset_eq_setD)
  then show ?thesis
    using assms map_wf_perm [OF assms] by (simp add: map_wf_def map_of_inject_set)
qed

lemma map_of_fold_put:
  "map_of (fold (\<lambda>(k, v). map_put k v) ps m) = map_of m ++ map_of (rev ps)"
  by (induction ps arbitrary: m) (auto simp: map_add_def fun_eq_iff split: option.splits)

section \<open>Lemmas on errors\<close>

lemma errors_is_refl [simp]: "errors_is e e"
  by (cases e) auto

section \<open>Lemmas on white space\<close>

lemma strip_front_id:
  assumes "\<And>p. p \<in> set ps \<Longrightarrow> p \<noteq> [] \<Longrightarrow> s \<noteq> [] \<Longrightarrow> hd p \<noteq> hd s"
  shows "strip_front ps s = s"
proof -
  have "find (\<lambda>p. p \<noteq> [] \<and> s \<noteq> [] \<and> has_prefix s p) ps = None"
  proof (rule ccontr)
    assume "find (\<lambda>p. p \<noteq> [] \<and> s \<noteq> [] \<and> has_prefix s p) ps \<noteq> None"
    then obtain p where "p \<in> set ps" "p \<noteq> []" "s \<noteq> []" "has_prefix s p"
      by (auto simp: find_Some_iff) (metis nth_mem)
    with assms [of p] show False by (auto simp: has_prefix_iff)
  qed
  then show ?thesis by (simp add: strip_front.simps [of ps s])
qed

lemma space_heads:
  "list_all (\<lambda>p. \<not> visible (hd p)) go_spaces" "list_all (\<lambda>p. \<not> visible (hd p)) (map rev go_spaces)"
  by (simp_all add: go_spaces_def visible_def)

lemma trim_space_visible:
  assumes "s \<noteq> []" and "visible (hd s)" and "visible (last s)"
  shows "trim_space s = s"
proof -
  have "strip_front go_spaces s = s"
    by (rule strip_front_id) (use space_heads(1) assms in \<open>auto simp: list_all_iff\<close>)
  moreover have "strip_front (map rev go_spaces) (rev s) = rev s"
    by (rule strip_front_id) (use space_heads(2) assms in \<open>auto simp: list_all_iff hd_rev\<close>)
  ultimately show ?thesis by (simp add: trim_space_def)
qed

end
