(* ===== verification/Go_Http.thy ===== *)
theory Go_Http
  imports Go_Prelude
begin

text \<open>
  What the program uses of \<^verbatim>\<open>net/http\<close>, \<^verbatim>\<open>net/textproto\<close> and \<^verbatim>\<open>encoding/base64\<close>: header maps
  with canonical keys, the server's response writer, and standard base64 decoding. The encoder is
  the reference the decoder is proved against.
\<close>

section \<open>Headers\<close>

type_synonym header = "(string, string list) gomap"

definition upper_byte :: "char \<Rightarrow> char" where
  [go_lib]: "upper_byte c =
     (let n = (of_char c :: nat) in if 97 \<le> n \<and> n \<le> 122 then char_of (n - 32) else c)"

text \<open>The bytes of a header field name (RFC 7230 token).\<close>

definition valid_header_byte :: "char \<Rightarrow> bool" where
  [go_lib]: "valid_header_byte c =
     (let n = (of_char c :: nat) in
       (48 \<le> n \<and> n \<le> 57) \<or> (65 \<le> n \<and> n \<le> 90) \<or> (97 \<le> n \<and> n \<le> 122) \<or>
       n \<in> {0x21, 0x23, 0x24, 0x25, 0x26, 0x27, 0x2A, 0x2B, 0x2D, 0x2E, 0x5E, 0x5F, 0x60, 0x7C, 0x7E})"

fun canon :: "bool \<Rightarrow> string \<Rightarrow> string" where
  "canon upper [] = []"
| "canon upper (c # s) =
     (let c' = (if upper then upper_byte c else lower_byte c) in c' # canon (c' = CHR ''-'') s)"

text \<open>\<^verbatim>\<open>http.CanonicalHeaderKey\<close>: a name with a byte that is no token byte is left as it is.\<close>

definition canonical_key :: "string \<Rightarrow> string" where
  [go_lib]: "canonical_key s = (if list_all valid_header_byte s then canon True s else s)"

definition header_values :: "header \<Rightarrow> string \<Rightarrow> string list" where
  [go_lib]: "header_values h k = (case map_of h (canonical_key k) of None \<Rightarrow> [] | Some vs \<Rightarrow> vs)"

definition header_get :: "header \<Rightarrow> string \<Rightarrow> string" where
  [go_lib]: "header_get h k = (case header_values h k of [] \<Rightarrow> [] | v # _ \<Rightarrow> v)"

definition header_set :: "header \<Rightarrow> string \<Rightarrow> string \<Rightarrow> header" where
  [go_lib]: "header_set h k v = map_put (canonical_key k) [v] h"

definition header_del :: "header \<Rightarrow> string \<Rightarrow> header" where
  [go_lib]: "header_del h k = map_del (canonical_key k) h"

text \<open>
  The header map of a request read by the Go server: every key is there once, in canonical form.
\<close>

definition header_wf :: "header \<Rightarrow> bool" where
  "header_wf h \<longleftrightarrow> map_wf h \<and> (\<forall>k \<in> fst ` set h. canonical_key k = k)"

section \<open>The server's response writer\<close>

record respw =
  rw_header :: header
  rw_status :: "int option"
  rw_informational :: "int list"
  rw_body :: string
  rw_head :: bool

text \<open>\<open>rw_body\<close> is what the client receives; \<open>rw_head\<close> says that it asked with HEAD.\<close>

definition new_respw :: respw where
  "new_respw = \<lparr>rw_header = [], rw_status = None, rw_informational = [], rw_body = [], rw_head = False\<rparr>"

text \<open>
  \<^verbatim>\<open>WriteHeader\<close>: only the first final status counts; 1xx statuses other than 101 are sent as
  informational responses and leave the final status open.
\<close>

definition rw_write_header :: "respw \<Rightarrow> int \<Rightarrow> respw outcome" where
  [go_lib]: "rw_write_header w code =
     (if rw_status w \<noteq> None then Done w
      else if code < 100 \<or> 999 < code then Panic ''invalid WriteHeader code''
      else if code \<le> 199 \<and> code \<noteq> 101
        then Done (w\<lparr>rw_informational := rw_informational w @ [code]\<rparr>)
      else Done (w\<lparr>rw_status := Some code\<rparr>))"

definition body_allowed :: "int \<Rightarrow> bool" where
  [go_lib]: "body_allowed code \<longleftrightarrow> \<not> (100 \<le> code \<and> code \<le> 199) \<and> code \<noteq> 204 \<and> code \<noteq> 304"

text \<open>
  \<^verbatim>\<open>Write\<close> sends status 200 first when no status was sent, and returns the number of bytes
  accepted: none for a status that has no body. The body of an answer to HEAD is accepted and thrown away.
\<close>

definition rw_write :: "respw \<Rightarrow> string \<Rightarrow> respw \<times> nat" where
  [go_lib]: "rw_write w b =
     (let w1 = (if rw_status w = None then w\<lparr>rw_status := Some 200\<rparr> else w) in
      if body_allowed (the (rw_status w1)) then (if rw_head w1 then w1 else w1\<lparr>rw_body := rw_body w1 @ b\<rparr>, length b)
      else (w1, 0))"

section \<open>Base64\<close>

definition b64_alphabet :: string where
  "b64_alphabet = ''ABCDEFGHIJKLMNOPQRSTUVWXYZabcdefghijklmnopqrstuvwxyz0123456789+/''"

definition b64_val :: "char \<Rightarrow> nat option" where
  [go_lib]: "b64_val c =
     (let i = length (takeWhile (\<lambda>x. x \<noteq> c) b64_alphabet) in if i < 64 then Some i else None)"

definition b64_char :: "nat \<Rightarrow> char" where
  [go_lib]: "b64_char n = b64_alphabet ! n"

text \<open>Groups of four characters; a group with padding must be the last one.\<close>

fun b64_quanta :: "string \<Rightarrow> string option" where
  "b64_quanta [] = Some []"
| "b64_quanta (c1 # c2 # c3 # c4 # rest) =
     (case (b64_val c1, b64_val c2) of
        (Some a, Some b) \<Rightarrow>
          (if c3 = CHR ''='' \<and> c4 = CHR ''='' \<and> rest = [] then Some [char_of (a * 4 + b div 16)]
           else (case b64_val c3 of
               None \<Rightarrow> None
             | Some c \<Rightarrow>
                 (if c4 = CHR ''='' \<and> rest = []
                  then Some [char_of (a * 4 + b div 16), char_of (b mod 16 * 16 + c div 4)]
                  else (case b64_val c4 of
                      None \<Rightarrow> None
                    | Some d \<Rightarrow>
                        (case b64_quanta rest of
                           None \<Rightarrow> None
                         | Some s \<Rightarrow>
                             Some (char_of (a * 4 + b div 16) # char_of (b mod 16 * 16 + c div 4)
                               # char_of (c mod 4 * 64 + d) # s))))))
      | _ \<Rightarrow> None)"
| "b64_quanta s = None"

text \<open>\<^verbatim>\<open>base64.StdEncoding.DecodeString\<close> ignores line ends; \<open>None\<close> stands for its error.\<close>

definition b64_decode :: "string \<Rightarrow> string option" where
  [go_lib]: "b64_decode s = b64_quanta (filter (\<lambda>c. c \<noteq> CHR 0x0A \<and> c \<noteq> CHR 0x0D) s)"

fun b64_encode :: "string \<Rightarrow> string" where
  "b64_encode [] = []"
| "b64_encode [x] =
     (let n = of_char x in [b64_char (n div 4), b64_char (n mod 4 * 16), CHR ''='', CHR ''=''])"
| "b64_encode [x, y] =
     (let n = of_char x; m = of_char y in
      [b64_char (n div 4), b64_char (n mod 4 * 16 + m div 16), b64_char (m mod 16 * 4), CHR ''=''])"
| "b64_encode (x # y # z # s) =
     (let n = of_char x; m = of_char y; k = of_char z in
      b64_char (n div 4) # b64_char (n mod 4 * 16 + m div 16) # b64_char (m mod 16 * 4 + k div 64)
        # b64_char (k mod 64) # b64_encode s)"

section \<open>Lemmas on header keys\<close>

lemma of_char_upper_byte:
  "(of_char (upper_byte c) :: nat) =
    (if 97 \<le> (of_char c :: nat) \<and> (of_char c :: nat) \<le> 122 then of_char c - 32 else of_char c)"
  by (auto simp: upper_byte_def Let_def)

lemma of_char_lower_byte:
  "(of_char (lower_byte c) :: nat) =
    (if 65 \<le> (of_char c :: nat) \<and> (of_char c :: nat) \<le> 90 then of_char c + 32 else of_char c)"
  by (auto simp: lower_byte_def Let_def)

lemma upper_byte_idem [simp]: "upper_byte (upper_byte c) = upper_byte c"
proof -
  have "(of_char (upper_byte (upper_byte c)) :: nat) = of_char (upper_byte c)"
    unfolding of_char_upper_byte by auto
  then show ?thesis by (simp only: of_char_eq_iff)
qed

lemma lower_byte_idem [simp]: "lower_byte (lower_byte c) = lower_byte c"
proof -
  have "(of_char (lower_byte (lower_byte c)) :: nat) = of_char (lower_byte c)"
    unfolding of_char_lower_byte by auto
  then show ?thesis by (simp only: of_char_eq_iff)
qed

lemma valid_upper_byte [simp]: "valid_header_byte c \<Longrightarrow> valid_header_byte (upper_byte c)"
proof (cases "97 \<le> (of_char c :: nat) \<and> (of_char c :: nat) \<le> 122")
  case True
  then have "65 \<le> (of_char (upper_byte c) :: nat) \<and> (of_char (upper_byte c) :: nat) \<le> 90"
    by (auto simp: of_char_upper_byte)
  then show ?thesis by (simp add: valid_header_byte_def Let_def)
next
  case False
  then have "upper_byte c = c" by (auto simp: upper_byte_def Let_def)
  then show "valid_header_byte c \<Longrightarrow> ?thesis" by simp
qed

lemma valid_lower_byte [simp]: "valid_header_byte c \<Longrightarrow> valid_header_byte (lower_byte c)"
proof (cases "65 \<le> (of_char c :: nat) \<and> (of_char c :: nat) \<le> 90")
  case True
  then show ?thesis by (simp add: valid_header_byte_def of_char_lower_byte Let_def)
next
  case False
  then have "lower_byte c = c" by (auto simp: lower_byte_def Let_def)
  then show "valid_header_byte c \<Longrightarrow> ?thesis" by simp
qed

lemma canon_idem [simp]: "canon u (canon u s) = canon u s"
  by (induction u s rule: canon.induct) (auto simp: Let_def)

lemma canon_valid [simp]: "list_all valid_header_byte s \<Longrightarrow> list_all valid_header_byte (canon u s)"
  by (induction u s rule: canon.induct) (auto simp: Let_def)

lemma canonical_key_idem [simp]: "canonical_key (canonical_key s) = canonical_key s"
  by (simp add: canonical_key_def)

lemma length_canon [simp]: "length (canon u s) = length s"
  by (induction u s rule: canon.induct) (auto simp: Let_def)

section \<open>Lemmas on header maps\<close>

lemma header_wf_Nil [simp]: "header_wf []"
  by (simp add: header_wf_def)

lemma set_map_put: "fst ` set (map_put k v m) = insert k (fst ` set m)"
  by (induction m) auto

lemma set_map_del: "set (map_del k m) = {p \<in> set m. fst p \<noteq> k}"
  by (auto simp: AList.delete_eq)

lemma header_wf_set [simp]: "header_wf h \<Longrightarrow> header_wf (header_set h k v)"
  by (auto simp: header_wf_def header_set_def set_map_put)

lemma header_wf_del [simp]: "header_wf h \<Longrightarrow> header_wf (header_del h k)"
  by (auto simp: header_wf_def header_del_def set_map_del)

section \<open>Base64 round trip\<close>

lemma distinct_b64_alphabet: "distinct b64_alphabet"
  unfolding b64_alphabet_def by code_simp

lemma length_b64_alphabet [simp]: "length b64_alphabet = 64"
  by (simp add: b64_alphabet_def)

lemma length_takeWhile_nth:
  "distinct xs \<Longrightarrow> n < length xs \<Longrightarrow> length (takeWhile (\<lambda>x. x \<noteq> xs ! n) xs) = n"
proof (induction xs arbitrary: n)
  case (Cons x xs)
  then show ?case by (cases n) auto
qed simp

lemma b64_val_char [simp]: "n < 64 \<Longrightarrow> b64_val (b64_char n) = Some n"
  by (simp add: b64_val_def b64_char_def length_takeWhile_nth distinct_b64_alphabet)

lemma b64_alphabet_no_special:
  "CHR ''='' \<notin> set b64_alphabet" "CHR 0x0A \<notin> set b64_alphabet" "CHR 0x0D \<notin> set b64_alphabet"
  unfolding b64_alphabet_def by code_simp+

lemma b64_char_special [simp]:
  assumes "n < 64"
  shows "b64_char n \<noteq> CHR ''=''" and "b64_char n \<noteq> CHR 0x0A" and "b64_char n \<noteq> CHR 0x0D"
proof -
  have "b64_char n \<in> set b64_alphabet" using assms by (simp add: b64_char_def)
  then show "b64_char n \<noteq> CHR ''=''" "b64_char n \<noteq> CHR 0x0A" "b64_char n \<noteq> CHR 0x0D"
    using b64_alphabet_no_special by metis+
qed

lemma b64_bits:
  fixes n m k :: nat
  assumes "m < 256" and "k < 256"
  shows "n div 4 * 4 + (n mod 4 * 16 + m div 16) div 16 = n"
    and "(n mod 4 * 16 + m div 16) mod 16 * 16 + (m mod 16 * 4 + k div 64) div 4 = m"
    and "(m mod 16 * 4 + k div 64) mod 4 * 64 + k mod 64 = k"
    and "n mod 4 * 16 + m div 16 < 64"
    and "m mod 16 * 4 + k div 64 < 64"
proof -
  have m: "m div 16 < 16" and k: "k div 64 < 4"
    using assms by (simp_all add: less_mult_imp_div_less)
  then show "n div 4 * 4 + (n mod 4 * 16 + m div 16) div 16 = n"
    "(n mod 4 * 16 + m div 16) mod 16 * 16 + (m mod 16 * 4 + k div 64) div 4 = m"
    "(m mod 16 * 4 + k div 64) mod 4 * 64 + k mod 64 = k"
    by simp_all
  show "n mod 4 * 16 + m div 16 < 64" "m mod 16 * 4 + k div 64 < 64"
    using m k mod_less_divisor [of 4 n] mod_less_divisor [of 16 m] by linarith+
qed

lemmas b64_bits_char = b64_bits [OF nat_of_char_less_256 nat_of_char_less_256]
  b64_bits [of _ 0, simplified]

lemma b64_quanta_encode: "b64_quanta (b64_encode s) = Some s"
  by (induction s rule: b64_encode.induct)
    (simp_all add: Let_def less_mult_imp_div_less b64_bits_char)

lemma filter_b64_encode:
  "filter (\<lambda>c. c \<noteq> CHR 0x0A \<and> c \<noteq> CHR 0x0D) (b64_encode s) = b64_encode s"
  by (induction s rule: b64_encode.induct)
    (simp_all add: Let_def less_mult_imp_div_less b64_bits_char)

lemma b64_decode_encode: "b64_decode (b64_encode s) = Some s"
  by (simp add: b64_decode_def filter_b64_encode b64_quanta_encode)

end
