(* ===== verification/Types_Request.thy ===== *)
theory Types_Request
  imports Go_Http
begin

text \<open>
  \<^verbatim>\<open>internal/types\<close>: the request as the handlers see it, the \<open>Info\<close> record that is built from it
  and becomes the input of the policy, and the authentication errors. The context values of the
  request are its last two fields. \<open>Info\<close> is shared by pointer among the handlers of one request;
  the model keeps its one copy in the request and passes it through.
\<close>

section \<open>Data\<close>

record RequestAuth =
  Kind :: string
  Token :: string
  auth_User :: string
  Password :: string

record RequestInfo =
  ri_Method :: string
  ri_Path :: "string list"
  ri_Headers :: "(string, goval) gomap"
  ri_BlockedHeaders :: "(string, goval) gomap option"
  ri_Auth :: "RequestAuth option"
  ri_Size :: int
  ri_ID :: string

record Info =
  Request :: RequestInfo
  JWT :: goval
  User :: goval
  Result :: goval
  URL :: string

record request =
  r_Method :: string
  r_Path :: string
  r_RawQuery :: string
  r_ContentLength :: int
  r_RemoteIP :: "string option"
  r_Header :: header
  r_ctxInfo :: "Info option"
  r_ctxBlocked :: "(string, goval) gomap option"

section \<open>Operations\<close>

definition IsAuthenticationError :: "goerror \<Rightarrow> bool" where
  "IsAuthenticationError err \<longleftrightarrow>
     errors_is err ErrAuthenticationFailed \<or> errors_is err ErrAuthenticationUnavailable"

definition GetBlockedHeaders :: "request \<Rightarrow> (string, goval) gomap option" where
  "GetBlockedHeaders r = r_ctxBlocked r"

definition TruncateURLForMetrics :: "string \<Rightarrow> string list \<Rightarrow> int \<Rightarrow> string" where
  "TruncateURLForMetrics path segments level =
     (if level < 0 then path
      else if level = 0 then ''/''
      else ''/'' @ join ''/'' (take (nat (min level (int (length segments)))) segments))"

text \<open>The value of one header in the policy input: a string, or the slice of all values.\<close>

definition header_value :: "string list \<Rightarrow> goval" where
  "header_value v = (if length v = 1 then VString (hd v) else VStrs v)"

fun info_headers :: "header \<Rightarrow> (string, goval) gomap \<Rightarrow> (string, goval) gomap" where
  "info_headers [] acc = acc"
| "info_headers ((k, v) # h) acc = info_headers h (map_put k (header_value v) acc)"

text \<open>The credentials of one authorization header value.\<close>

definition parse_auth :: "string \<Rightarrow> RequestAuth" where
  "parse_auth authHdr =
     (let a = (case splitn2 (CHR '' '') authHdr of
            [k, t] \<Rightarrow> \<lparr>Kind = to_lower k, Token = trim_space t, auth_User = [], Password = []\<rparr>
          | parts \<Rightarrow> \<lparr>Kind = [], Token = hd parts, auth_User = [], Password = []\<rparr>)
      in if equal_fold (Kind a) ''basic''
         then (case b64_decode (Token a) of
              None \<Rightarrow> a
            | Some userpwd \<Rightarrow>
                (case splitn2 (CHR '':'') userpwd of
                   [u, p] \<Rightarrow> a\<lparr>auth_User := u, Password := p\<rparr>
                 | parts \<Rightarrow> a\<lparr>auth_User := hd parts\<rparr>))
         else a)"

text \<open>
  \<^verbatim>\<open>NewInfo\<close>. The type assertion on the authorization header panics when the header map holds a
  slice for it, that is, when the header was sent any number of times but once.
\<close>

definition NewInfo :: "request \<Rightarrow> string \<Rightarrow> int \<Rightarrow> Info outcome" where
  "NewInfo r authKey urlMetricsLevel =
     (let path = split_on (CHR ''/'') (trim_prefix (r_Path r) ''/'');
          headers = info_headers (r_Header r) [];
          blocked = (case GetBlockedHeaders r of
              Some b \<Rightarrow> if 0 < length b then Some b else None
            | None \<Rightarrow> None);
          mk = (\<lambda>auth. \<lparr>Request = \<lparr>ri_Method = r_Method r, ri_Path = path, ri_Headers = headers,
                   ri_BlockedHeaders = blocked, ri_Auth = auth, ri_Size = r_ContentLength r,
                   ri_ID = []\<rparr>,
                 JWT = VNil, User = VNil, Result = VNil,
                 URL = TruncateURLForMetrics (r_Path r) path urlMetricsLevel\<rparr>)
      in case map_of headers authKey of
           None \<Rightarrow> Done (mk None)
         | Some (VString authHdr) \<Rightarrow> Done (mk (Some (parse_auth authHdr)))
         | Some _ \<Rightarrow> Panic ''interface conversion: interface {} is not string'')"

definition RequestWithInfo :: "Info \<Rightarrow> request \<Rightarrow> request" where
  "RequestWithInfo info r = r\<lparr>r_ctxInfo := Some info\<rparr>"

definition GetInfo :: "request \<Rightarrow> Info option" where
  "GetInfo r = r_ctxInfo r"

text \<open>\<^verbatim>\<open>GetBearerToken\<close>: \<open>None\<close> for \<^verbatim>\<open>(nil, false)\<close>.\<close>

definition GetBearerToken :: "request \<Rightarrow> string \<Rightarrow> string option" where
  "GetBearerToken r authHeader =
     (case splitn2 (CHR '' '') (header_get (r_Header r) authHeader) of
        [k, t] \<Rightarrow> if equal_fold k ''bearer'' then Some t else None
      | _ \<Rightarrow> None)"

section \<open>Lemmas\<close>

lemma map_of_info_headers:
  "map_wf h \<Longrightarrow> map_of (info_headers h acc) k =
     (case map_of h k of Some v \<Rightarrow> Some (header_value v) | None \<Rightarrow> map_of acc k)"
proof (induction h acc rule: info_headers.induct)
  case (2 k' v h acc)
  then have "map_wf h" and "map_of h k' = None"
    by (auto simp: map_wf_def map_of_eq_None_iff)
  with 2 show ?case by (cases "k = k'") (simp_all split: option.splits)
qed simp

lemma info_headers_lookup:
  "map_wf h \<Longrightarrow> map_of (info_headers h []) k = map_option header_value (map_of h k)"
  by (simp add: map_of_info_headers split: option.splits)

lemma header_value_string: "header_value v = VString s \<longleftrightarrow> v = [s]"
  by (cases v) (auto simp: header_value_def)

lemma header_value_cases: "(\<exists>s. header_value v = VString s) \<or> header_value v = VStrs v"
  by (auto simp: header_value_def)

text \<open>The outcome of \<^verbatim>\<open>NewInfo\<close>, by the number of values of the authorization header.\<close>

lemma NewInfo_cases:
  assumes "map_wf (r_Header r)"
  shows "(\<exists>i. NewInfo r authKey lvl = Done i) \<longleftrightarrow>
    (case map_of (r_Header r) authKey of None \<Rightarrow> True | Some vs \<Rightarrow> length vs = 1)"
proof (cases "map_of (r_Header r) authKey")
  case None
  then show ?thesis by (simp add: NewInfo_def Let_def info_headers_lookup [OF assms])
next
  case (Some vs)
  then show ?thesis
    by (cases "length vs = 1")
      (auto simp: NewInfo_def Let_def info_headers_lookup [OF assms] header_value_def)
qed

text \<open>What every \<open>Info\<close> that \<^verbatim>\<open>NewInfo\<close> builds is made of.\<close>

lemma NewInfo_fields:
  assumes "NewInfo r authKey lvl = Done i"
  shows "ri_Method (Request i) = r_Method r"
    and "ri_Path (Request i) = split_on (CHR ''/'') (trim_prefix (r_Path r) ''/'')"
    and "ri_Headers (Request i) = info_headers (r_Header r) []"
    and "ri_Size (Request i) = r_ContentLength r"
    and "ri_ID (Request i) = []"
    and "JWT i = VNil" and "User i = VNil" and "Result i = VNil"
    and "URL i = TruncateURLForMetrics (r_Path r) (ri_Path (Request i)) lvl"
  using assms by (auto simp: NewInfo_def Let_def split: option.splits goval.splits)

lemma NewInfo_auth:
  assumes "NewInfo r authKey lvl = Done i" and "map_wf (r_Header r)"
  shows "ri_Auth (Request i) =
    (case map_of (r_Header r) authKey of Some [s] \<Rightarrow> Some (parse_auth s) | _ \<Rightarrow> None)"
  using assms
  by (auto simp: NewInfo_def Let_def info_headers_lookup header_value_string header_value_def
      split: option.splits goval.splits list.splits if_splits)

lemma b64_char_visible: "n < 64 \<Longrightarrow> visible (b64_char n)"
proof -
  have "list_all visible b64_alphabet" by code_simp
  then show "n < 64 \<Longrightarrow> visible (b64_char n)"
    by (simp add: b64_char_def list_all_iff)
qed

lemma visible_pad [simp]: "visible (CHR ''='')"
  by (simp add: visible_def)

lemma b64_encode_visible: "list_all visible (b64_encode s)"
  by (induction s rule: b64_encode.induct)
    (simp_all add: Let_def less_mult_imp_div_less b64_bits_char b64_char_visible)

lemma b64_encode_Nil: "b64_encode s = [] \<longleftrightarrow> s = []"
  by (cases s rule: b64_encode.cases) (auto simp: Let_def)

lemma trim_space_b64: "s \<noteq> [] \<Longrightarrow> trim_space (b64_encode s) = b64_encode s"
  using b64_encode_visible [of s]
  by (intro trim_space_visible) (auto simp: b64_encode_Nil list_all_iff)

text \<open>The header value of basic credentials, read back.\<close>

lemma parse_auth_basic:
  assumes "CHR '':'' \<notin> set user"
  shows "parse_auth (''Basic '' @ b64_encode (user @ '':'' @ password)) =
    \<lparr>Kind = ''basic'', Token = b64_encode (user @ '':'' @ password), auth_User = user, Password = password\<rparr>"
proof -
  let ?t = "b64_encode (user @ CHR '':'' # password)"
  have split: "splitn2 (CHR '' '') (''Basic '' @ ?t) = [''Basic'', ?t]"
    using splitn2_sep [of "CHR '' ''" "''Basic''" ?t] by simp
  have kind: "to_lower ''Basic'' = ''basic''" "equal_fold ''basic'' ''basic''"
    by code_simp+
  have "trim_space ?t = ?t" by (rule trim_space_b64) simp
  with split kind show ?thesis
    using splitn2_sep [OF assms, of password] by (simp add: parse_auth_def b64_decode_encode)
qed

lemma join_take_split:
  "join [c] (take n (split_on c s)) @ (if n < length (split_on c s) \<and> 0 < n then [c] else [])
     @ join [c] (drop n (split_on c s)) = s"
proof -
  have gen: "join [c] (take n xs) @ (if n < length xs \<and> 0 < n then [c] else []) @ join [c] (drop n xs)
      = join [c] xs" for xs
  proof (induction n arbitrary: xs)
    case (Suc n)
    show ?case
    proof (cases xs)
      case (Cons x ys)
      with Suc [of ys] show ?thesis
        by (cases ys; cases n) (auto simp: join_Cons_if split: if_splits)
    qed simp
  qed simp
  show ?thesis by (simp add: gen join_split_on)
qed

lemma count_join:
  "\<forall>x \<in> set xs. c \<notin> set x \<Longrightarrow> count_list (join [c] xs) c = length xs - 1"
proof (induction xs)
  case (Cons x xs)
  then show ?case by (cases xs) (auto simp: join_Cons_if)
qed simp

section \<open>Properties\<close>

text \<open>
  C39. \<^verbatim>\<open>NewInfo\<close> panics exactly when the configured authorization header is present and was not sent
  once: the type assertion to a string fails on the slice of its values.
\<close>

theorem NewInfo_panics_iff:
  assumes "map_wf (r_Header r)"
  shows "(\<exists>m. NewInfo r authKey lvl = Panic m) \<longleftrightarrow>
    (\<exists>vs. map_of (r_Header r) authKey = Some vs \<and> length vs \<noteq> 1)"
proof -
  have "(\<exists>m. NewInfo r authKey lvl = Panic m) \<longleftrightarrow> \<not> (\<exists>i. NewInfo r authKey lvl = Done i)"
    by (cases "NewInfo r authKey lvl") auto
  then show ?thesis using NewInfo_cases [OF assms] by (auto split: option.splits)
qed

theorem NewInfo_panics_iff_witness:
  "\<exists>m. NewInfo \<lparr>r_Method = ''GET'', r_Path = ''/a'', r_RawQuery = [], r_ContentLength = 0, r_RemoteIP = None,
     r_Header = [(''Authorization'', [''Bearer a'', ''Bearer b''])], r_ctxInfo = None, r_ctxBlocked = None\<rparr>
     ''Authorization'' 0 = Panic m"
  by (subst NewInfo_panics_iff) (simp_all add: map_wf_def)

text \<open>
  C33. Round trip of basic credentials. For a user name without a colon, the credentials that
  \<^verbatim>\<open>NewInfo\<close> reads from the header value of RFC 7617 are the user name and the password that were
  encoded in it, colons in the password included.
\<close>

theorem basic_credentials_roundtrip:
  assumes "CHR '':'' \<notin> set user"
  shows "parse_auth (''Basic '' @ b64_encode (user @ '':'' @ password)) =
    \<lparr>Kind = ''basic'', Token = b64_encode (user @ '':'' @ password), auth_User = user, Password = password\<rparr>"
  using assms by (rule parse_auth_basic)

theorem basic_credentials_roundtrip_witness:
  "auth_User (parse_auth (''Basic '' @ b64_encode (''alice'' @ '':'' @ ''p:w''))) = ''alice''"
  using basic_credentials_roundtrip [of "''alice''" "''p:w''"] by simp

text \<open>
  Round trip of the path. The path segments in the policy input, joined with slashes, are the path
  of the request, and no segment contains a slash: the policy sees all of the path.
\<close>

theorem policy_path_roundtrip:
  assumes "NewInfo r authKey lvl = Done i" and "has_prefix (r_Path r) ''/''"
  shows "''/'' @ join ''/'' (ri_Path (Request i)) = r_Path r \<and>
    list_all (\<lambda>seg. CHR ''/'' \<notin> set seg) (ri_Path (Request i))"
proof -
  obtain p where p: "r_Path r = CHR ''/'' # p" using assms(2) by (auto simp: has_prefix_iff)
  have "ri_Path (Request i) = split_on (CHR ''/'') p"
    using NewInfo_fields(2) [OF assms(1)] by (simp add: p trim_prefix_def has_prefix_def)
  then show ?thesis using join_split_on split_on_no_sep by (auto simp: p list_all_iff)
qed

theorem policy_path_roundtrip_witness:
  "\<exists>i. NewInfo \<lparr>r_Method = ''GET'', r_Path = ''/a//b'', r_RawQuery = [], r_ContentLength = 0, r_RemoteIP = None,
     r_Header = [], r_ctxInfo = None, r_ctxBlocked = None\<rparr> ''Authorization'' 0 = Done i \<and>
     ''/'' @ join ''/'' (ri_Path (Request i)) = ''/a//b''"
proof -
  let ?r = "\<lparr>r_Method = ''GET'', r_Path = ''/a//b'', r_RawQuery = [], r_ContentLength = 0, r_RemoteIP = None,
     r_Header = [], r_ctxInfo = None, r_ctxBlocked = None\<rparr>"
  obtain i where i: "NewInfo ?r ''Authorization'' 0 = Done i"
    by (auto simp: NewInfo_def Let_def)
  from policy_path_roundtrip [OF i] i show ?thesis by (auto simp: has_prefix_def)
qed

text \<open>
  The URL label of the metrics. With a level of at least 1 it is a prefix of the request path with
  at most that many slashes, however long the path is; the level 0 gives the one slash for every path,
  and a negative level the path itself.
\<close>

theorem url_label_bounds:
  assumes "NewInfo r authKey lvl = Done i" and "has_prefix (r_Path r) ''/''"
  shows "has_prefix (r_Path r) (URL i) \<and>
    (if lvl < 0 then URL i = r_Path r else count_list (URL i) (CHR ''/'') \<le> max 1 (nat lvl))"
proof -
  obtain p where p: "r_Path r = CHR ''/'' # p" using assms(2) by (auto simp: has_prefix_iff)
  have segs: "ri_Path (Request i) = split_on (CHR ''/'') p"
    using NewInfo_fields(2) [OF assms(1)] by (simp add: p trim_prefix_def has_prefix_def)
  let ?n = "nat (min lvl (int (length (split_on (CHR ''/'') p))))"
  have url: "URL i = (if lvl < 0 then r_Path r else if lvl = 0 then ''/''
      else CHR ''/'' # join ''/'' (take ?n (split_on (CHR ''/'') p)))"
    using NewInfo_fields(9) [OF assms(1)] segs by (simp add: TruncateURLForMetrics_def)
  have "count_list (join ''/'' (take ?n (split_on (CHR ''/'') p))) (CHR ''/'') \<le> ?n - 1"
    by (subst count_join) (auto dest: in_set_takeD split_on_no_sep)
  moreover have "has_prefix p (join ''/'' (take ?n (split_on (CHR ''/'') p)))"
    using join_take_split [of "CHR ''/''" ?n p] unfolding has_prefix_iff by metis
  ultimately show ?thesis
    by (auto simp: url p has_prefix_def)
qed

theorem url_label_bounds_witness:
  "\<exists>i. NewInfo \<lparr>r_Method = ''GET'', r_Path = ''/a/b/c'', r_RawQuery = [], r_ContentLength = 0, r_RemoteIP = None,
     r_Header = [], r_ctxInfo = None, r_ctxBlocked = None\<rparr> ''Authorization'' 2 = Done i \<and>
     count_list (URL i) (CHR ''/'') \<le> 2"
proof -
  let ?r = "\<lparr>r_Method = ''GET'', r_Path = ''/a/b/c'', r_RawQuery = [], r_ContentLength = 0, r_RemoteIP = None,
     r_Header = [], r_ctxInfo = None, r_ctxBlocked = None\<rparr>"
  obtain i where i: "NewInfo ?r ''Authorization'' 2 = Done i"
    by (auto simp: NewInfo_def Let_def)
  from url_label_bounds [OF i] i show ?thesis by (auto simp: has_prefix_def)
qed

end
