(* ===== verification/Exchange.thy ===== *)
theory Exchange
  imports Types_Request
begin

text \<open>
  One HTTP exchange as the handlers of the proxy see it: the request, the response writer that the
  handlers share, the state of the authentication provider and of the policy validator, the calls
  made on the Prometheus handles, the requests handed to the backend, and which label values the
  Prometheus client accepts. The response writer is the server's own or a \<^verbatim>\<open>responseTracker\<close> of \<^verbatim>\<open>internal/router/wrap.go\<close> around another writer.
\<close>

section \<open>Response writers\<close>

datatype writer =
    Raw respw
  | responseTracker (rt_inner: writer) (rt_status: int) (rt_size: int) (rt_wroteHeader: bool)

declare writer.splits [go_split]

definition newResponseTracker :: "writer \<Rightarrow> writer" where
  "newResponseTracker w = responseTracker w 200 0 False"

primrec WriteHeader :: "writer \<Rightarrow> int \<Rightarrow> writer outcome" where
  "WriteHeader (Raw w) code = bind_outcome (rw_write_header w code) (\<lambda>w'. Done (Raw w'))"
| "WriteHeader (responseTracker w status sz wroteHeader) code =
     bind_outcome (WriteHeader w code) (\<lambda>w'.
       Done (if \<not> wroteHeader then responseTracker w' code sz True
             else responseTracker w' status sz wroteHeader))"

primrec Write :: "writer \<Rightarrow> string \<Rightarrow> writer \<times> nat" where
  "Write (Raw w) b = (let (w', n) = rw_write w b in (Raw w', n))"
| "Write (responseTracker w status sz wroteHeader) b =
     (let (w', n) = Write w b in (responseTracker w' status (sz + int n) wroteHeader, n))"

primrec map_header :: "(header \<Rightarrow> header) \<Rightarrow> writer \<Rightarrow> writer" where
  "map_header f (Raw w) = Raw (w\<lparr>rw_header := f (rw_header w)\<rparr>)"
| "map_header f (responseTracker w status sz wroteHeader) =
     responseTracker (map_header f w) status sz wroteHeader"

text \<open>The server's writer below the trackers: what the client receives.\<close>

primrec raw_of :: "writer \<Rightarrow> respw" where
  "raw_of (Raw w) = w"
| "raw_of (responseTracker w status sz wroteHeader) = raw_of w"

text \<open>\<^verbatim>\<open>http.Error\<close>.\<close>

definition http_error :: "writer \<Rightarrow> string \<Rightarrow> int \<Rightarrow> writer outcome" where
  [go_lib]: "http_error w msg code =
     (let w1 = map_header (\<lambda>h. header_set (header_set (header_del h ''Content-Length'')
                 ''Content-Type'' ''text/plain; charset=utf-8'')
                 ''X-Content-Type-Options'' ''nosniff'') w
      in bind_outcome (WriteHeader w1 code) (\<lambda>w2. Done (fst (Write w2 (msg @ [CHR 0x0A])))))"

section \<open>Handlers\<close>

text \<open>The calls made on the Prometheus handles of \<^verbatim>\<open>internal/metrics\<close>, in order.\<close>

datatype metric_op =
    ObserveDuration "string list"
  | ObserveRequestSize "string list" int
  | ObserveResponseSize "string list" int
  | IncRequestsTotal "string list"
  | SetExposed int
  | AddCaptured int
  | IncWithBlocked

record ('p, 'v) exchange =
  req :: request
  wr :: writer
  auth_st :: 'p
  val_st :: 'v
  metric_log :: "metric_op list"
  forwarded :: "request list"
  label_values_ok :: "string list \<Rightarrow> bool"

text \<open>A handler returns, or panics and leaves the exchange as it was at that point.\<close>

datatype 's result = Served 's | Panicked string 's

declare result.splits [go_split]

primrec state_of :: "'s result \<Rightarrow> 's" where
  "state_of (Served s) = s"
| "state_of (Panicked m s) = s"

fun bind_result :: "'s result \<Rightarrow> ('s \<Rightarrow> 's result) \<Rightarrow> 's result" where
  "bind_result (Served s) f = f s"
| "bind_result (Panicked m s) f = Panicked m s"

type_synonym ('p, 'v) handler = "('p, 'v) exchange \<Rightarrow> ('p, 'v) exchange result"

text \<open>Answer the request with \<^verbatim>\<open>http.Error\<close> and return.\<close>

definition answer_error :: "string \<Rightarrow> int \<Rightarrow> ('p, 'v) handler" where
  [go_lib]: "answer_error msg code x =
     (case http_error (wr x) msg code of
        Done w \<Rightarrow> Served (x\<lparr>wr := w\<rparr>)
      | Panic m \<Rightarrow> Panicked m x)"

section \<open>Lemmas on writers\<close>

lemma raw_of_map_header [simp]:
  "raw_of (map_header f w) = (raw_of w)\<lparr>rw_header := f (rw_header (raw_of w))\<rparr>"
  by (induction w) auto

lemma WriteHeader_raw:
  "WriteHeader w code = Done w' \<Longrightarrow> rw_write_header (raw_of w) code = Done (raw_of w')"
proof (induction w arbitrary: w')
  case (Raw w)
  then show ?case by (cases "rw_write_header w code") auto
next
  case (responseTracker w status sz wrote)
  then show ?case by (cases "WriteHeader w code") (auto split: if_splits)
qed

lemma WriteHeader_total:
  "rw_status (raw_of w) \<noteq> None \<or> 100 \<le> code \<and> code \<le> 999 \<Longrightarrow> \<exists>w'. WriteHeader w code = Done w'"
  by (induction w) (auto simp: rw_write_header_def)

lemma Write_raw: "raw_of (fst (Write w b)) = fst (rw_write (raw_of w) b)"
  by (induction w) (auto simp: Let_def split: prod.splits)

lemma Write_count: "snd (Write w b) = snd (rw_write (raw_of w) b)"
  by (induction w) (auto simp: Let_def split: prod.splits)

lemma is_Raw_map_header [simp]: "is_Raw (map_header f w) = is_Raw w"
  by (cases w) auto

lemma is_Raw_Write [simp]: "is_Raw (fst (Write w b)) = is_Raw w"
  by (cases w) (auto simp: Let_def split: prod.splits)

lemma is_Raw_WriteHeader: "WriteHeader w code = Done w' \<Longrightarrow> is_Raw w' = is_Raw w"
  by (cases w; cases "rw_write_header (raw_of w) code"; cases "WriteHeader (rt_inner w) code")
    (auto split: if_splits)

text \<open>
  An error answer to a client that has received nothing yet: it always goes out, with that status
  and message, and no body before it.
\<close>

lemma http_error_fresh:
  assumes "rw_status (raw_of w) = None" and "200 \<le> code" and "code \<le> 999" and "body_allowed code"
  obtains w' where "http_error w msg code = Done w'"
    and "rw_status (raw_of w') = Some code"
    and "rw_body (raw_of w') = rw_body (raw_of w) @ (if rw_head (raw_of w) then [] else msg @ [CHR 0x0A])"
    and "rw_head (raw_of w') = rw_head (raw_of w)"
    and "is_Raw w' = is_Raw w"
proof -
  define w1 where "w1 = map_header (\<lambda>h. header_set (header_set (header_del h ''Content-Length'')
                 ''Content-Type'' ''text/plain; charset=utf-8'')
                 ''X-Content-Type-Options'' ''nosniff'') w"
  obtain w2 where w2: "WriteHeader w1 code = Done w2"
    using WriteHeader_total [of w1 code] assms by auto
  have "rw_write_header (raw_of w1) code = Done (raw_of w2)" using w2 by (rule WriteHeader_raw)
  with assms have raw2: "raw_of w2 = (raw_of w1)\<lparr>rw_status := Some code\<rparr>"
    by (auto simp: rw_write_header_def w1_def split: if_splits)
  let ?w' = "fst (Write w2 (msg @ [CHR 0x0A]))"
  have "http_error w msg code = Done ?w'"
    using w2 by (simp add: http_error_def w1_def Let_def)
  moreover have "rw_status (raw_of ?w') = Some code"
    and "rw_body (raw_of ?w') = rw_body (raw_of w) @ (if rw_head (raw_of w) then [] else msg @ [CHR 0x0A])"
    and "rw_head (raw_of ?w') = rw_head (raw_of w)"
    using assms(4) by (simp_all add: Write_raw raw2 rw_write_def w1_def Let_def)
  moreover have "is_Raw ?w' = is_Raw w"
    using is_Raw_WriteHeader [OF w2] by (simp add: w1_def)
  ultimately show ?thesis using that by blast
qed

end
