(* ===== verification/Metrics.thy ===== *)
theory Metrics
  imports Exchange
begin

text \<open>
  \<^verbatim>\<open>internal/metrics\<close>: the metrics the program declares, the middleware that records one request,
  and the counters of the blocked-headers feature. The Prometheus client library is not part of the
  sources: a call on one of its handles is an entry of the log \<open>metric_log\<close>.
\<close>

section \<open>Operations\<close>

datatype metric_kind = CounterVec | HistogramVec | SummaryVec | Gauge | Counter

text \<open>The buckets of a histogram: start and factor as fractions, and their number.\<close>

datatype buckets = ExponentialBuckets "int \<times> int" "int \<times> int" nat

record metric_desc =
  md_kind :: metric_kind
  md_name :: string
  md_help :: string
  md_buckets :: "buckets option"
  md_labels :: "string list"

definition metrics_labels :: "string list" where
  "metrics_labels = [''method'', ''code'', ''url'']"

definition metrics_buckets :: buckets where
  "metrics_buckets = ExponentialBuckets (1, 10) (3, 2) 5"

text \<open>The metrics that \<^verbatim>\<open>metrics.New\<close> creates, in order.\<close>

definition metrics_descs :: "metric_desc list" where
  "metrics_descs =
     [\<lparr>md_kind = CounterVec, md_name = ''http_requests_total'',
       md_help = ''Tracks the number of HTTP requests.'', md_buckets = None, md_labels = metrics_labels\<rparr>,
      \<lparr>md_kind = HistogramVec, md_name = ''http_request_duration_seconds'',
       md_help = ''Tracks the latencies for HTTP requests.'', md_buckets = Some metrics_buckets, md_labels = metrics_labels\<rparr>,
      \<lparr>md_kind = SummaryVec, md_name = ''http_request_size_bytes'',
       md_help = ''Tracks the size of HTTP requests.'', md_buckets = None, md_labels = metrics_labels\<rparr>,
      \<lparr>md_kind = SummaryVec, md_name = ''http_response_size_bytes'',
       md_help = ''Tracks the size of HTTP responses.'', md_buckets = None, md_labels = metrics_labels\<rparr>,
      \<lparr>md_kind = Gauge, md_name = ''restrego_blocked_headers_exposed'',
       md_help = ''Indicates if blocked headers feature is enabled (1) or disabled (0).'', md_buckets = None, md_labels = []\<rparr>,
      \<lparr>md_kind = Counter, md_name = ''restrego_blocked_headers_captured_total'',
       md_help = ''Total number of X-Restrego-* headers captured.'', md_buckets = None, md_labels = []\<rparr>,
      \<lparr>md_kind = Counter, md_name = ''restrego_requests_with_blocked_headers_total'',
       md_help = ''Total number of requests containing X-Restrego-* headers.'', md_buckets = None, md_labels = []\<rparr>]"

text \<open>
  Registration panics when the name is taken. \<open>metrics_New\<close> starts with an empty registry, registers the
  collectors of the client library (their metrics are an argument) and then its own metrics.
\<close>

fun MustRegister :: "metric_desc list \<Rightarrow> metric_desc list \<Rightarrow> metric_desc list outcome" where
  "MustRegister reg [] = Done reg"
| "MustRegister reg (d # ds) =
     (if md_name d \<in> md_name ` set reg then Panic ''duplicate metrics collector registration attempted''
      else MustRegister (reg @ [d]) ds)"

definition metrics_New :: "metric_desc list \<Rightarrow> metric_desc list outcome" where
  "metrics_New collectors = bind_outcome (MustRegister [] collectors) (\<lambda>reg. MustRegister reg metrics_descs)"

text \<open>\<^verbatim>\<open>metrics.Handler\<close>: the exposition of the client library, as an argument.\<close>

definition metrics_Handler :: "(metric_op list \<Rightarrow> string) \<Rightarrow> metric_op list \<Rightarrow> writer \<Rightarrow> writer outcome" where
  "metrics_Handler exposition log w = Done (fst (Write w (exposition log)))"

text \<open>
  \<^verbatim>\<open>metrics.Wrap\<close>. The writer must be a \<^verbatim>\<open>StatusWriter\<close>, which only the response tracker is; the
  request must carry an \<open>Info\<close>, which is read after the next handler has returned. \<^verbatim>\<open>WithLabelValues\<close> panics
  on label values that the client library does not accept.
\<close>

definition metrics_Wrap :: "('p, 'v) handler \<Rightarrow> ('p, 'v) handler" where
  "metrics_Wrap next x =
     (case wr x of
        Raw _ \<Rightarrow> Panicked ''metrics: StatusWriter expected'' x
      | responseTracker _ _ _ _ \<Rightarrow>
          bind_result (next x) (\<lambda>y.
            case GetInfo (req y) of
              None \<Rightarrow> Panicked ''nil pointer dereference'' y
            | Some info \<Rightarrow>
                (let labels = [r_Method (req y), itoa (rt_status (wr y)), URL info] in
                 if \<not> label_values_ok x labels then Panicked ''label values rejected'' y
                 else Served (y\<lparr>metric_log := metric_log y @
                   [ObserveDuration labels,
                    ObserveRequestSize labels (r_ContentLength (req y)),
                    ObserveResponseSize labels (rt_size (wr y)),
                    IncRequestsTotal labels]\<rparr>))))"

definition SetBlockedHeadersExposed :: "bool \<Rightarrow> metric_op list \<Rightarrow> metric_op list" where
  "SetBlockedHeadersExposed enabled log = log @ [SetExposed (if enabled then 1 else 0)]"

definition IncrementBlockedHeadersCaptured :: "int \<Rightarrow> metric_op list \<Rightarrow> metric_op list" where
  "IncrementBlockedHeadersCaptured n log = log @ [AddCaptured n]"

definition IncrementRequestsWithBlockedHeaders :: "metric_op list \<Rightarrow> metric_op list" where
  "IncrementRequestsWithBlockedHeaders log = log @ [IncWithBlocked]"

section \<open>Lemmas\<close>

text \<open>The label values of a call; Prometheus panics when their number differs from the declared labels.\<close>

fun op_labels :: "metric_op \<Rightarrow> string list option" where
  "op_labels (ObserveDuration ls) = Some ls"
| "op_labels (ObserveRequestSize ls _) = Some ls"
| "op_labels (ObserveResponseSize ls _) = Some ls"
| "op_labels (IncRequestsTotal ls) = Some ls"
| "op_labels _ = None"

definition labels_ok :: "metric_op list \<Rightarrow> bool" where
  "labels_ok log \<longleftrightarrow> (\<forall>op \<in> set log. case op_labels op of
     None \<Rightarrow> True | Some ls \<Rightarrow> length ls = length metrics_labels)"

fun total_labels :: "metric_op list \<Rightarrow> string list list" where
  "total_labels [] = []"
| "total_labels (IncRequestsTotal ls # log) = ls # total_labels log"
| "total_labels (_ # log) = total_labels log"

lemma total_labels_append [simp]: "total_labels (a @ b) = total_labels a @ total_labels b"
  by (induction a rule: total_labels.induct) auto

lemma labels_ok_append [simp]: "labels_ok (a @ b) \<longleftrightarrow> labels_ok a \<and> labels_ok b"
  by (auto simp: labels_ok_def)

lemma MustRegister_Done:
  "MustRegister reg ds = Done reg' \<longleftrightarrow>
    reg' = reg @ ds \<and> distinct (map md_name ds) \<and> md_name ` set ds \<inter> md_name ` set reg = {}"
  by (induction reg ds rule: MustRegister.induct) auto

lemma metrics_descs_distinct: "distinct (map md_name metrics_descs)"
  by code_simp

lemma metrics_New_Done:
  assumes "distinct (map md_name collectors)" and "md_name ` set collectors \<inter> md_name ` set metrics_descs = {}"
  shows "metrics_New collectors = Done (collectors @ metrics_descs)"
proof -
  have "MustRegister [] collectors = Done collectors" using assms(1) by (simp add: MustRegister_Done)
  moreover have "MustRegister collectors metrics_descs = Done (collectors @ metrics_descs)"
    using assms(2) metrics_descs_distinct by (auto simp: MustRegister_Done)
  ultimately show ?thesis by (simp add: metrics_New_def)
qed

lemma metrics_Wrap_keeps:
  shows "forwarded (state_of (metrics_Wrap next x)) =
      (if is_Raw (wr x) then forwarded x else forwarded (state_of (next x)))"
    and "req (state_of (metrics_Wrap next x)) =
      (if is_Raw (wr x) then req x else req (state_of (next x)))"
    and "wr (state_of (metrics_Wrap next x)) =
      (if is_Raw (wr x) then wr x else wr (state_of (next x)))"
  by (cases "next x"; auto simp: metrics_Wrap_def Let_def split: writer.splits option.splits)+

end
