(* ===== verification/Config.thy ===== *)
theory Config
  imports Go_Http
begin

text \<open>
  \<^verbatim>\<open>internal/config\<close>: the configuration record and its validation. Parsing flags and environment
  variables is the work of the \<^verbatim>\<open>go-arg\<close> package, so \<open>config_New\<close> starts from the parsed record; the
  validity checks of the \<^verbatim>\<open>envsubst\<close> package are parameters. Durations are in nanoseconds.
\<close>

section \<open>Data\<close>

record Fields =
  Verbose :: bool
  Debug :: bool
  PolicyDir :: string
  FilePattern :: string
  RequestRego :: string
  ListenAddr :: string
  MgmtAddr :: string
  AzureTenant :: string
  AuthHeader :: string
  AuthKind :: string
  BackendScheme :: string
  BackendHost :: string
  BackendPort :: int
  WellKnownURL :: "string list"
  Audiences :: "string list"
  AudienceKey :: string
  PermissiveAuth :: bool
  BasicAuthFile :: string
  NoAuth :: bool
  ExposeBlockedHeaders :: bool
  EnvsubstPrefix :: string
  EnvsubstWrapper :: string
  URLMetricsLevel :: int
  ReadHeaderTimeout :: int
  ReadTimeout :: int
  WriteTimeout :: int
  IdleTimeout :: int
  BackendDialTimeout :: int
  BackendResponseTimeout :: int
  BackendIdleConnTimeout :: int

text \<open>A start-up step goes on, ends the process with \<^verbatim>\<open>os.Exit\<close>, or panics.\<close>

datatype 'a proc = Running 'a | Exited int | Crashed string

declare proc.splits [go_split]

fun bind_proc :: "'a proc \<Rightarrow> ('a \<Rightarrow> 'b proc) \<Rightarrow> 'b proc" where
  "bind_proc (Running a) f = f a"
| "bind_proc (Exited n) f = Exited n"
| "bind_proc (Crashed m) f = Crashed m"

abbreviation second :: int where
  "second \<equiv> 1000000000"

text \<open>The values of the \<^verbatim>\<open>default:\<close> tags.\<close>

definition default_Fields :: Fields where
  "default_Fields =
     \<lparr>Verbose = False, Debug = False, PolicyDir = ''./policies'', FilePattern = ''*.rego'',
      RequestRego = ''request.rego'', ListenAddr = '':8181'', MgmtAddr = '':8182'',
      AzureTenant = [], AuthHeader = ''Authorization'', AuthKind = ''bearer'',
      BackendScheme = ''http'', BackendHost = ''localhost'', BackendPort = 8080,
      WellKnownURL = [], Audiences = [], AudienceKey = ''aud'', PermissiveAuth = False,
      BasicAuthFile = [], NoAuth = False, ExposeBlockedHeaders = False,
      EnvsubstPrefix = ''$'', EnvsubstWrapper = ''{'', URLMetricsLevel = 0,
      ReadHeaderTimeout = 10 * second, ReadTimeout = 30 * second, WriteTimeout = 90 * second,
      IdleTimeout = 120 * second, BackendDialTimeout = 10 * second,
      BackendResponseTimeout = 30 * second, BackendIdleConnTimeout = 90 * second\<rparr>"

section \<open>Operations\<close>

text \<open>\<^verbatim>\<open>types.Version\<close>, with the embedded file as an argument, and the method that shows it in the usage text.\<close>

definition Version :: "string \<Rightarrow> string" where
  "Version embedded = embedded"

definition Fields_Version :: "string \<Rightarrow> Fields \<Rightarrow> string" where
  "Fields_Version embedded f = Version embedded"

text \<open>\<^verbatim>\<open>rune(s[0])\<close>: indexing an empty string panics.\<close>

definition EnvsubstPrefixRune :: "Fields \<Rightarrow> char proc" where
  "EnvsubstPrefixRune f =
     (case EnvsubstPrefix f of [] \<Rightarrow> Crashed ''index out of range'' | c # _ \<Rightarrow> Running c)"

definition EnvsubstWrapperRune :: "Fields \<Rightarrow> char proc" where
  "EnvsubstWrapperRune f =
     (case EnvsubstWrapper f of [] \<Rightarrow> Crashed ''index out of range'' | c # _ \<Rightarrow> Running c)"

definition validateEnvsubst :: "(char \<Rightarrow> bool) \<Rightarrow> (char \<Rightarrow> bool) \<Rightarrow> Fields \<Rightarrow> unit proc" where
  "validateEnvsubst SetPrefix SetWrapper f =
     bind_proc (EnvsubstPrefixRune f) (\<lambda>p.
       if \<not> SetPrefix p then Exited 1
       else bind_proc (EnvsubstWrapperRune f) (\<lambda>q.
         if \<not> SetWrapper q then Exited 1 else Running ()))"

definition minTimeout :: int where "minTimeout = 1 * second"
definition maxTimeout :: int where "maxTimeout = 600 * second"

definition timeouts :: "Fields \<Rightarrow> (string, int) gomap" where
  "timeouts f =
     [(''read-header-timeout'', ReadHeaderTimeout f), (''read-timeout'', ReadTimeout f),
      (''write-timeout'', WriteTimeout f), (''idle-timeout'', IdleTimeout f),
      (''backend-dial-timeout'', BackendDialTimeout f),
      (''backend-response-timeout'', BackendResponseTimeout f),
      (''backend-idle-timeout'', BackendIdleConnTimeout f)]"

fun check_timeouts :: "(string, int) gomap \<Rightarrow> unit proc" where
  "check_timeouts [] = Running ()"
| "check_timeouts ((name, timeout) # rest) =
     (if timeout < minTimeout then Exited 1
      else if timeout > maxTimeout then Exited 1
      else check_timeouts rest)"

text \<open>
  \<^verbatim>\<open>validateTimeouts\<close>; the first argument is the order in which the loop meets the entries of the
  map literal.
\<close>

definition validateTimeouts :: "((string, int) gomap \<Rightarrow> (string, int) gomap) \<Rightarrow> Fields \<Rightarrow> unit proc" where
  "validateTimeouts order f =
     bind_proc (check_timeouts (order (timeouts f))) (\<lambda>_.
       if ReadTimeout f < ReadHeaderTimeout f then Exited 1 else Running ())"

definition authCount :: "Fields \<Rightarrow> int" where
  "authCount f =
     (if AzureTenant f \<noteq> [] then 1 else 0) + (if length (WellKnownURL f) > 0 then 1 else 0)
     + (if BasicAuthFile f \<noteq> [] then 1 else 0) + (if NoAuth f then 1 else 0)"

text \<open>\<^verbatim>\<open>config.New\<close>, after \<^verbatim>\<open>arg.MustParse\<close> has filled the record.\<close>

definition config_New ::
  "(char \<Rightarrow> bool) \<Rightarrow> (char \<Rightarrow> bool) \<Rightarrow> ((string, int) gomap \<Rightarrow> (string, int) gomap)
    \<Rightarrow> Fields \<Rightarrow> Fields proc" where
  "config_New SetPrefix SetWrapper order f =
     bind_proc (validateEnvsubst SetPrefix SetWrapper f) (\<lambda>_.
     bind_proc (validateTimeouts order f) (\<lambda>_.
       if authCount f > 1 then Exited 1
       else if length (WellKnownURL f) > 0 \<and> length (Audiences f) = 0 then Exited 1
       else if length (AuthHeader f) = 0 then Exited 1
       else Running (f\<lparr>AuthHeader := canonical_key (AuthHeader f)\<rparr>)))"

section \<open>Lemmas\<close>

lemma bind_proc_Running: "bind_proc m f = Running b \<longleftrightarrow> (\<exists>a. m = Running a \<and> f a = Running b)"
  by (cases m) auto

lemma validateEnvsubst_Running:
  "validateEnvsubst SetPrefix SetWrapper f = Running u \<longleftrightarrow>
    EnvsubstPrefix f \<noteq> [] \<and> SetPrefix (hd (EnvsubstPrefix f)) \<and>
    EnvsubstWrapper f \<noteq> [] \<and> SetWrapper (hd (EnvsubstWrapper f))"
  by (auto simp: validateEnvsubst_def bind_proc_Running EnvsubstPrefixRune_def
      EnvsubstWrapperRune_def split: list.splits if_splits)

definition timeouts_in_range :: "Fields \<Rightarrow> bool" where
  "timeouts_in_range f \<longleftrightarrow>
     (\<forall>t \<in> {ReadHeaderTimeout f, ReadTimeout f, WriteTimeout f, IdleTimeout f,
        BackendDialTimeout f, BackendResponseTimeout f, BackendIdleConnTimeout f}.
        minTimeout \<le> t \<and> t \<le> maxTimeout) \<and> ReadHeaderTimeout f \<le> ReadTimeout f"

lemma check_timeouts_iff:
  "check_timeouts m = (if \<forall>p \<in> set m. minTimeout \<le> snd p \<and> snd p \<le> maxTimeout
     then Running () else Exited 1)"
  by (induction m rule: check_timeouts.induct) auto

lemma check_timeouts_order:
  assumes "mset m' = mset m"
  shows "check_timeouts m' = check_timeouts m"
proof -
  have "set m' = set m" using assms by (rule mset_eq_setD)
  then show ?thesis by (simp only: check_timeouts_iff)
qed

lemma validateTimeouts_eq:
  assumes "\<And>m. mset (order m) = mset m"
  shows "validateTimeouts order f = (if timeouts_in_range f then Running () else Exited 1)"
proof -
  have "check_timeouts (order (timeouts f)) = check_timeouts (timeouts f)"
    using assms by (rule check_timeouts_order)
  then show ?thesis
    by (simp add: validateTimeouts_def check_timeouts_iff [of "timeouts f"] timeouts_def
        timeouts_in_range_def)
qed

text \<open>
  At most one way to authenticate is configured: any two of the four settings exclude each other. This is
  said pair by pair, without counting.
\<close>

definition at_most_one_method :: "Fields \<Rightarrow> bool" where
  "at_most_one_method f \<longleftrightarrow>
     (AzureTenant f = [] \<or> WellKnownURL f = []) \<and> (AzureTenant f = [] \<or> BasicAuthFile f = []) \<and>
     (AzureTenant f = [] \<or> \<not> NoAuth f) \<and> (WellKnownURL f = [] \<or> BasicAuthFile f = []) \<and>
     (WellKnownURL f = [] \<or> \<not> NoAuth f) \<and> (BasicAuthFile f = [] \<or> \<not> NoAuth f)"

lemma authCount_iff: "authCount f \<le> 1 \<longleftrightarrow> at_most_one_method f"
  by (simp add: authCount_def at_most_one_method_def)

text \<open>The accepted configurations, with the parts of the check side by side.\<close>

lemma config_New_Running:
  assumes "\<And>m. mset (order m) = mset m"
  shows "config_New SetPrefix SetWrapper order f = Running g \<longleftrightarrow>
    EnvsubstPrefix f \<noteq> [] \<and> SetPrefix (hd (EnvsubstPrefix f)) \<and>
    EnvsubstWrapper f \<noteq> [] \<and> SetWrapper (hd (EnvsubstWrapper f)) \<and>
    timeouts_in_range f \<and> at_most_one_method f \<and>
    (WellKnownURL f \<noteq> [] \<longrightarrow> Audiences f \<noteq> []) \<and> AuthHeader f \<noteq> [] \<and>
    g = f\<lparr>AuthHeader := canonical_key (AuthHeader f)\<rparr>"
  by (auto simp: config_New_def bind_proc_Running validateEnvsubst_Running
      validateTimeouts_eq [OF assms] authCount_iff [symmetric] split: if_splits)

section \<open>Properties\<close>

text \<open>
  C36. The configurations that are accepted. No two of the Azure tenant, the well-known URLs, the htpasswd file
  and the switch that turns authentication off are set together, well-known URLs come with audiences, the
  timeouts are in range, the characters for environment substitution are given and accepted, the header name is
  not empty, and the record is passed on with the canonical form of the header name and nothing else changed.
\<close>

theorem accepted_configuration:
  assumes "\<And>m. mset (order m) = mset m"
  shows "config_New SetPrefix SetWrapper order f = Running g \<longleftrightarrow>
    EnvsubstPrefix f \<noteq> [] \<and> SetPrefix (hd (EnvsubstPrefix f)) \<and>
    EnvsubstWrapper f \<noteq> [] \<and> SetWrapper (hd (EnvsubstWrapper f)) \<and>
    timeouts_in_range f \<and> at_most_one_method f \<and>
    (WellKnownURL f = [] \<or> Audiences f \<noteq> []) \<and> AuthHeader f \<noteq> [] \<and>
    g = f\<lparr>AuthHeader := canonical_key (AuthHeader f)\<rparr>"
  unfolding config_New_Running [OF assms] by blast

theorem accepted_configuration_witness:
  "config_New (\<lambda>c. c = CHR ''$'') (\<lambda>c. c = CHR ''{'') rev (default_Fields\<lparr>AuthHeader := ''x-token''\<rparr>) =
    Running (default_Fields\<lparr>AuthHeader := ''X-Token''\<rparr>)"
proof -
  have "canonical_key ''x-token'' = ''X-Token''" by code_simp
  then show ?thesis
    using accepted_configuration [of rev "\<lambda>c. c = CHR ''$''" "\<lambda>c. c = CHR ''{''" "default_Fields\<lparr>AuthHeader := ''x-token''\<rparr>"
        "default_Fields\<lparr>AuthHeader := ''X-Token''\<rparr>"]
    by (simp add: default_Fields_def timeouts_in_range_def at_most_one_method_def minTimeout_def maxTimeout_def)
qed

end
