(* ===== verification/Auth_Provider.thy ===== *)
theory Auth_Provider
  imports Exchange
begin

text \<open>
  The interface \<^verbatim>\<open>types.AuthProvider\<close> as a contract. A provider has a state, an invariant on it, and
  the operation \<^verbatim>\<open>Authenticate\<close>, which may change the \<open>Info\<close> of the request. The four providers of
  the program are interpretations of the locale; the handler that calls \<^verbatim>\<open>Authenticate\<close> is verified
  against it.
\<close>

type_synonym 'p authenticator = "'p \<Rightarrow> Info \<Rightarrow> request \<Rightarrow> ('p \<times> Info \<times> goerror option) outcome"

text \<open>
  What a provider leaves alone: all of the policy input but the identity, the request id and the
  password.
\<close>

definition same_request :: "Info \<Rightarrow> Info \<Rightarrow> bool" where
  "same_request i j \<longleftrightarrow>
     ri_Method (Request j) = ri_Method (Request i) \<and> ri_Path (Request j) = ri_Path (Request i) \<and>
     ri_Headers (Request j) = ri_Headers (Request i) \<and>
     ri_BlockedHeaders (Request j) = ri_BlockedHeaders (Request i) \<and>
     ri_Size (Request j) = ri_Size (Request i) \<and>
     map_option (\<lambda>a. a\<lparr>Password := []\<rparr>) (ri_Auth (Request j)) =
       map_option (\<lambda>a. a\<lparr>Password := []\<rparr>) (ri_Auth (Request i)) \<and>
     Result j = Result i \<and> URL j = URL i"

lemma same_request_refl [simp]: "same_request i i"
  by (simp add: same_request_def)

lemma same_request_JWT [simp]: "same_request i (i\<lparr>JWT := v\<rparr>)"
  by (simp add: same_request_def)

text \<open>Whether authentication put an identity on the request.\<close>

definition authenticated :: "Info \<Rightarrow> bool" where
  "authenticated i \<longleftrightarrow> JWT i \<noteq> VNil \<or> User i \<noteq> VNil"

locale auth_provider =
  fixes authenticate :: "'p authenticator"
    and invar :: "'p \<Rightarrow> bool"
  assumes auth_returns: "invar p \<Longrightarrow> \<exists>y. authenticate p i r = Done y"
    and auth_invar: "invar p \<Longrightarrow> authenticate p i r = Done (p', i', eo) \<Longrightarrow> invar p'"
    and auth_error: "authenticate p i r = Done (p', i', Some e) \<Longrightarrow> IsAuthenticationError e"
    and auth_frame: "authenticate p i r = Done (p', i', eo) \<Longrightarrow> same_request i i'"
    and auth_no_identity:
      "authenticate p i r = Done (p', i', Some e) \<Longrightarrow> JWT i' = JWT i \<and> User i' = User i"
begin

text \<open>On success or failure: the three outcomes a client can see, and no panic.\<close>

lemma auth_cases:
  assumes "invar p"
  obtains (ok) p' i' where "authenticate p i r = Done (p', i', None)" "invar p'" "same_request i i'"
  | (denied) p' i' e where "authenticate p i r = Done (p', i', Some e)" "invar p'"
      "same_request i i'" "\<not> authenticated i \<Longrightarrow> \<not> authenticated i'"
      "errors_is e ErrAuthenticationFailed \<or>
       \<not> errors_is e ErrAuthenticationFailed \<and> errors_is e ErrAuthenticationUnavailable"
proof -
  obtain p' i' eo where run: "authenticate p i r = Done (p', i', eo)"
    using auth_returns [OF assms] by (metis prod_cases3)
  show ?thesis
  proof (cases eo)
    case None
    then show ?thesis using run ok auth_invar [OF assms] auth_frame by metis
  next
    case (Some e)
    with run have run': "authenticate p i r = Done (p', i', Some e)" by simp
    from denied [OF run' auth_invar [OF assms run'] auth_frame [OF run']]
    show ?thesis
      using auth_error [OF run'] auth_no_identity [OF run']
      by (auto simp: IsAuthenticationError_def authenticated_def)
  qed
qed

end

end
