(* ===== verification/Validator.thy ===== *)
theory Validator
  imports Types_Request
begin

text \<open>
  The interface \<^verbatim>\<open>types.Validator\<close> as a contract: a result that comes without an error is the value of
  the policy in force, for exactly the input that was given. The rego cache is the interpretation; the
  policy handler of the router is verified against it.
\<close>

type_synonym 'v validate_fn = "'v \<Rightarrow> string \<Rightarrow> Info \<Rightarrow> ('v \<times> (goerror + goval)) outcome"

locale policy_validator =
  fixes validate :: "'v validate_fn"
    and policy :: "'v \<Rightarrow> string \<Rightarrow> 'q option"
    and eval :: "'q \<Rightarrow> Info \<Rightarrow> goerror + goval"
  assumes validate_result:
    "validate v name input = Done (v', Inr x) \<Longrightarrow> \<exists>q. policy v' name = Some q \<and> eval q input = Inr x"
begin

lemma no_policy_no_result:
  "validate v name input = Done (v', y) \<Longrightarrow> policy v' name = None \<Longrightarrow> \<exists>e. y = Inl e"
  using validate_result by (cases y) fastforce+

end

end
