(* ===== verification/File_Url.thy ===== *)
theory File_Url
  imports Go_Http
begin

text \<open>
  \<^verbatim>\<open>internal/jwtsupport/support.go\<close>: \<^verbatim>\<open>file:\<close> URLs and the paths they name, with the parts of
  \<^verbatim>\<open>net/url\<close> and \<^verbatim>\<open>path/filepath\<close> (Unix) they use. \<open>url_parse_file\<close> is \<^verbatim>\<open>url.Parse\<close> on a string
  that starts with \<^verbatim>\<open>file:\<close>, the only strings it is called on; whether a host in square brackets is a
  well-formed IP literal is a parameter.
\<close>

section \<open>net/url and path/filepath\<close>

definition hex_val :: "char \<Rightarrow> nat option" where
  [go_lib]: "hex_val c =
     (let n = (of_char c :: nat) in
      if 48 \<le> n \<and> n \<le> 57 then Some (n - 48)
      else if 97 \<le> n \<and> n \<le> 102 then Some (n - 87)
      else if 65 \<le> n \<and> n \<le> 70 then Some (n - 55) else None)"

fun percent_decode :: "string \<Rightarrow> string option" where
  "percent_decode [] = Some []"
| "percent_decode (c # s) =
     (if c = CHR ''%''
      then (case s of
          a # b # rest \<Rightarrow>
            (case (hex_val a, hex_val b) of
               (Some x, Some y) \<Rightarrow> map_option (Cons (char_of (16 * x + y))) (percent_decode rest)
             | _ \<Rightarrow> None)
        | _ \<Rightarrow> None)
      else map_option (Cons c) (percent_decode s))"

text \<open>\<^verbatim>\<open>strings.Cut\<close>: the parts before and after the first separator.\<close>

definition cut :: "char \<Rightarrow> string \<Rightarrow> string \<times> string" where
  [go_lib]: "cut c s = (takeWhile (\<lambda>x. x \<noteq> c) s, drop 1 (dropWhile (\<lambda>x. x \<noteq> c) s))"

definition is_ctl :: "char \<Rightarrow> bool" where
  [go_lib]: "is_ctl c \<longleftrightarrow> (of_char c :: nat) < 0x20 \<or> (of_char c :: nat) = 0x7F"

record parsed_url =
  u_Path :: string
  u_Opaque :: string

text \<open>
  The authority part of a URL: the user before the last \<^verbatim>\<open>@\<close>, and the host with its port. A host may hold
  only certain bytes, and percent-encoded ones only outside ASCII; a user must decode.
\<close>

definition alphanumeric :: "char \<Rightarrow> bool" where
  [go_lib]: "alphanumeric c \<longleftrightarrow> is_digit c \<or> (let n = (of_char c :: nat) in 65 \<le> n \<and> n \<le> 90 \<or> 97 \<le> n \<and> n \<le> 122)"

definition host_byte :: "char \<Rightarrow> bool" where
  [go_lib]: "host_byte c \<longleftrightarrow> alphanumeric c \<or> 0x80 \<le> (of_char c :: nat) \<or>
     c \<in> set (''!$&()*+,;=:[]<>-_.~'' @ [CHR 0x22, CHR 0x27])"

fun host_decodes :: "string \<Rightarrow> bool" where
  "host_decodes [] \<longleftrightarrow> True"
| "host_decodes (c # s) \<longleftrightarrow>
     (if c = CHR ''%''
      then (case s of
          a # b # rest \<Rightarrow>
            (case (hex_val a, hex_val b) of
               (Some x, Some y) \<Rightarrow> (8 \<le> x \<or> [a, b] = ''25'') \<and> host_decodes rest
             | _ \<Rightarrow> False)
        | _ \<Rightarrow> False)
      else host_byte c \<and> host_decodes s)"

definition host_ok :: "(string \<Rightarrow> bool) \<Rightarrow> string \<Rightarrow> bool" where
  [go_lib]: "host_ok ip_literal host \<longleftrightarrow>
     (if has_prefix host ''['' then ip_literal host
      else (CHR '':'' \<in> set host \<longrightarrow> list_all is_digit (last (split_on (CHR '':'') host))) \<and> host_decodes host)"

definition userinfo_ok :: "string \<Rightarrow> bool" where
  [go_lib]: "userinfo_ok s \<longleftrightarrow>
     list_all (\<lambda>c. alphanumeric c \<or> c \<in> set (''-._:~!$&()*+,;=%@'' @ [CHR 0x27])) s \<and> percent_decode s \<noteq> None"

definition authority_ok :: "(string \<Rightarrow> bool) \<Rightarrow> string \<Rightarrow> bool" where
  [go_lib]: "authority_ok ip_literal s \<longleftrightarrow>
     (let parts = split_on (CHR ''@'') s in
      host_ok ip_literal (last parts) \<and> (length parts > 1 \<longrightarrow> userinfo_ok (join ''@'' (butlast parts))))"

definition url_parse_file :: "(string \<Rightarrow> bool) \<Rightarrow> string \<Rightarrow> goerror + parsed_url" where
  "url_parse_file ip_literal s =
     (let (u, frag) = cut (CHR ''#'') s in
      if \<exists>c \<in> set u. is_ctl c then Inl (ErrText ''net/url: invalid control character in URL'')
      else if percent_decode frag = None then Inl (ErrText ''invalid URL escape'')
      else
       (let rest = fst (cut (CHR ''?'') (drop 5 u)) in
        if \<not> has_prefix rest ''/'' then Inr \<lparr>u_Path = [], u_Opaque = rest\<rparr>
        else
         (let (authority, path) =
            (if has_prefix rest ''//''
             then (takeWhile (\<lambda>x. x \<noteq> CHR ''/'') (drop 2 rest), dropWhile (\<lambda>x. x \<noteq> CHR ''/'') (drop 2 rest))
             else ([], rest)) in
          if \<not> authority_ok ip_literal authority then Inl (ErrText ''invalid authority'')
          else (case percent_decode path of
              None \<Rightarrow> Inl (ErrText ''invalid URL escape'')
            | Some p \<Rightarrow> Inr \<lparr>u_Path = p, u_Opaque = []\<rparr>))))"

text \<open>\<^verbatim>\<open>filepath.Clean\<close>, element by element: the second argument is the output so far, last element first.\<close>

fun clean_elems :: "bool \<Rightarrow> string list \<Rightarrow> string list \<Rightarrow> string list" where
  "clean_elems rooted out [] = rev out"
| "clean_elems rooted out (e # es) =
     (if e = [] \<or> e = ''.'' then clean_elems rooted out es
      else if e = ''..''
        then (case out of
            o1 # os \<Rightarrow> if o1 = ''..'' then clean_elems rooted (e # out) es else clean_elems rooted os es
          | [] \<Rightarrow> if rooted then clean_elems rooted out es else clean_elems rooted [e] es)
      else clean_elems rooted (e # out) es)"

definition filepath_Clean :: "string \<Rightarrow> string" where
  [go_lib]: "filepath_Clean path =
     (let rooted = has_prefix path ''/'';
          out = join ''/'' (clean_elems rooted [] (split_on (CHR ''/'') path))
      in if rooted then CHR ''/'' # out else if out = [] then ''.'' else out)"

section \<open>support.go\<close>

definition isFileURL :: "string \<Rightarrow> bool" where
  "isFileURL urlStr \<longleftrightarrow> has_prefix urlStr ''file:''"

definition fileURLToPath :: "(string \<Rightarrow> bool) \<Rightarrow> string \<Rightarrow> goerror + string" where
  "fileURLToPath ip_literal fileURL =
     (case url_parse_file ip_literal fileURL of
        Inl e \<Rightarrow> Inl (ErrWrap ''failed to parse file URL'' e)
      | Inr parsed \<Rightarrow>
          (let path = (if u_Path parsed = [] \<and> u_Opaque parsed \<noteq> [] then u_Opaque parsed
                       else u_Path parsed) in
           if contains path ''..'' then Inl (ErrText ''path traversal not allowed'')
           else Inr (filepath_Clean path)))"

text \<open>\<^verbatim>\<open>readFileURL\<close>; \<open>ReadFile\<close> is the file system.\<close>

definition readFileURL :: "(string \<Rightarrow> bool) \<Rightarrow> (string \<Rightarrow> goerror + string) \<Rightarrow> string \<Rightarrow> goerror + string" where
  "readFileURL ip_literal ReadFile fileURL =
     (case fileURLToPath ip_literal fileURL of
        Inl e \<Rightarrow> Inl (ErrWrap ''invalid file URL'' e)
      | Inr path \<Rightarrow>
          (case ReadFile path of
             Inl e \<Rightarrow> Inl (ErrWrap ''failed to read file from URL'' e)
           | Inr data \<Rightarrow> Inr data))"

definition sourceType :: "string \<Rightarrow> string" where
  "sourceType urlStr = (if isFileURL urlStr then ''file'' else ''http'')"

section \<open>Lemmas\<close>

lemma clean_elems_no_dotdot:
  "''..'' \<notin> set es \<Longrightarrow> clean_elems rooted out es = rev out @ filter (\<lambda>e. e \<noteq> [] \<and> e \<noteq> ''.'') es"
  by (induction rooted out es rule: clean_elems.induct) auto

lemma split_on_infix: "e \<in> set (split_on c s) \<Longrightarrow> \<exists>a b. s = a @ e @ b"
proof (induction s arbitrary: e)
  case (Cons x s)
  obtain p ps where ps: "split_on c s = p # ps" by (meson neq_Nil_conv split_on_not_Nil)
  show ?case
  proof (cases "x = c")
    case True
    with Cons.prems have "e = [] \<or> e \<in> set (split_on c s)" by auto
    then show ?thesis
    proof
      assume "e = []"
      then show ?thesis by (intro exI [of _ "[]"] exI [of _ "x # s"]) simp
    next
      assume "e \<in> set (split_on c s)"
      with Cons.IH obtain a b where "s = a @ e @ b" by blast
      then have "x # s = (x # a) @ e @ b" by simp
      then show ?thesis by blast
    qed
  next
    case False
    have tl: "\<exists>b. s = p @ b"
      using ps join_split_on [of c s] by (cases ps) (auto simp: join_Cons_if)
    from Cons.prems False ps have "e = x # p \<or> e \<in> set ps" by auto
    then show ?thesis
    proof
      assume "e = x # p"
      with tl show ?thesis by (metis append_Cons append_Nil)
    next
      assume "e \<in> set ps"
      then obtain a b where "s = a @ e @ b" using Cons.IH ps by fastforce
      then have "x # s = (x # a) @ e @ b" by simp
      then show ?thesis by blast
    qed
  qed
qed simp

lemma filepath_Clean_elems:
  assumes "\<not> contains path ''..''"
  shows "filepath_Clean path =
    (let es = filter (\<lambda>e. e \<noteq> [] \<and> e \<noteq> ''.'') (split_on (CHR ''/'') path) in
     if has_prefix path ''/'' then CHR ''/'' # join ''/'' es
     else if join ''/'' es = [] then ''.'' else join ''/'' es)"
proof -
  have "''..'' \<notin> set (split_on (CHR ''/'') path)"
    using assms split_on_infix by (fastforce simp: contains_iff)
  then show ?thesis by (simp add: filepath_Clean_def clean_elems_no_dotdot Let_def)
qed

lemma split_clean:
  assumes "\<not> contains path ''..''" and "e \<in> set (split_on (CHR ''/'') (filepath_Clean path))"
  shows "e \<noteq> ''..''"
proof -
  let ?es = "filter (\<lambda>e. e \<noteq> [] \<and> e \<noteq> ''.'') (split_on (CHR ''/'') path)"
  have sub: "e \<in> set (split_on (CHR ''/'') (join ''/'' ?es)) \<Longrightarrow> e = [] \<or> e \<in> set ?es"
  proof (cases "?es = []")
    case False
    have "\<forall>x \<in> set ?es. CHR ''/'' \<notin> set x" using split_on_no_sep by fastforce
    with False show "e \<in> set (split_on (CHR ''/'') (join ''/'' ?es)) \<Longrightarrow> e = [] \<or> e \<in> set ?es"
      by (simp only: split_on_join [OF False]) simp
  qed simp
  have "''..'' \<notin> set (split_on (CHR ''/'') path)"
    using assms(1) split_on_infix by (fastforce simp: contains_iff)
  with sub assms show ?thesis
    by (auto simp: filepath_Clean_elems [OF assms(1)] Let_def split: if_splits)
qed

section \<open>Properties\<close>

text \<open>
  C37. No path traversal. The file that \<^verbatim>\<open>readFileURL\<close> reads has a path without any parent-directory
  element, percent-encoded ones included, for every file URL.
\<close>

theorem file_url_no_traversal:
  assumes "readFileURL ip_literal ReadFile fileURL = Inr content"
  shows "\<exists>path. fileURLToPath ip_literal fileURL = Inr path \<and> ReadFile path = Inr content \<and>
    ''..'' \<notin> set (split_on (CHR ''/'') path)"
proof -
  obtain path where p: "fileURLToPath ip_literal fileURL = Inr path" "ReadFile path = Inr content"
    using assms by (auto simp: readFileURL_def split: sum.splits)
  then obtain q where "\<not> contains q ''..''" "path = filepath_Clean q"
    by (auto simp: fileURLToPath_def Let_def split: sum.splits if_splits)
  with p split_clean show ?thesis by blast
qed

theorem file_url_no_traversal_witness:
  "\<exists>path. fileURLToPath (\<lambda>_. True) ''file:///etc/%6Bwks.json'' = Inr path \<and> ''..'' \<notin> set (split_on (CHR ''/'') path)"
proof -
  have "readFileURL (\<lambda>_. True) Inr ''file:///etc/%6Bwks.json'' = Inr ''/etc/kwks.json''" by code_simp
  from file_url_no_traversal [OF this] show ?thesis by blast
qed

end
