(* ===== verification/Reverse_Proxy.thy ===== *)
theory Reverse_Proxy
  imports Exchange File_Url
begin

text \<open>
  What the program uses of \<^verbatim>\<open>net/http/httputil.ReverseProxy\<close> with a director made by
  \<^verbatim>\<open>NewSingleHostReverseProxy\<close>, as the package documents it: the director runs first, then the
  headers named in \<^verbatim>\<open>Connection\<close> and the fixed hop-by-hop headers are removed, then the forwarding
  headers are added; the transport refuses invalid header names and values. The backend itself is a
  parameter.
\<close>

section \<open>Requests to the backend\<close>

definition hopHeaders :: "string list" where
  "hopHeaders = [''Connection'', ''Proxy-Connection'', ''Keep-Alive'', ''Proxy-Authenticate'',
     ''Proxy-Authorization'', ''Te'', ''Trailer'', ''Transfer-Encoding'', ''Upgrade'']"

text \<open>\<^verbatim>\<open>textproto.TrimString\<close>.\<close>

definition trim_ascii :: "string \<Rightarrow> string" where
  [go_lib]: "trim_ascii s =
     (let sp = (\<lambda>c. c \<in> {CHR '' '', CHR 0x09, CHR 0x0A, CHR 0x0D})
      in rev (dropWhile sp (rev (dropWhile sp s))))"

definition connection_fields :: "header \<Rightarrow> string list" where
  "connection_fields h =
     filter (\<lambda>f. f \<noteq> []) (map trim_ascii (concat (map (split_on (CHR '','')) (header_values h ''Connection''))))"

definition removeHopByHopHeaders :: "header \<Rightarrow> header" where
  "removeHopByHopHeaders h =
     fold (\<lambda>f h. header_del h f) hopHeaders (fold (\<lambda>f h. header_del h f) (connection_fields h) h)"

definition contains_token :: "string list \<Rightarrow> string \<Rightarrow> bool" where
  "contains_token values token \<longleftrightarrow>
     (\<exists>v \<in> set values. \<exists>t \<in> set (split_on (CHR '','') v). map lower_byte (trim_ascii t) = map lower_byte token)"

definition upgradeType :: "header \<Rightarrow> string" where
  "upgradeType h =
     (if contains_token (header_values h ''Connection'') ''Upgrade'' then header_get h ''Upgrade'' else [])"

definition is_print :: "string \<Rightarrow> bool" where
  "is_print s \<longleftrightarrow> list_all (\<lambda>c. 0x20 \<le> (of_char c :: nat) \<and> (of_char c :: nat) \<le> 0x7E) s"

definition outgoing_header :: "request \<Rightarrow> header" where
  "outgoing_header r =
     (let h0 = r_Header r;
          h1 = removeHopByHopHeaders h0;
          h2 = (if contains_token (header_values h0 ''Te'') ''trailers'' then header_set h1 ''Te'' ''trailers'' else h1);
          h3 = (if upgradeType h0 \<noteq> []
                then header_set (header_set h2 ''Connection'' ''Upgrade'') ''Upgrade'' (upgradeType h0) else h2);
          h4 = (case r_RemoteIP r of
              None \<Rightarrow> h3
            | Some ip \<Rightarrow> header_set h3 ''X-Forwarded-For''
                (case header_values h3 ''X-Forwarded-For'' of
                   [] \<Rightarrow> ip | prior \<Rightarrow> join '', '' prior @ '', '' @ ip))
      in if map_of h4 ''User-Agent'' = None then header_set h4 ''User-Agent'' [] else h4)"

text \<open>The request that leaves; the backend URL has no path of its own.\<close>

definition outgoing :: "request \<Rightarrow> request" where
  "outgoing r = r\<lparr>r_Header := outgoing_header r,
     r_Path := (if has_prefix (r_Path r) ''/'' then r_Path r else ''/'' @ r_Path r)\<rparr>"

definition valid_header_value :: "string \<Rightarrow> bool" where
  "valid_header_value v \<longleftrightarrow> list_all (\<lambda>c. \<not> is_ctl c \<or> c = CHR 0x09) v"

definition transport_accepts :: "header \<Rightarrow> bool" where
  "transport_accepts h \<longleftrightarrow>
     (\<forall>(k, vs) \<in> set h. k \<noteq> [] \<and> list_all valid_header_byte k \<and> list_all valid_header_value vs)"

section \<open>Responses of the backend\<close>

text \<open>
  What the transport gives: an error, a reply with its informational statuses before it, or a reply whose
  body breaks off before its end.
\<close>

datatype backend_reply =
    BackendError goerror
  | BackendReply "int list" int header string
  | BackendCut "int list" int header string

declare backend_reply.splits [go_split]

fun header_add_all :: "string \<Rightarrow> string list \<Rightarrow> header \<Rightarrow> header" where
  "header_add_all k [] h = h"
| "header_add_all k (v # vs) h =
     header_add_all k vs (map_put (canonical_key k) (header_values h k @ [v]) h)"

definition copyHeader :: "header \<Rightarrow> header \<Rightarrow> header" where
  "copyHeader dst src = fold (\<lambda>(k, vs) h. header_add_all k vs h) src dst"

fun write_informational :: "writer \<Rightarrow> int list \<Rightarrow> writer outcome" where
  "write_informational w [] = Done w"
| "write_informational w (code # codes) =
     bind_outcome (WriteHeader w code) (\<lambda>w'. write_informational w' codes)"

definition write_reply :: "writer \<Rightarrow> int \<Rightarrow> header \<Rightarrow> string \<Rightarrow> writer outcome" where
  "write_reply w status h body =
     bind_outcome (WriteHeader (map_header (\<lambda>dst. copyHeader dst (removeHopByHopHeaders h)) w) status)
       (\<lambda>w'. Done (if body = [] then w' else fst (Write w' body)))"

text \<open>
  \<^verbatim>\<open>ReverseProxy.ServeHTTP\<close>: \<open>onerror\<close> is the error handler. A protocol switch needs a writer that can
  be hijacked, which a response tracker is not, so a 101 reply ends in the error handler. When copying the
  body fails the handler panics with \<^verbatim>\<open>ErrAbortHandler\<close>, after what came of the body was passed on.
\<close>

definition pass_reply :: "('p, 'v) handler \<Rightarrow> int list \<Rightarrow> int \<Rightarrow> header \<Rightarrow> string \<Rightarrow> bool \<Rightarrow> ('p, 'v) handler" where
  "pass_reply onerror infos status h body complete x1 =
     (case write_informational (wr x1) infos of
        Panic m \<Rightarrow> Panicked m x1
      | Done w1 \<Rightarrow>
          (if status = 101 then onerror (x1\<lparr>wr := w1\<rparr>)
           else (case write_reply w1 status h body of
               Panic m \<Rightarrow> Panicked m (x1\<lparr>wr := w1\<rparr>)
             | Done w2 \<Rightarrow>
                 if complete then Served (x1\<lparr>wr := w2\<rparr>)
                 else Panicked ''net/http: abort Handler'' (x1\<lparr>wr := w2\<rparr>))))"

definition reverse_proxy :: "(request \<Rightarrow> backend_reply) \<Rightarrow> ('p, 'v) handler \<Rightarrow> ('p, 'v) handler" where
  "reverse_proxy backend onerror x =
     (if \<not> is_print (upgradeType (r_Header (req x))) then onerror x
      else
       (let out = outgoing (req x) in
        if \<not> transport_accepts (r_Header out) then onerror x
        else
         (let x1 = x\<lparr>forwarded := forwarded x @ [out]\<rparr> in
          case backend out of
            BackendError e \<Rightarrow> onerror x1
          | BackendReply infos status h body \<Rightarrow> pass_reply onerror infos status h body True x1
          | BackendCut infos status h body \<Rightarrow> pass_reply onerror infos status h body False x1)))"

section \<open>Lemmas\<close>

lemma map_of_fold_header_del:
  "map_of (fold (\<lambda>f h. header_del h f) fs h) k =
    (if k \<in> canonical_key ` set fs then None else map_of h k)"
  by (induction fs arbitrary: h) (auto simp: header_del_def)

lemma map_of_removeHopByHopHeaders:
  "map_of (removeHopByHopHeaders h) k =
    (if k \<in> canonical_key ` (set hopHeaders \<union> set (connection_fields h)) then None else map_of h k)"
  by (auto simp: removeHopByHopHeaders_def map_of_fold_header_del)

text \<open>The keys that the proxy sets itself.\<close>

definition proxy_keys :: "string list" where
  "proxy_keys = [''Te'', ''Connection'', ''Upgrade'', ''X-Forwarded-For'', ''User-Agent'']"

lemma map_of_outgoing_header:
  assumes "k \<notin> canonical_key ` set proxy_keys"
  shows "map_of (outgoing_header r) k = map_of (removeHopByHopHeaders (r_Header r)) k"
  using assms
  by (simp add: outgoing_header_def Let_def header_set_def proxy_keys_def split: option.split)

lemma fold_header_wf: "header_wf h \<Longrightarrow> header_wf (fold (\<lambda>f h. header_del h f) fs h)"
  by (induction fs arbitrary: h) auto

lemma outgoing_header_wf: "header_wf (r_Header r) \<Longrightarrow> header_wf (outgoing_header r)"
  by (simp add: outgoing_header_def removeHopByHopHeaders_def Let_def fold_header_wf split: option.split)

end
