(* ===== verification/Router.thy ===== *)
theory Router
  imports Metrics Config Auth_Provider Validator Reverse_Proxy
begin

text \<open>
  \<^verbatim>\<open>internal/router\<close>: the middleware chain of the proxy. A handler takes the exchange and gives the
  exchange at its end; a middleware takes the next handler. \<open>serve\<close> is the chain in the order in which
  \<^verbatim>\<open>router.New\<close> installs it. The section on gates states what a middleware may do with a request:
  hand it on once, or answer it.
\<close>

section \<open>Data\<close>

definition headerPrefix :: string where "headerPrefix = ''X-Restrego-''"

text \<open>
  \<^verbatim>\<open>Proxy\<close>: the interface values are their methods, \<open>challenger\<close> being the challenge of a provider that
  implements \<^verbatim>\<open>AuthChallenger\<close>; the configuration pointer may be nil. The chi mux is not part of the
  sources: \<open>mux\<close> is what it does with a request after the middlewares, \<open>None\<close> when the route \<^verbatim>\<open>/*\<close> takes it
  and otherwise the headers, status and body of its own answer.
\<close>

record http_transport =
  tr_MaxIdleConns :: int
  tr_MaxIdleConnsPerHost :: int
  tr_MaxConnsPerHost :: int
  tr_DialTimeout :: int
  tr_KeepAlive :: int
  tr_TLSHandshakeTimeout :: int
  tr_ResponseHeaderTimeout :: int
  tr_ExpectContinueTimeout :: int
  tr_IdleConnTimeout :: int
  tr_DisableKeepAlives :: bool
  tr_DisableCompression :: bool

record ('p, 'v) Proxy =
  listenAddr :: string
  requestName :: string
  mux :: "request \<Rightarrow> (header \<times> int \<times> string) option"
  auth :: "'p authenticator"
  challenger :: "string option"
  validator :: "'v validate_fn"
  backendURL :: string
  backend :: "request \<Rightarrow> backend_reply"
  transport :: http_transport
  authKey :: string
  config :: "Fields option"

section \<open>cleanup.go\<close>

definition exposes :: "('p, 'v) Proxy \<Rightarrow> bool" where
  "exposes proxy = (case config proxy of None \<Rightarrow> False | Some cfg \<Rightarrow> ExposeBlockedHeaders cfg)"

definition toClean :: "header \<Rightarrow> string list" where
  "toClean h = filter (\<lambda>key. has_prefix key ''X-Restrego-'') (map fst h)"

text \<open>The capturing loop: the map of blocked headers and the metrics log.\<close>

fun capture :: "header \<Rightarrow> string list \<Rightarrow> (string, goval) gomap \<times> metric_op list
    \<Rightarrow> (string, goval) gomap \<times> metric_op list" where
  "capture h [] (blocked, log) = (blocked, log)"
| "capture h (key # keys) (blocked, log) =
     (let values = header_values h key;
          blocked' = (if length values = 1 then map_put key (VString (hd values)) blocked
                      else if length values > 1 then map_put key (VStrs values) blocked
                      else blocked)
      in capture h keys (blocked', IncrementBlockedHeadersCaptured 1 log))"

fun remove_headers :: "string list \<Rightarrow> header \<Rightarrow> header" where
  "remove_headers [] h = h"
| "remove_headers (key # keys) h = remove_headers keys (header_del h key)"

text \<open>The exchange after the cleanup.\<close>

definition cleaned :: "('p, 'v) Proxy \<Rightarrow> ('p, 'v) exchange \<Rightarrow> ('p, 'v) exchange" where
  "cleaned proxy x =
     (let h = r_Header (req x);
          keys = toClean h;
          x1 = (if exposes proxy \<and> length keys > 0
                then (let (blocked, log) = capture h keys ([], metric_log x) in
                      x\<lparr>req := (req x)\<lparr>r_ctxBlocked := Some blocked\<rparr>,
                        metric_log := IncrementRequestsWithBlockedHeaders log\<rparr>)
                else x)
      in x1\<lparr>req := (req x1)\<lparr>r_Header := remove_headers keys h\<rparr>\<rparr>)"

definition CleanupHandler :: "('p, 'v) Proxy \<Rightarrow> ('p, 'v) handler \<Rightarrow> ('p, 'v) handler" where
  "CleanupHandler proxy next x = next (cleaned proxy x)"

section \<open>wrap.go\<close>

definition WrapHandler :: "('p, 'v) Proxy \<Rightarrow> ('p, 'v) handler \<Rightarrow> ('p, 'v) handler" where
  "WrapHandler proxy next x =
     (case config proxy of
        None \<Rightarrow> Panicked ''nil pointer dereference'' x
      | Some cfg \<Rightarrow>
          (case NewInfo (req x) (authKey proxy) (URLMetricsLevel cfg) of
             Panic m \<Rightarrow> Panicked m x
           | Done info \<Rightarrow>
               next (x\<lparr>wr := newResponseTracker (wr x), req := RequestWithInfo info (req x)\<rparr>)))"

section \<open>auth.go\<close>

definition put_info :: "Info \<Rightarrow> ('p, 'v) exchange \<Rightarrow> ('p, 'v) exchange" where
  "put_info info x = x\<lparr>req := (req x)\<lparr>r_ctxInfo := Some info\<rparr>\<rparr>"

definition authHandler :: "('p, 'v) Proxy \<Rightarrow> ('p, 'v) handler \<Rightarrow> ('p, 'v) handler" where
  "authHandler proxy next x =
     (case GetInfo (req x) of
        None \<Rightarrow> answer_error ''internal error'' 500 x
      | Some info \<Rightarrow>
          (case auth proxy (auth_st x) info (req x) of
             Panic m \<Rightarrow> Panicked m x
           | Done (p, info', err) \<Rightarrow>
               (let x1 = put_info info' (x\<lparr>auth_st := p\<rparr>) in
                case err of
                  None \<Rightarrow> next x1
                | Some e \<Rightarrow>
                    if errors_is e ErrAuthenticationFailed
                    then (let challenge = (case challenger proxy of Some c \<Rightarrow> c | None \<Rightarrow> ''Bearer'') in
                          answer_error ''invalid credentials'' 401
                            (x1\<lparr>wr := map_header (\<lambda>h. header_set h ''WWW-Authenticate'' challenge) (wr x1)\<rparr>))
                    else if errors_is e ErrAuthenticationUnavailable
                    then answer_error ''authentication service unavailable'' 503 x1
                    else answer_error ''internal error'' 500 x1)))"

section \<open>policy.go\<close>

definition policyHandler :: "('p, 'v) Proxy \<Rightarrow> ('p, 'v) handler \<Rightarrow> ('p, 'v) handler" where
  "policyHandler proxy next x =
     (case GetInfo (req x) of
        None \<Rightarrow> answer_error ''internal error'' 500 x
      | Some info \<Rightarrow>
          (case validator proxy (val_st x) (requestName proxy) info of
             Panic m \<Rightarrow> Panicked m x
           | Done (v, Inl err) \<Rightarrow> answer_error ''policy evaluation error'' 500 (x\<lparr>val_st := v\<rparr>)
           | Done (v, Inr (VMap resultMap)) \<Rightarrow>
               (let x1 = x\<lparr>val_st := v\<rparr> in
                case map_of resultMap ''allow'' of
                  Some (VBool allowBool) \<Rightarrow>
                    (let info1 = info\<lparr>Result := VMap resultMap\<rparr> in
                     if \<not> allowBool then answer_error ''access denied'' 403 (put_info info1 x1)
                     else (case map_of resultMap ''url'' of
                         Some (VString url) \<Rightarrow>
                           next (put_info (if url \<noteq> [] then info1\<lparr>URL := url\<rparr> else info1) x1)
                       | _ \<Rightarrow> next (put_info info1 x1)))
                | _ \<Rightarrow> answer_error ''invalid policy result'' 500 x1)
           | Done (v, Inr _) \<Rightarrow> answer_error ''invalid policy result'' 500 (x\<lparr>val_st := v\<rparr>)))"

section \<open>router.go\<close>

text \<open>The text of a value of the policy result, for a header.\<close>

definition header_text :: "goval \<Rightarrow> string" where
  "header_text o1 =
     (case o1 of
        VString v \<Rightarrow> v
      | VStrs v \<Rightarrow> join '','' v
      | VList v \<Rightarrow> join '','' (map sprint v)
      | v \<Rightarrow> sprint v)"

definition result_key :: "string \<Rightarrow> string" where
  "result_key k = headerPrefix @ replace_all k (CHR ''_'') (CHR ''-'')"

text \<open>The loop over the policy result, in the order in which the map is met.\<close>

fun inject_headers :: "(string, goval) gomap \<Rightarrow> header \<Rightarrow> header" where
  "inject_headers [] h = h"
| "inject_headers ((k, o1) # rest) h =
     (let txt = header_text o1 in
      inject_headers rest (if length txt > 0 then header_set h (result_key k) txt else h))"

definition bad_gateway :: "('p, 'v) handler" where
  "bad_gateway x = answer_error ''bad gateway'' 502 x"

definition ServeHTTP :: "('p, 'v) Proxy \<Rightarrow> ('p, 'v) handler" where
  "ServeHTTP proxy x =
     (let x1 = (case GetInfo (req x) of
            Some info \<Rightarrow>
              (case Result info of
                 VMap resultMap \<Rightarrow>
                   x\<lparr>req := (req x)\<lparr>r_Header := inject_headers resultMap (r_Header (req x))\<rparr>\<rparr>
               | _ \<Rightarrow> x)
          | None \<Rightarrow> x)
      in reverse_proxy (backend proxy) bad_gateway x1)"

text \<open>The transport to the backend, with the timeouts of the configuration.\<close>

definition backend_transport :: "Fields \<Rightarrow> http_transport" where
  "backend_transport cfg =
     \<lparr>tr_MaxIdleConns = 100, tr_MaxIdleConnsPerHost = 100, tr_MaxConnsPerHost = 0,
      tr_DialTimeout = BackendDialTimeout cfg, tr_KeepAlive = 30 * second,
      tr_TLSHandshakeTimeout = BackendDialTimeout cfg,
      tr_ResponseHeaderTimeout = BackendResponseTimeout cfg, tr_ExpectContinueTimeout = 1 * second,
      tr_IdleConnTimeout = BackendIdleConnTimeout cfg, tr_DisableKeepAlives = False,
      tr_DisableCompression = False\<rparr>"

text \<open>
  \<^verbatim>\<open>router.New\<close>: the proxy record, or nil when the backend URL does not parse, and its handler chain.
  \<open>chi\<close> is the mux with the one route \<^verbatim>\<open>/*\<close>.
\<close>

definition router_New ::
  "(string \<Rightarrow> (request \<Rightarrow> backend_reply) option) \<Rightarrow> (request \<Rightarrow> (header \<times> int \<times> string) option)
    \<Rightarrow> 'p authenticator \<Rightarrow> string option \<Rightarrow> 'v validate_fn \<Rightarrow> Fields \<Rightarrow> ('p, 'v) Proxy option" where
  "router_New url_backend chi auth0 chal validator0 cfg =
     (let url = BackendScheme cfg @ ''://'' @ BackendHost cfg @ '':'' @ itoa (BackendPort cfg) in
      case url_backend url of
        None \<Rightarrow> None
      | Some remote \<Rightarrow>
          Some \<lparr>listenAddr = ListenAddr cfg, requestName = RequestRego cfg, mux = chi, auth = auth0,
                challenger = chal, validator = validator0, backendURL = url, backend = remote,
                transport = backend_transport cfg, authKey = AuthHeader cfg, config = Some cfg\<rparr>)"

text \<open>The routing after the middlewares: the endpoint of the route, or the mux's own answer.\<close>

definition muxHandler :: "('p, 'v) Proxy \<Rightarrow> ('p, 'v) handler \<Rightarrow> ('p, 'v) handler" where
  "muxHandler proxy endpoint x =
     (case mux proxy (req x) of
        None \<Rightarrow> endpoint x
      | Some (h, code, body) \<Rightarrow>
          (case WriteHeader (map_header (\<lambda>dst. copyHeader dst h) (wr x)) code of
             Panic m \<Rightarrow> Panicked m x
           | Done w \<Rightarrow> Served (x\<lparr>wr := fst (Write w body)\<rparr>)))"

definition serve :: "('p, 'v) Proxy \<Rightarrow> ('p, 'v) handler" where
  "serve proxy =
     CleanupHandler proxy (WrapHandler proxy (metrics_Wrap
       (authHandler proxy (policyHandler proxy (muxHandler proxy (ServeHTTP proxy))))))"

section \<open>Gates\<close>

text \<open>
  The exchange that a middleware hands to the next handler, \<open>None\<close> when it does not.
\<close>

definition cleanup_pass :: "('p, 'v) Proxy \<Rightarrow> ('p, 'v) exchange \<Rightarrow> ('p, 'v) exchange option" where
  "cleanup_pass proxy x = Some (cleaned proxy x)"

definition wrap_pass :: "('p, 'v) Proxy \<Rightarrow> ('p, 'v) exchange \<Rightarrow> ('p, 'v) exchange option" where
  "wrap_pass proxy x =
     (case config proxy of
        None \<Rightarrow> None
      | Some cfg \<Rightarrow>
          (case NewInfo (req x) (authKey proxy) (URLMetricsLevel cfg) of
             Panic _ \<Rightarrow> None
           | Done info \<Rightarrow>
               Some (x\<lparr>wr := newResponseTracker (wr x), req := RequestWithInfo info (req x)\<rparr>)))"

definition metrics_pass :: "('p, 'v) exchange \<Rightarrow> ('p, 'v) exchange option" where
  "metrics_pass x = (if is_Raw (wr x) then None else Some x)"

definition auth_pass :: "('p, 'v) Proxy \<Rightarrow> ('p, 'v) exchange \<Rightarrow> ('p, 'v) exchange option" where
  "auth_pass proxy x =
     (case GetInfo (req x) of
        None \<Rightarrow> None
      | Some info \<Rightarrow>
          (case auth proxy (auth_st x) info (req x) of
             Done (p, info', None) \<Rightarrow> Some (put_info info' (x\<lparr>auth_st := p\<rparr>))
           | _ \<Rightarrow> None))"

text \<open>The verdict on a policy result: only a map whose \<^verbatim>\<open>allow\<close> is the boolean true lets a request through.\<close>

definition allows :: "goval \<Rightarrow> bool" where
  "allows result = (case result of VMap m \<Rightarrow> map_of m ''allow'' = Some (VBool True) | _ \<Rightarrow> False)"

definition rewritten :: "goval \<Rightarrow> Info \<Rightarrow> Info" where
  "rewritten result info =
     (let info1 = info\<lparr>Result := result\<rparr> in
      case result of
        VMap m \<Rightarrow> (case map_of m ''url'' of
            Some (VString url) \<Rightarrow> if url \<noteq> [] then info1\<lparr>URL := url\<rparr> else info1
          | _ \<Rightarrow> info1)
      | _ \<Rightarrow> info1)"

definition policy_pass :: "('p, 'v) Proxy \<Rightarrow> ('p, 'v) exchange \<Rightarrow> ('p, 'v) exchange option" where
  "policy_pass proxy x =
     (case GetInfo (req x) of
        None \<Rightarrow> None
      | Some info \<Rightarrow>
          (case validator proxy (val_st x) (requestName proxy) info of
             Done (v, Inr result) \<Rightarrow>
               (if allows result then Some (put_info (rewritten result info) (x\<lparr>val_st := v\<rparr>)) else None)
           | _ \<Rightarrow> None))"

text \<open>
  The gates one after the other: what a request must pass to be authorized, and to be proxied.
\<close>

definition authorize :: "('p, 'v) Proxy \<Rightarrow> ('p, 'v) exchange \<Rightarrow> ('p, 'v) exchange option" where
  "authorize proxy x =
     Option.bind (cleanup_pass proxy x) (\<lambda>x1. Option.bind (wrap_pass proxy x1) (\<lambda>x2.
       Option.bind (metrics_pass x2) (\<lambda>x3. Option.bind (auth_pass proxy x3) (policy_pass proxy))))"

definition mux_pass :: "('p, 'v) Proxy \<Rightarrow> ('p, 'v) exchange \<Rightarrow> ('p, 'v) exchange option" where
  "mux_pass proxy x = (case mux proxy (req x) of None \<Rightarrow> Some x | Some _ \<Rightarrow> None)"

definition admit :: "('p, 'v) Proxy \<Rightarrow> ('p, 'v) exchange \<Rightarrow> ('p, 'v) exchange option" where
  "admit proxy x = Option.bind (authorize proxy x) (mux_pass proxy)"

locale gate =
  fixes mw :: "('p, 'v) handler \<Rightarrow> ('p, 'v) handler"
    and pass :: "('p, 'v) exchange \<Rightarrow> ('p, 'v) exchange option"
  assumes pass_on: "pass x = Some y \<Longrightarrow> forwarded y = forwarded x \<and>
      forwarded (state_of (mw next x)) = forwarded (state_of (next y)) \<and>
      raw_of (wr (state_of (mw next x))) = raw_of (wr (state_of (next y)))"
    and stop: "pass x = None \<Longrightarrow> forwarded (state_of (mw next x)) = forwarded x"
begin

lemma forwarded_cases:
  "forwarded (state_of (mw next x)) =
    (case pass x of None \<Rightarrow> forwarded x | Some y \<Rightarrow> forwarded (state_of (next y)))"
  using pass_on stop by (auto split: option.splits)

end

text \<open>Two gates in a row are a gate.\<close>

locale gate_pair = g1: gate mw1 pass1 + g2: gate mw2 pass2
  for mw1 :: "('p, 'v) handler \<Rightarrow> ('p, 'v) handler"
    and pass1 :: "('p, 'v) exchange \<Rightarrow> ('p, 'v) exchange option"
    and mw2 :: "('p, 'v) handler \<Rightarrow> ('p, 'v) handler"
    and pass2 :: "('p, 'v) exchange \<Rightarrow> ('p, 'v) exchange option"

sublocale gate_pair \<subseteq> pair: gate "\<lambda>next. mw1 (mw2 next)" "\<lambda>x. Option.bind (pass1 x) pass2"
proof unfold_locales
  fix x y "next"
  assume "Option.bind (pass1 x) pass2 = Some y"
  then obtain x1 where "pass1 x = Some x1" "pass2 x1 = Some y" by (auto simp: bind_eq_Some_conv)
  then show "forwarded y = forwarded x \<and>
      forwarded (state_of (mw1 (mw2 next) x)) = forwarded (state_of (next y)) \<and>
      raw_of (wr (state_of (mw1 (mw2 next) x))) = raw_of (wr (state_of (next y)))"
    using g1.pass_on [of x x1 "mw2 next"] g2.pass_on [of x1 y "next"] by simp
next
  fix x "next"
  assume none: "Option.bind (pass1 x) pass2 = None"
  show "forwarded (state_of (mw1 (mw2 next) x)) = forwarded x"
  proof (cases "pass1 x")
    case None
    then show ?thesis by (rule g1.stop)
  next
    case (Some x1)
    with none have "pass2 x1 = None" by simp
    then show ?thesis using g1.pass_on [OF Some, of "mw2 next"] g2.stop by simp
  qed
qed

section \<open>Lemmas on error answers\<close>

lemma answer_error_keeps [simp]:
  "forwarded (state_of (answer_error msg code x)) = forwarded x"
  "req (state_of (answer_error msg code x)) = req x"
  "auth_st (state_of (answer_error msg code x)) = auth_st x"
  "val_st (state_of (answer_error msg code x)) = val_st x"
  "metric_log (state_of (answer_error msg code x)) = metric_log x"
  by (auto simp: answer_error_def split: outcome.splits)

lemma put_info_simps [simp]:
  "forwarded (put_info i x) = forwarded x" "wr (put_info i x) = wr x"
  "GetInfo (req (put_info i x)) = Some i" "auth_st (put_info i x) = auth_st x"
  "val_st (put_info i x) = val_st x" "metric_log (put_info i x) = metric_log x"
  "r_Header (req (put_info i x)) = r_Header (req x)" "r_Path (req (put_info i x)) = r_Path (req x)"
  "r_Method (req (put_info i x)) = r_Method (req x)"
  "r_RemoteIP (req (put_info i x)) = r_RemoteIP (req x)"
  "r_ContentLength (req (put_info i x)) = r_ContentLength (req x)" "r_RawQuery (req (put_info i x)) = r_RawQuery (req x)"
  by (simp_all add: put_info_def GetInfo_def)

lemma RequestWithInfo_simps [simp]:
  "GetInfo (RequestWithInfo i r) = Some i" "r_Header (RequestWithInfo i r) = r_Header r"
  "r_Path (RequestWithInfo i r) = r_Path r" "r_Method (RequestWithInfo i r) = r_Method r"
  "r_RawQuery (RequestWithInfo i r) = r_RawQuery r"
  by (simp_all add: RequestWithInfo_def GetInfo_def)

text \<open>Nothing has been sent to the client yet.\<close>

definition fresh :: "('p, 'v) exchange \<Rightarrow> bool" where
  "fresh x \<longleftrightarrow> rw_status (raw_of (wr x)) = None \<and> rw_body (raw_of (wr x)) = []"

text \<open>The client has this status and message; the answer to HEAD has no body.\<close>

definition answered :: "int \<Rightarrow> string \<Rightarrow> ('p, 'v) exchange \<Rightarrow> bool" where
  "answered code msg x \<longleftrightarrow>
     rw_status (raw_of (wr x)) = Some code \<and>
     rw_body (raw_of (wr x)) = (if rw_head (raw_of (wr x)) then [] else msg @ [CHR 0x0A])"

lemma answer_error_fresh:
  assumes "fresh x" and "200 \<le> code" and "code \<le> 999" and "body_allowed code"
  shows "\<exists>x'. answer_error msg code x = Served x' \<and> answered code msg x'"
proof -
  obtain w' where "http_error (wr x) msg code = Done w'" "rw_status (raw_of w') = Some code"
    "rw_body (raw_of w') = rw_body (raw_of (wr x)) @ (if rw_head (raw_of (wr x)) then [] else msg @ [CHR 0x0A])"
    "rw_head (raw_of w') = rw_head (raw_of (wr x))"
    using assms http_error_fresh unfolding fresh_def by metis
  with assms(1) show ?thesis by (simp add: answer_error_def answered_def fresh_def)
qed

section \<open>Lemmas on the cleanup\<close>

lemma cleaned_simps [simp]:
  "forwarded (cleaned proxy x) = forwarded x" "wr (cleaned proxy x) = wr x"
  "auth_st (cleaned proxy x) = auth_st x" "val_st (cleaned proxy x) = val_st x"
  "r_Header (req (cleaned proxy x)) = remove_headers (toClean (r_Header (req x))) (r_Header (req x))"
  "r_Method (req (cleaned proxy x)) = r_Method (req x)"
  "r_Path (req (cleaned proxy x)) = r_Path (req x)"
  "r_ContentLength (req (cleaned proxy x)) = r_ContentLength (req x)"
  "r_RawQuery (req (cleaned proxy x)) = r_RawQuery (req x)"
  "r_RemoteIP (req (cleaned proxy x)) = r_RemoteIP (req x)"
  "label_values_ok (cleaned proxy x) = label_values_ok x"
  by (simp_all add: cleaned_def Let_def split: prod.splits)

lemma remove_headers_fold: "remove_headers keys h = fold (\<lambda>k h. header_del h k) keys h"
  by (induction keys arbitrary: h) auto

lemma map_of_remove_headers:
  "map_of (remove_headers keys h) k = (if k \<in> canonical_key ` set keys then None else map_of h k)"
  by (simp add: remove_headers_fold map_of_fold_header_del)

lemma toClean_canonical:
  assumes "header_wf h"
  shows "canonical_key ` set (toClean h) = {k \<in> fst ` set h. has_prefix k headerPrefix}"
proof -
  have "set (toClean h) = {k \<in> fst ` set h. has_prefix k headerPrefix}"
    by (auto simp: toClean_def headerPrefix_def)
  moreover have "canonical_key ` {k \<in> fst ` set h. has_prefix k headerPrefix} =
      {k \<in> fst ` set h. has_prefix k headerPrefix}"
    using assms by (force simp: header_wf_def)
  ultimately show ?thesis by simp
qed

lemma map_of_cleaned:
  assumes "header_wf h"
  shows "map_of (remove_headers (toClean h) h) k =
    (if has_prefix k headerPrefix then None else map_of h k)"
proof (cases "map_of h k")
  case None
  then show ?thesis by (simp add: map_of_remove_headers)
next
  case (Some v)
  then have "k \<in> fst ` set h" by (metis domI dom_map_of_conv_image_fst)
  then show ?thesis by (simp add: map_of_remove_headers toClean_canonical [OF assms])
qed

lemma header_wf_remove: "header_wf h \<Longrightarrow> header_wf (remove_headers keys h)"
  by (simp add: remove_headers_fold fold_header_wf)

section \<open>Lemmas on the gates\<close>

interpretation cleanup: gate "CleanupHandler proxy" "cleanup_pass proxy" for proxy
  by unfold_locales (auto simp: CleanupHandler_def cleanup_pass_def)

interpretation wrap: gate "WrapHandler proxy" "wrap_pass proxy" for proxy
  by unfold_locales
    (auto simp: WrapHandler_def wrap_pass_def split: option.splits outcome.splits)

interpretation metrics: gate metrics_Wrap metrics_pass
  by unfold_locales (auto simp: metrics_pass_def metrics_Wrap_keeps split: if_splits)

interpretation auth: gate "authHandler proxy" "auth_pass proxy" for proxy
  by unfold_locales
    (auto simp: authHandler_def auth_pass_def Let_def split: option.splits outcome.splits if_splits)

lemma policyHandler_result:
  "GetInfo (req x) = Some info \<Longrightarrow>
    validator proxy (val_st x) (requestName proxy) info = Done (v, Inr result) \<Longrightarrow> allows result \<Longrightarrow>
    policyHandler proxy next x = next (put_info (rewritten result info) (x\<lparr>val_st := v\<rparr>))"
  by (cases result)
    (auto simp: policyHandler_def allows_def rewritten_def Let_def split: option.splits goval.splits)

lemma policyHandler_stop:
  "policy_pass proxy x = None \<Longrightarrow> forwarded (state_of (policyHandler proxy next x)) = forwarded x"
  by (auto simp: policyHandler_def policy_pass_def allows_def Let_def
      split: option.splits outcome.splits sum.splits goval.splits if_splits)

interpretation policy: gate "policyHandler proxy" "policy_pass proxy" for proxy
proof unfold_locales
  fix x y :: "('a, 'b) exchange" and "next"
  assume "policy_pass proxy x = Some y"
  then obtain info v result where "GetInfo (req x) = Some info" "allows result"
    "validator proxy (val_st x) (requestName proxy) info = Done (v, Inr result)"
    "y = put_info (rewritten result info) (x\<lparr>val_st := v\<rparr>)"
    by (auto simp: policy_pass_def split: option.splits outcome.splits sum.splits if_splits)
  then show "forwarded y = forwarded x \<and>
      forwarded (state_of (policyHandler proxy next x)) = forwarded (state_of (next y)) \<and>
      raw_of (wr (state_of (policyHandler proxy next x))) = raw_of (wr (state_of (next y)))"
    by (simp add: policyHandler_result)
qed (rule policyHandler_stop)

interpretation auth_policy: gate_pair "authHandler proxy" "auth_pass proxy"
  "policyHandler proxy" "policy_pass proxy" for proxy
  by unfold_locales

interpretation metrics_on: gate_pair metrics_Wrap metrics_pass
  "\<lambda>next. authHandler proxy (policyHandler proxy next)" "\<lambda>x. Option.bind (auth_pass proxy x) (policy_pass proxy)"
  for proxy
  by unfold_locales

interpretation wrap_on: gate_pair "WrapHandler proxy" "wrap_pass proxy"
  "\<lambda>next. metrics_Wrap (authHandler proxy (policyHandler proxy next))"
  "\<lambda>x. Option.bind (metrics_pass x) (\<lambda>x. Option.bind (auth_pass proxy x) (policy_pass proxy))" for proxy
  by unfold_locales

interpretation chain: gate_pair "CleanupHandler proxy" "cleanup_pass proxy"
  "\<lambda>next. WrapHandler proxy (metrics_Wrap (authHandler proxy (policyHandler proxy next)))"
  "\<lambda>x. Option.bind (wrap_pass proxy x)
     (\<lambda>x. Option.bind (metrics_pass x) (\<lambda>x. Option.bind (auth_pass proxy x) (policy_pass proxy)))" for proxy
  by unfold_locales

interpretation mux: gate "muxHandler proxy" "mux_pass proxy" for proxy
  by unfold_locales (auto simp: muxHandler_def mux_pass_def split: option.splits outcome.splits)

lemma authorize_gate:
  "gate (\<lambda>next. CleanupHandler proxy (WrapHandler proxy (metrics_Wrap (authHandler proxy (policyHandler proxy next)))))
     (authorize proxy)"
  using chain.pair.gate_axioms [of proxy] unfolding authorize_def .

interpretation authorized: gate
  "\<lambda>next. CleanupHandler proxy (WrapHandler proxy (metrics_Wrap (authHandler proxy (policyHandler proxy next))))"
  "authorize proxy" for proxy
  by (rule authorize_gate)

interpretation routed: gate_pair
  "\<lambda>next. CleanupHandler proxy (WrapHandler proxy (metrics_Wrap (authHandler proxy (policyHandler proxy next))))"
  "authorize proxy" "muxHandler proxy" "mux_pass proxy" for proxy
  by unfold_locales

lemma serve_forwarded:
  "forwarded (state_of (serve proxy x)) =
    (case admit proxy x of None \<Rightarrow> forwarded x | Some y \<Rightarrow> forwarded (state_of (ServeHTTP proxy y)))"
  unfolding serve_def admit_def by (rule routed.pair.forwarded_cases)

lemma authorize_Some:
  assumes "authorize proxy x = Some y"
  obtains cfg info p info' v result
  where "config proxy = Some cfg"
    and "NewInfo (req (cleaned proxy x)) (authKey proxy) (URLMetricsLevel cfg) = Done info"
    and "auth proxy (auth_st x) info (RequestWithInfo info (req (cleaned proxy x))) = Done (p, info', None)"
    and "validator proxy (val_st x) (requestName proxy) info' = Done (v, Inr result)"
    and "allows result"
    and "GetInfo (req y) = Some (rewritten result info')"
    and "r_Header (req y) = r_Header (req (cleaned proxy x))"
    and "r_Path (req y) = r_Path (req x)" and "r_Method (req y) = r_Method (req x)"
    and "forwarded y = forwarded x"
    and "wr y = newResponseTracker (wr x)"
    and "r_RawQuery (req y) = r_RawQuery (req x)"
  using assms that
  by (auto simp: authorize_def cleanup_pass_def wrap_pass_def metrics_pass_def auth_pass_def
      policy_pass_def bind_eq_Some_conv newResponseTracker_def
      split: option.splits outcome.splits sum.splits if_splits)

lemma admit_authorize: "admit proxy x = Some y \<longleftrightarrow> authorize proxy x = Some y \<and> mux proxy (req y) = None"
  by (cases "authorize proxy x"; cases "mux proxy (req y)") (auto simp: admit_def mux_pass_def split: option.splits)

lemmas admit_Some = authorize_Some [OF conjunct1 [OF iffD1 [OF admit_authorize]]]

section \<open>Lemmas on the forwarded request\<close>

lemma rewritten_Result [simp]: "Result (rewritten result info) = result"
  by (simp add: rewritten_def Let_def split: goval.splits option.splits)

lemma bad_gateway_keeps [simp]: "forwarded (state_of (bad_gateway x)) = forwarded x"
  by (simp add: bad_gateway_def)

definition sendable :: "request \<Rightarrow> bool" where
  "sendable r \<longleftrightarrow> is_print (upgradeType (r_Header r)) \<and> transport_accepts (outgoing_header r)"

lemma reverse_proxy_forwarded:
  "forwarded (state_of (reverse_proxy b bad_gateway x)) =
    forwarded x @ (if sendable (req x) then [outgoing (req x)] else [])"
  by (auto simp: reverse_proxy_def pass_reply_def sendable_def outgoing_def Let_def
      split: backend_reply.splits outcome.splits)

definition injected :: "('p, 'v) exchange \<Rightarrow> request" where
  "injected y = (case GetInfo (req y) of
     Some info \<Rightarrow> (case Result info of
         VMap m \<Rightarrow> (req y)\<lparr>r_Header := inject_headers m (r_Header (req y))\<rparr> | _ \<Rightarrow> req y)
   | None \<Rightarrow> req y)"

lemma ServeHTTP_injected:
  "ServeHTTP proxy y = reverse_proxy (backend proxy) bad_gateway (y\<lparr>req := injected y\<rparr>)"
  by (auto simp: ServeHTTP_def injected_def Let_def split: option.splits goval.splits)

lemma ServeHTTP_forwarded:
  "forwarded (state_of (ServeHTTP proxy y)) =
    forwarded y @ (if sendable (injected y) then [outgoing (injected y)] else [])"
  by (simp add: ServeHTTP_injected reverse_proxy_forwarded)

lemma inject_headers_origin:
  "map_of (inject_headers m h) k = Some vs \<Longrightarrow>
    (\<exists>(key, v) \<in> set m. k = canonical_key (result_key key) \<and> vs = [header_text v] \<and> header_text v \<noteq> [])
    \<or> map_of h k = Some vs"
proof (induction m h rule: inject_headers.induct)
  case (2 key v rest h)
  let ?h = "if length (header_text v) > 0 then header_set h (result_key key) (header_text v) else h"
  have "map_of (inject_headers rest ?h) k = Some vs" using 2(2) by (simp add: Let_def)
  from 2(1) [OF refl this] show ?case
    by (auto simp: header_set_def split: if_splits)
qed simp

lemma inject_headers_wf: "header_wf h \<Longrightarrow> header_wf (inject_headers m h)"
  by (induction m h rule: inject_headers.induct) (auto simp: Let_def)

lemma proxy_keys_not_ours:
  "k \<in> canonical_key ` set proxy_keys \<Longrightarrow> \<not> has_prefix k headerPrefix"
proof -
  have "list_all (\<lambda>k. \<not> has_prefix (canonical_key k) headerPrefix) proxy_keys"
    by code_simp
  then show "k \<in> canonical_key ` set proxy_keys \<Longrightarrow> \<not> has_prefix k headerPrefix"
    by (auto simp: list_all_iff)
qed

text \<open>The proxy headers of an outgoing request: what was there, less what \<^verbatim>\<open>Connection\<close> names.\<close>

lemma outgoing_ours:
  assumes "has_prefix k headerPrefix"
  shows "map_of (r_Header (outgoing r)) k =
    (if k \<in> canonical_key ` set (connection_fields (r_Header r)) then None else map_of (r_Header r) k)"
proof -
  have "k \<notin> canonical_key ` set proxy_keys" using assms proxy_keys_not_ours by blast
  moreover have "k \<notin> canonical_key ` set hopHeaders"
  proof -
    have "list_all (\<lambda>k. \<not> has_prefix (canonical_key k) headerPrefix) hopHeaders" by code_simp
    with assms show ?thesis by (auto simp: list_all_iff)
  qed
  ultimately show ?thesis
    by (auto simp: outgoing_def map_of_outgoing_header map_of_removeHopByHopHeaders)
qed

end
