(* ===== verification/File_Cache.thy ===== *)
theory File_Cache
  imports Go_Prelude
begin

text \<open>
  \<^verbatim>\<open>pkg/filecache\<close>: the cache of file contents, the watcher that marks them dirty, and the queue
  that delays and merges the change notifications. The directory is a function from file names to what
  reading them gives; time is in milliseconds and a timer is its file and its deadline.
\<close>

section \<open>Data\<close>

datatype fs_read = NotExist | ReadError goerror | Content string

record File =
  dirty :: bool
  data :: string

text \<open>
  \<^verbatim>\<open>delayedCallbacks\<close>, with the timers that the runtime holds for it. The map refers to a timer by its
  deadline; a timer can run without being in the map, once another one's function has removed the entry.
\<close>

record delayedCallbacks =
  delay :: nat
  pending :: "(string, nat) gomap"
  timers :: "(string \<times> nat) list"

record Cache =
  fc_folder :: string
  fc_pattern :: string
  fc_files :: "(string, File) gomap"
  fc_queue :: delayedCallbacks

datatype fs_op = OpWrite | OpCreate | OpRemove | OpRename | OpChmod

definition callbackDelay :: nat where "callbackDelay = 500"

section \<open>callbacks.go\<close>

definition newDelayedCallbacks :: "nat \<Rightarrow> delayedCallbacks" where
  "newDelayedCallbacks d = \<lparr>delay = d, pending = [], timers = []\<rparr>"

text \<open>
  \<^verbatim>\<open>add\<close> at time \<open>now\<close>: the timer of the map is stopped, if it has not expired yet, and replaced by a new one.
\<close>

definition queue_add :: "delayedCallbacks \<Rightarrow> nat \<Rightarrow> string \<Rightarrow> delayedCallbacks" where
  "queue_add q now name =
     (let stopped = (case map_of (pending q) name of
            Some t \<Rightarrow> remove1 (name, t) (timers q)
          | None \<Rightarrow> timers q)
      in q\<lparr>pending := map_put name (now + delay q) (pending q), timers := stopped @ [(name, now + delay q)]\<rparr>)"

text \<open>
  A timer expires when its deadline has passed: the runtime starts its function, which waits for the mutex.
  The function removes the entry of its file, whichever timer the entry is for, then the callbacks run.
\<close>

definition due :: "delayedCallbacks \<Rightarrow> nat \<Rightarrow> string \<times> nat \<Rightarrow> bool" where
  "due q now tm \<longleftrightarrow> tm \<in> set (timers q) \<and> snd tm \<le> now"

definition timer_expire :: "delayedCallbacks \<Rightarrow> string \<times> nat \<Rightarrow> delayedCallbacks" where
  "timer_expire q tm = q\<lparr>timers := remove1 tm (timers q)\<rparr>"

definition timer_fire :: "delayedCallbacks \<Rightarrow> string \<Rightarrow> delayedCallbacks" where
  "timer_fire q name = q\<lparr>pending := map_del name (pending q)\<rparr>"

section \<open>File name patterns\<close>

text \<open>
  \<^verbatim>\<open>path.Match\<close> on ASCII names, true only for a well-formed pattern that matches (the callers treat a
  malformed pattern as no match). A class is read item by item: \<open>n\<close> counts the items before.
\<close>

fun class_item :: "string \<Rightarrow> (char \<times> string) option" where
  "class_item [] = None"
| "class_item (c # p) =
     (if c = CHR ''-'' \<or> c = CHR '']'' then None
      else if c = CHR 0x5C then (case p of [] \<Rightarrow> None | d # p' \<Rightarrow> Some (d, p'))
      else Some (c, p))"

lemma class_item_shorter: "class_item p = Some (c, p') \<Longrightarrow> length p' < length p"
  by (cases p) (auto split: if_splits list.splits)

function class_match :: "nat \<Rightarrow> char \<Rightarrow> string \<Rightarrow> bool \<Rightarrow> (bool \<times> string) option" where
  "class_match n r p m =
     (if 0 < n \<and> p \<noteq> [] \<and> hd p = CHR '']'' then Some (m, tl p)
      else (case class_item p of
          None \<Rightarrow> None
        | Some (lo, p1) \<Rightarrow>
            if p1 \<noteq> [] \<and> hd p1 = CHR ''-''
            then (case class_item (tl p1) of
                None \<Rightarrow> None
              | Some (hi, p2) \<Rightarrow> class_match (Suc n) r p2 (m \<or> lo \<le> r \<and> r \<le> hi))
            else class_match (Suc n) r p1 (m \<or> r = lo)))"
  by pat_completeness auto
termination
proof (relation "measure (\<lambda>(n, r, p, m). length p)")
  fix p p1 p2 :: string and lo hi :: char and x y n r m
  assume "class_item p = Some x" "(lo, p1) = x" "p1 \<noteq> [] \<and> hd p1 = CHR ''-''"
    "class_item (tl p1) = Some y" "(hi, p2) = y"
  then have "length p2 < length (tl p1)" "length p1 < length p"
    using class_item_shorter by metis+
  then show "((Suc n, r, p2, m \<or> lo \<le> r \<and> r \<le> hi), n, r, p, m) \<in> measure (\<lambda>(n, r, p, m). length p)"
    by simp
qed (auto dest: class_item_shorter)

declare class_match.simps [simp del]

lemma class_match_shorter: "class_match n r p m = Some (b, p') \<Longrightarrow> length p' < length p"
proof (induction n r p m rule: class_match.induct)
  case (1 n r p m)
  show ?case
  proof (cases "0 < n \<and> p \<noteq> [] \<and> hd p = CHR '']''")
    case True
    then have "class_match n r p m = Some (m, tl p)" by (simp add: class_match.simps [of n r p m])
    with 1(3) have "p' = tl p" by simp
    with True show ?thesis by simp
  next
    case False
    then obtain lo p1 where p1: "class_item p = Some (lo, p1)"
      using 1(3) by (auto simp: class_match.simps [of n r p m] split: option.splits)
    have l1: "length p1 < length p" using p1 by (rule class_item_shorter)
    show ?thesis
    proof (cases "p1 \<noteq> [] \<and> hd p1 = CHR ''-''")
      case True
      then obtain hi p2 where p2: "class_item (tl p1) = Some (hi, p2)"
        using 1(3) False p1 by (auto simp: class_match.simps [of n r p m] split: option.splits)
      have "length p2 < length (tl p1)" using p2 by (rule class_item_shorter)
      moreover have "length p' < length p2"
        using 1(1) [OF False p1 refl True p2 refl] 1(3) False p1 True p2
        by (simp add: class_match.simps [of n r p m])
      ultimately show ?thesis using l1 by simp
    next
      case no_range: False
      have "length p' < length p1"
        using 1(2) [OF False p1 refl no_range] 1(3) False p1 no_range
        by (simp add: class_match.simps [of n r p m] split: if_splits)
      with l1 show ?thesis by simp
    qed
  qed
qed

function path_match :: "string \<Rightarrow> string \<Rightarrow> bool" where
  "path_match [] s \<longleftrightarrow> s = []"
| "path_match (c # p) s \<longleftrightarrow>
     (if c = CHR ''*''
      then path_match p s \<or> (case s of [] \<Rightarrow> False | x # s' \<Rightarrow> x \<noteq> CHR ''/'' \<and> path_match (c # p) s')
      else if c = CHR ''?''
      then (case s of [] \<Rightarrow> False | x # s' \<Rightarrow> x \<noteq> CHR ''/'' \<and> path_match p s')
      else if c = CHR ''[''
      then (case s of [] \<Rightarrow> False | x # s' \<Rightarrow>
          (let neg = (p \<noteq> [] \<and> hd p = CHR ''^''); q = (if neg then tl p else p) in
           case class_match 0 x q False of
             None \<Rightarrow> False
           | Some (m, rest) \<Rightarrow> m \<noteq> neg \<and> path_match rest s'))
      else if c = CHR 0x5C
      then (case (p, s) of (d # p', x # s') \<Rightarrow> x = d \<and> path_match p' s' | _ \<Rightarrow> False)
      else (case s of [] \<Rightarrow> False | x # s' \<Rightarrow> x = c \<and> path_match p s'))"
  by pat_completeness auto
termination
proof (relation "measure (\<lambda>(p, s). length p + length s)")
  fix c x :: char and p s s' rest q :: string and neg m y
  assume "s = x # s'" "neg = (p \<noteq> [] \<and> hd p = CHR ''^'')" "q = (if neg then tl p else p)"
    "class_match 0 x q False = Some y" "(m, rest) = y"
  moreover from this have "length rest < length q" using class_match_shorter by blast
  ultimately have "length rest < length p" by (auto split: if_splits)
  then show "((rest, s'), c # p, s) \<in> measure (\<lambda>(p, s). length p + length s)"
    using \<open>s = x # s'\<close> by simp
qed auto

declare path_match.simps [simp del]

section \<open>filecache.go\<close>

text \<open>\<^verbatim>\<open>path.Base\<close>.\<close>

definition path_base :: "string \<Rightarrow> string" where
  [go_lib]: "path_base s =
     (if s = [] then ''.''
      else (let t = rev (dropWhile (\<lambda>c. c = CHR ''/'') (rev s)) in
            if t = [] then ''/'' else rev (takeWhile (\<lambda>c. c \<noteq> CHR ''/'') (rev t))))"

definition readFile :: "(string \<Rightarrow> fs_read) \<Rightarrow> string \<Rightarrow> goerror + (File option \<times> bool)" where
  "readFile disk name =
     (case disk name of
        NotExist \<Rightarrow> Inr (None, False)
      | ReadError e \<Rightarrow> Inl e
      | Content d \<Rightarrow> Inr (Some \<lparr>dirty = False, data = d\<rparr>, True))"

text \<open>\<^verbatim>\<open>Get\<close>: the content (\<open>None\<close> for nil) and whether it is an update.\<close>

definition cache_read :: "(string \<Rightarrow> fs_read) \<Rightarrow> Cache \<Rightarrow> string \<Rightarrow> Cache \<times> (goerror + (string option \<times> bool))" where
  "cache_read disk c name =
     (case readFile disk name of
        Inl e \<Rightarrow> (c, Inl e)
      | Inr (None, _) \<Rightarrow> (c\<lparr>fc_files := map_del name (fc_files c)\<rparr>, Inr (None, True))
      | Inr (Some f, updated) \<Rightarrow>
          (c\<lparr>fc_files := map_put name f (fc_files c)\<rparr>, Inr (Some (data f), updated)))"

definition filecache_Get :: "(string \<Rightarrow> fs_read) \<Rightarrow> Cache \<Rightarrow> string \<Rightarrow> Cache \<times> (goerror + (string option \<times> bool))" where
  "filecache_Get disk c name =
     (case map_of (fc_files c) name of
        Some f \<Rightarrow> if \<not> dirty f then (c, Inr (Some (data f), False)) else cache_read disk c name
      | None \<Rightarrow> cache_read disk c name)"

text \<open>
  \<^verbatim>\<open>invalidate\<close> at time \<open>now\<close>; the second component is the name of the goroutine \<^verbatim>\<open>go c.Get(name)\<close>
  that it starts for a file it does not know. Any operation but a removal is a change.
\<close>

definition invalidate :: "Cache \<Rightarrow> nat \<Rightarrow> string \<Rightarrow> fs_op \<Rightarrow> Cache \<times> string list" where
  "invalidate c now name op =
     (case map_of (fc_files c) name of
        Some f \<Rightarrow>
          (if op = OpRemove
           then (c\<lparr>fc_files := map_del name (fc_files c), fc_queue := queue_add (fc_queue c) now name\<rparr>, [])
           else
            (let c1 = (if \<not> dirty f then c\<lparr>fc_queue := queue_add (fc_queue c) now name\<rparr> else c)
             in (c1\<lparr>fc_files := map_put name (f\<lparr>dirty := True\<rparr>) (fc_files c1)\<rparr>, [])))
      | None \<Rightarrow> (c\<lparr>fc_queue := queue_add (fc_queue c) now name\<rparr>, [name]))"

text \<open>What \<^verbatim>\<open>os.Lstat\<close> tells of a path: an error, a regular file, or something else.\<close>

datatype lstat = StatError | Regular | NotRegular

definition shouldProcess :: "Cache \<Rightarrow> (string \<Rightarrow> lstat) \<Rightarrow> string \<Rightarrow> string \<Rightarrow> bool" where
  "shouldProcess c Lstat fullPath name =
     (if has_prefix name ''.'' then False
      else if \<not> path_match (fc_pattern c) name then False
      else (case Lstat fullPath of StatError \<Rightarrow> True | Regular \<Rightarrow> True | NotRegular \<Rightarrow> False))"

text \<open>\<^verbatim>\<open>New\<close>; the arguments say what \<^verbatim>\<open>Lstat\<close> and the watcher gave.\<close>

datatype folder_stat = FolderError goerror | FolderDir | FolderOther

definition filecache_New :: "folder_stat \<Rightarrow> goerror option \<Rightarrow> goerror option \<Rightarrow> string \<Rightarrow> string \<Rightarrow> goerror + Cache" where
  "filecache_New stat new_watcher watcher_add folder pattern =
     (case stat of
        FolderError e \<Rightarrow> Inl e
      | FolderOther \<Rightarrow> Inl (ErrText ''not a folder'')
      | FolderDir \<Rightarrow>
          (case new_watcher of
             Some e \<Rightarrow> Inl e
           | None \<Rightarrow>
               (case watcher_add of
                  Some e \<Rightarrow> Inl e
                | None \<Rightarrow> Inr \<lparr>fc_folder = folder, fc_pattern = pattern, fc_files = [],
                            fc_queue = newDelayedCallbacks callbackDelay\<rparr>)))"

text \<open>\<^verbatim>\<open>AddCallback\<close>: the functions registered so far and a new one.\<close>

definition AddCallback :: "('s \<Rightarrow> string \<Rightarrow> 's) list \<Rightarrow> ('s \<Rightarrow> string \<Rightarrow> 's) \<Rightarrow> ('s \<Rightarrow> string \<Rightarrow> 's) list" where
  "AddCallback callbacks fn = callbacks @ [fn]"

text \<open>\<^verbatim>\<open>doCallbacks\<close>: the registered functions in order, each on the state the one before left.\<close>

definition doCallbacks :: "('s \<Rightarrow> string \<Rightarrow> 's) list \<Rightarrow> string \<Rightarrow> 's \<Rightarrow> 's" where
  "doCallbacks callbacks name s = fold (\<lambda>fn s. fn s name) callbacks s"

text \<open>The first part of \<^verbatim>\<open>Watch\<close>: one callback for each matching entry of the directory.\<close>

fun watch_load :: "('s \<Rightarrow> string \<Rightarrow> 's) list \<Rightarrow> string \<Rightarrow> (string \<times> bool) list \<Rightarrow> 's \<Rightarrow> 's" where
  "watch_load callbacks pattern [] s = s"
| "watch_load callbacks pattern ((name, isDir) # files) s =
     (if isDir then watch_load callbacks pattern files s
      else if \<not> path_match pattern name then watch_load callbacks pattern files s
      else watch_load callbacks pattern files (doCallbacks callbacks name s))"

text \<open>
  One event in the loop of \<^verbatim>\<open>Watch\<close>. A change that is filtered out ends the turn (\<^verbatim>\<open>continue\<close>), so a
  removal in the same event is then not looked at.
\<close>

definition watch_event :: "Cache \<Rightarrow> (string \<Rightarrow> lstat) \<Rightarrow> nat \<Rightarrow> fs_op set \<Rightarrow> string \<Rightarrow> Cache \<times> string list" where
  "watch_event c Lstat now ops event_Name =
     (let name = path_base event_Name;
          ok = shouldProcess c Lstat event_Name name;
          change = (OpWrite \<in> ops \<or> OpCreate \<in> ops);
          (c1, g1) = (if change \<and> ok then invalidate c now name OpWrite else (c, [])) in
      if change \<and> \<not> ok then (c, [])
      else if (OpRemove \<in> ops \<or> OpRename \<in> ops) \<and> ok
      then (let (c2, g2) = invalidate c1 now name OpRemove in (c2, g1 @ g2))
      else (c1, g1))"

section \<open>The contract of a file source\<close>

text \<open>
  What a client of the cache relies on. \<open>cached c n\<close> is the content that the cache holds for \<open>n\<close> and
  takes to be current.
\<close>

definition cached :: "Cache \<Rightarrow> string \<Rightarrow> string option" where
  "cached c name = (case map_of (fc_files c) name of
     Some f \<Rightarrow> if dirty f then None else Some (data f) | None \<Rightarrow> None)"

locale file_source =
  fixes get :: "'c \<Rightarrow> string \<Rightarrow> 'c \<times> (goerror + (string option \<times> bool))"
    and content :: "'c \<Rightarrow> string \<Rightarrow> string option"
  assumes get_hit: "content c n = Some d \<Longrightarrow> get c n = (c, Inr (Some d, False))"
    and get_data: "get c n = (c', Inr (Some d, u)) \<Longrightarrow> content c' n = Some d \<and> (u \<longleftrightarrow> content c n = None)"
    and get_gone: "get c n = (c', Inr (None, u)) \<Longrightarrow> content c' n = None \<and> u"
    and get_error: "get c n = (c', Inl e) \<Longrightarrow> content c' n = None"
    and get_other: "get c n = (c', x) \<Longrightarrow> m \<noteq> n \<Longrightarrow> content c' m = content c m"
begin

text \<open>A second call changes nothing and is no update.\<close>

lemma get_again:
  assumes "get c n = (c', Inr (Some d, u))"
  shows "get c' n = (c', Inr (Some d, False))"
  using get_data [OF assms] get_hit by blast

lemma get_content:
  assumes "get c n = (c', x)"
  shows "content c' m = (if m = n then (case x of Inr (Some d, _) \<Rightarrow> Some d | _ \<Rightarrow> None) else content c m)"
proof (cases "m = n")
  case True
  with assms show ?thesis
    using get_data [of c n c'] get_gone [of c n c'] get_error [of c n c']
    by (auto split: sum.splits option.splits)
next
  case False
  with assms get_other show ?thesis by simp
qed

end

section \<open>Lemmas\<close>

lemma cached_queue [simp]: "cached (c\<lparr>fc_queue := q\<rparr>) n = cached c n"
  by (simp add: cached_def)

lemma cached_put:
  "cached (c\<lparr>fc_files := map_put n f (fc_files c)\<rparr>) m =
    (if m = n then (if dirty f then None else Some (data f)) else cached c m)"
  by (simp add: cached_def)

lemma cached_del:
  "cached (c\<lparr>fc_files := map_del n (fc_files c)\<rparr>) m = (if m = n then None else cached c m)"
  by (simp add: cached_def)

lemma filecache_Get_eq:
  "filecache_Get disk c n = (case cached c n of
     Some d \<Rightarrow> (c, Inr (Some d, False)) | None \<Rightarrow> cache_read disk c n)"
  by (simp add: filecache_Get_def cached_def split: option.splits)

interpretation fc: file_source "filecache_Get disk" cached for disk
  by unfold_locales
    (auto simp: filecache_Get_eq cache_read_def readFile_def cached_put cached_del
      split: option.splits sum.splits fs_read.splits prod.splits if_splits)

lemma path_match_literal:
  assumes "\<forall>c \<in> set p. c \<notin> {CHR ''*'', CHR ''?'', CHR ''['', CHR 0x5C}"
  shows "path_match p s \<longleftrightarrow> s = p"
  using assms
proof (induction p arbitrary: s)
  case (Cons c p)
  then show ?case by (cases s) (auto simp: path_match.simps)
qed (simp add: path_match.simps)

lemma path_match_star:
  "path_match (CHR ''*'' # p) s \<longleftrightarrow> (\<exists>a b. s = a @ b \<and> CHR ''/'' \<notin> set a \<and> path_match p b)"
proof (induction s)
  case Nil
  then show ?case by (simp add: path_match.simps(2))
next
  case (Cons x s)
  have "path_match (CHR ''*'' # p) (x # s) \<longleftrightarrow>
      path_match p (x # s) \<or> x \<noteq> CHR ''/'' \<and> path_match (CHR ''*'' # p) s"
    by (simp add: path_match.simps(2))
  also have "\<dots> \<longleftrightarrow> (\<exists>a b. x # s = a @ b \<and> CHR ''/'' \<notin> set a \<and> path_match p b)"
  proof
    assume "path_match p (x # s) \<or> x \<noteq> CHR ''/'' \<and> path_match (CHR ''*'' # p) s"
    then show "\<exists>a b. x # s = a @ b \<and> CHR ''/'' \<notin> set a \<and> path_match p b"
    proof
      assume "path_match p (x # s)"
      then show ?thesis by (intro exI [of _ "[]"] exI [of _ "x # s"]) simp
    next
      assume "x \<noteq> CHR ''/'' \<and> path_match (CHR ''*'' # p) s"
      then obtain a b where "s = a @ b" "CHR ''/'' \<notin> set a" "path_match p b" "x \<noteq> CHR ''/''"
        using Cons.IH by blast
      then show ?thesis by (intro exI [of _ "x # a"] exI [of _ b]) auto
    qed
  next
    assume "\<exists>a b. x # s = a @ b \<and> CHR ''/'' \<notin> set a \<and> path_match p b"
    then obtain a b where ab: "x # s = a @ b" "CHR ''/'' \<notin> set a" "path_match p b" by blast
    then show "path_match p (x # s) \<or> x \<noteq> CHR ''/'' \<and> path_match (CHR ''*'' # p) s"
      using Cons.IH by (cases a) auto
  qed
  finally show ?case .
qed

text \<open>The timers of one file: while no function has run, the one that the map refers to.\<close>

definition timers_of :: "string \<Rightarrow> delayedCallbacks \<Rightarrow> (string \<times> nat) list" where
  "timers_of n q = filter (\<lambda>(m, _). m = n) (timers q)"

definition queue_ok :: "delayedCallbacks \<Rightarrow> bool" where
  "queue_ok q \<longleftrightarrow> (\<forall>n. timers_of n q = (case map_of (pending q) n of None \<Rightarrow> [] | Some t \<Rightarrow> [(n, t)]))"

lemma timers_of_add:
  "timers_of m (queue_add q now n) =
    (if m = n then (case map_of (pending q) n of None \<Rightarrow> timers_of n q | Some t \<Rightarrow> remove1 (n, t) (timers_of n q))
       @ [(n, now + delay q)]
     else timers_of m q)"
  by (auto simp: timers_of_def queue_add_def Let_def filter_remove1 remove1_idem split: option.splits)

lemma queue_ok_add: "queue_ok q \<Longrightarrow> queue_ok (queue_add q now n)"
  unfolding queue_ok_def timers_of_add
  by (auto simp: queue_add_def Let_def split: option.splits)

lemma queue_adds:
  "map_of (pending (fold (\<lambda>(t, n) q. queue_add q t n) evs q)) m =
    (case map fst (filter (\<lambda>(t, n). n = m) evs) of
       [] \<Rightarrow> map_of (pending q) m | ts \<Rightarrow> Some (last ts + delay q))"
  by (induction evs arbitrary: q) (auto simp: queue_add_def Let_def split: list.splits)

lemma queue_ok_adds: "queue_ok q \<Longrightarrow> queue_ok (fold (\<lambda>(t, n) q. queue_add q t n) evs q)"
  by (induction evs arbitrary: q) (auto intro: queue_ok_add)

section \<open>Properties\<close>

text \<open>
  Debouncing. After any sequence of change events a file has at most one timer, which expires the
  delay after the last event of that file: the timers of earlier events of the same file are stopped,
  events of other files have no influence.
\<close>

theorem debounce_last_event:
  "timers_of m (fold (\<lambda>(t, n) q. queue_add q t n) evs (newDelayedCallbacks d)) =
    (case map fst (filter (\<lambda>(t, n). n = m) evs) of [] \<Rightarrow> [] | ts \<Rightarrow> [(m, last ts + d)])"
proof -
  have "queue_ok (newDelayedCallbacks d)" by (simp add: queue_ok_def timers_of_def newDelayedCallbacks_def)
  then have "queue_ok (fold (\<lambda>(t, n) q. queue_add q t n) evs (newDelayedCallbacks d))" by (rule queue_ok_adds)
  then show ?thesis
    using queue_adds [of evs "newDelayedCallbacks d" m]
    by (simp add: queue_ok_def newDelayedCallbacks_def split: list.splits)
qed

text \<open>
  The default file pattern. \<^verbatim>\<open>*.rego\<close> accepts exactly the names that end in \<^verbatim>\<open>.rego\<close> and have no slash
  before it.
\<close>

theorem default_pattern_matches:
  "path_match ''*.rego'' name \<longleftrightarrow> (\<exists>stem. name = stem @ ''.rego'' \<and> CHR ''/'' \<notin> set stem)"
  using path_match_star [of "''.rego''" name] path_match_literal [of "''.rego''"] by auto

text \<open>
  An update that only touches hidden names and symbolic links goes unnoticed, which is how a mounted
  ConfigMap is updated: the names in the directory are links into a hidden directory that is replaced as
  a whole, and the watcher drops every such event.
\<close>

theorem link_updates_unnoticed:
  assumes "has_prefix (path_base p) ''.'' \<or> Lstat p = NotRegular"
  shows "watch_event c Lstat now ops p = (c, [])"
  using assms by (auto simp: watch_event_def shouldProcess_def Let_def)

theorem link_updates_unnoticed_witness:
  "watch_event \<lparr>fc_folder = ''/policies'', fc_pattern = ''*.rego'', fc_files = [], fc_queue = newDelayedCallbacks 500\<rparr>
     (\<lambda>_. NotRegular) 0 {OpCreate} ''/policies/..data'' =
   (\<lparr>fc_folder = ''/policies'', fc_pattern = ''*.rego'', fc_files = [], fc_queue = newDelayedCallbacks 500\<rparr>, [])"
  by (rule link_updates_unnoticed) simp

text \<open>
  Reading through the cache. A successful \<^verbatim>\<open>Get\<close> gives the content of the file unless the cache
  already held a clean copy; it reports an update exactly when it read the file; and a second \<^verbatim>\<open>Get\<close> gives
  the same content without reading and without reporting an update, whatever is on disk by then.
\<close>

theorem Get_reads_once:
  assumes "filecache_Get disk c n = (c', Inr (Some d, updated))"
  shows "(updated \<longleftrightarrow> cached c n = None) \<and> (cached c n = Some d \<or> disk n = Content d) \<and>
    filecache_Get disk' c' n = (c', Inr (Some d, False))"
proof -
  have d: "cached c' n = Some d" "updated \<longleftrightarrow> cached c n = None" using fc.get_data [OF assms] by auto
  have "cached c n = Some d \<or> disk n = Content d"
    using assms by (auto simp: filecache_Get_eq cache_read_def readFile_def split: option.splits fs_read.splits)
  with d fc.get_hit [OF d(1)] show ?thesis by blast
qed

theorem Get_reads_once_witness:
  "filecache_Get (\<lambda>_. NotExist)
     \<lparr>fc_folder = [], fc_pattern = [], fc_files = [(''a'', \<lparr>dirty = False, data = ''x''\<rparr>)], fc_queue = newDelayedCallbacks 500\<rparr> ''a'' =
   (\<lparr>fc_folder = [], fc_pattern = [], fc_files = [(''a'', \<lparr>dirty = False, data = ''x''\<rparr>)], fc_queue = newDelayedCallbacks 500\<rparr>,
    Inr (Some ''x'', False))"
proof -
  have "filecache_Get (\<lambda>_. Content ''x'')
     \<lparr>fc_folder = [], fc_pattern = [], fc_files = [], fc_queue = newDelayedCallbacks 500\<rparr> ''a'' =
   (\<lparr>fc_folder = [], fc_pattern = [], fc_files = [(''a'', \<lparr>dirty = False, data = ''x''\<rparr>)], fc_queue = newDelayedCallbacks 500\<rparr>,
    Inr (Some ''x'', True))"
    by (simp add: filecache_Get_def cache_read_def readFile_def)
  from Get_reads_once [OF this] show ?thesis by blast
qed

end
