(* ===== verification/Rego_Cache.thy ===== *)
theory Rego_Cache
  imports File_Cache Validator
begin

text \<open>
  \<^verbatim>\<open>pkg/regocache\<close>: compiled policies, one per file, on top of a source of file contents.
  Environment substitution (\<^verbatim>\<open>envsubst\<close>) and the policy engine (\<^verbatim>\<open>opa/rego\<close>) are the fields of
  \<open>rego_env\<close>. The file cache is reached through the contract \<open>file_source\<close>; the concurrent system of
  files, watcher, timers and requests is in \<open>Policy_System\<close>.
\<close>

section \<open>Data\<close>

record 'q rego_env =
  ConvertBytes :: "string \<Rightarrow> goerror + string"
  PrepareForEval :: "string \<Rightarrow> string \<Rightarrow> string \<Rightarrow> bool \<Rightarrow> goerror + 'q"
  Eval :: "'q \<Rightarrow> Info \<Rightarrow> goerror + (string, goval) gomap list"

record ('c, 'q) RegoCache =
  rc_cache :: 'c
  rc_regos :: "(string, 'q) gomap"
  rc_ready :: string
  rc_debug :: bool

section \<open>Operations\<close>

definition regocache_New :: "goerror + 'c \<Rightarrow> bool \<Rightarrow> string \<Rightarrow> goerror + ('c, 'q) RegoCache" where
  "regocache_New cache debugFlag readyName =
     (case cache of
        Inl e \<Rightarrow> Inl e
      | Inr c \<Rightarrow> Inr \<lparr>rc_cache = c, rc_regos = [], rc_ready = readyName, rc_debug = debugFlag\<rparr>)"

text \<open>\<^verbatim>\<open>Ready\<close>, callable on a nil pointer.\<close>

definition Ready :: "('c, 'q) RegoCache option \<Rightarrow> bool" where
  "Ready rp = (case rp of None \<Rightarrow> False | Some r \<Rightarrow> map_of (rc_regos r) (rc_ready r) \<noteq> None)"

text \<open>The package name: the first line that starts with \<^verbatim>\<open>package\<close> and a blank.\<close>

definition package_of :: "string \<Rightarrow> string" where
  "package_of expanded =
     (case List.find (\<lambda>line. has_prefix line ''package '') (split_on (CHR 0x0A) expanded) of
        None \<Rightarrow> []
      | Some line \<Rightarrow> trim_space (trim_prefix line ''package ''))"

definition compile_policy :: "'q rego_env \<Rightarrow> bool \<Rightarrow> string \<Rightarrow> string \<Rightarrow> goerror + 'q" where
  "compile_policy env debug name d =
     (case ConvertBytes env d of
        Inl e \<Rightarrow> Inl e
      | Inr expanded \<Rightarrow>
          (let pkg = package_of expanded in
           if pkg = [] then Inl (ErrText ''package not found'')
           else PrepareForEval env (''x = data.'' @ pkg) name expanded debug))"

definition GetRego_compile :: "'q rego_env \<Rightarrow> ('c, 'q) RegoCache \<Rightarrow> string \<Rightarrow> string
    \<Rightarrow> ('c, 'q) RegoCache \<times> (goerror + 'q option)" where
  "GetRego_compile env r name d =
     (case compile_policy env (rc_debug r) name d of
        Inl e \<Rightarrow> (r, Inl e)
      | Inr q \<Rightarrow> (r\<lparr>rc_regos := map_put name q (rc_regos r)\<rparr>, Inr (Some q)))"

text \<open>The part of \<^verbatim>\<open>GetRego\<close> under the mutex; a nil query is \<open>None\<close>.\<close>

definition GetRego_locked :: "'q rego_env \<Rightarrow> ('c, 'q) RegoCache \<Rightarrow> string \<Rightarrow> string option \<Rightarrow> bool
    \<Rightarrow> ('c, 'q) RegoCache \<times> (goerror + 'q option)" where
  "GetRego_locked env r name dat isdirty =
     (case dat of
        None \<Rightarrow> (r\<lparr>rc_regos := map_del name (rc_regos r)\<rparr>, Inr None)
      | Some d \<Rightarrow>
          (case map_of (rc_regos r) name of
             Some query \<Rightarrow>
               (if \<not> isdirty then (r, Inr (Some query)) else GetRego_compile env r name d)
           | None \<Rightarrow> GetRego_compile env r name d))"

text \<open>\<^verbatim>\<open>GetRego\<close>; \<open>get\<close> is the \<^verbatim>\<open>Get\<close> of the file cache.\<close>

definition GetRego :: "'q rego_env \<Rightarrow> ('c \<Rightarrow> string \<Rightarrow> 'c \<times> (goerror + (string option \<times> bool)))
    \<Rightarrow> ('c, 'q) RegoCache \<Rightarrow> string \<Rightarrow> ('c, 'q) RegoCache \<times> (goerror + 'q option)" where
  "GetRego env get r name =
     (case get (rc_cache r) name of
        (c, Inl e) \<Rightarrow> (r\<lparr>rc_cache := c\<rparr>, Inl e)
      | (c, Inr (dat, isdirty)) \<Rightarrow> GetRego_locked env (r\<lparr>rc_cache := c\<rparr>) name dat isdirty)"

definition Callback :: "'q rego_env \<Rightarrow> ('c \<Rightarrow> string \<Rightarrow> 'c \<times> (goerror + (string option \<times> bool)))
    \<Rightarrow> ('c, 'q) RegoCache \<Rightarrow> string \<Rightarrow> ('c, 'q) RegoCache" where
  "Callback env get r name = fst (GetRego env get r name)"

text \<open>The value of a query: the variable \<^verbatim>\<open>x\<close> of the first result, nil when there is none.\<close>

definition eval_query :: "'q rego_env \<Rightarrow> 'q \<Rightarrow> Info \<Rightarrow> goerror + goval" where
  "eval_query env query input =
     (case Eval env query input of
        Inl e \<Rightarrow> Inl e
      | Inr [] \<Rightarrow> Inr VNil
      | Inr (bindings # _) \<Rightarrow> Inr (case map_of bindings ''x'' of Some v \<Rightarrow> v | None \<Rightarrow> VNil))"

text \<open>\<^verbatim>\<open>Validate\<close>: evaluating a nil query is a nil pointer dereference.\<close>

definition Validate :: "'q rego_env \<Rightarrow> ('c \<Rightarrow> string \<Rightarrow> 'c \<times> (goerror + (string option \<times> bool)))
    \<Rightarrow> ('c, 'q) RegoCache validate_fn" where
  "Validate env get r name input =
     (case GetRego env get r name of
        (r', Inl e) \<Rightarrow> Done (r', Inl e)
      | (r', Inr None) \<Rightarrow> Panic ''nil pointer dereference''
      | (r', Inr (Some query)) \<Rightarrow> Done (r', eval_query env query input))"

section \<open>Specifications\<close>

text \<open>
  The compiled policy of a file belongs to the content that the file cache holds as current, unless that
  content does not compile: then the last good policy stays.
\<close>

definition coherent :: "'q rego_env \<Rightarrow> ('c \<Rightarrow> string \<Rightarrow> string option) \<Rightarrow> ('c, 'q) RegoCache \<Rightarrow> bool" where
  "coherent env content r \<longleftrightarrow>
     (\<forall>n d q q'. content (rc_cache r) n = Some d \<longrightarrow> map_of (rc_regos r) n = Some q \<longrightarrow>
        compile_policy env (rc_debug r) n d = Inr q' \<longrightarrow> q = q')"

section \<open>Lemmas\<close>

lemma GetRego_regos_other:
  "GetRego env get r n = (r', x) \<Longrightarrow> m \<noteq> n \<Longrightarrow> map_of (rc_regos r') m = map_of (rc_regos r) m"
  by (auto simp: GetRego_def GetRego_locked_def GetRego_compile_def
      split: prod.splits sum.splits option.splits if_splits)

lemma GetRego_query: "GetRego env get r n = (r', Inr (Some q)) \<Longrightarrow> map_of (rc_regos r') n = Some q"
  by (auto simp: GetRego_def GetRego_locked_def GetRego_compile_def
      split: prod.splits sum.splits option.splits if_splits)

lemma GetRego_nil: "GetRego env get r n = (r', Inr None) \<Longrightarrow> map_of (rc_regos r') n = None"
  by (auto simp: GetRego_def GetRego_locked_def GetRego_compile_def
      split: prod.splits sum.splits option.splits if_splits)

lemma GetRego_debug: "GetRego env get r n = (r', x) \<Longrightarrow> rc_debug r' = rc_debug r \<and> rc_ready r' = rc_ready r"
  by (auto simp: GetRego_def GetRego_locked_def GetRego_compile_def
      split: prod.splits sum.splits option.splits if_splits)

lemma GetRego_cache: "GetRego env get r n = (r', x) \<Longrightarrow> rc_cache r' = fst (get (rc_cache r) n)"
  by (auto simp: GetRego_def GetRego_locked_def GetRego_compile_def
      split: prod.splits sum.splits option.splits if_splits)

interpretation rego: policy_validator "Validate env get" "\<lambda>r. map_of (rc_regos r)" "eval_query env" for env get
  by unfold_locales (auto simp: Validate_def dest: GetRego_query split: prod.splits sum.splits option.splits)

subsection \<open>Coherence, for any file source\<close>

context file_source
begin

lemma GetRego_cases:
  assumes "GetRego env get r n = (r', x)"
  obtains (error) e where "x = Inl e" "rc_regos r' = rc_regos r"
      "content (rc_cache r') n = None \<or> (\<exists>d. content (rc_cache r') n = Some d \<and>
         compile_policy env (rc_debug r) n d = Inl e)"
  | (gone) "x = Inr None" "content (rc_cache r') n = None" "map_of (rc_regos r') n = None"
  | (old) q d where "x = Inr (Some q)" "rc_regos r' = rc_regos r" "map_of (rc_regos r) n = Some q"
      "content (rc_cache r) n = Some d" "content (rc_cache r') n = Some d"
  | (new) q d where "x = Inr (Some q)" "map_of (rc_regos r') n = Some q"
      "content (rc_cache r') n = Some d" "compile_policy env (rc_debug r) n d = Inr q"
proof -
  obtain c y where get: "get (rc_cache r) n = (c, y)" by fastforce
  show ?thesis
  proof (cases y)
    case (Inl e)
    with get assms error get_error [of "rc_cache r" n c e] show ?thesis
      by (auto simp: GetRego_def)
  next
    case (Inr p)
    then obtain dat u where p: "y = Inr (dat, u)" by (cases p) simp
    show ?thesis
    proof (cases dat)
      case None
      with get p assms gone get_gone [of "rc_cache r" n c u] show ?thesis
        by (auto simp: GetRego_def GetRego_locked_def)
    next
      case (Some d)
      note data = get_data [of "rc_cache r" n c d u]
      show ?thesis
      proof (cases "\<exists>q. map_of (rc_regos r) n = Some q \<and> \<not> u")
        case True
        then obtain q where q: "map_of (rc_regos r) n = Some q" "\<not> u" by blast
        with get p Some data have "content (rc_cache r) n \<noteq> None" "content c n = Some d" by auto
        moreover from this get p Some have "content (rc_cache r) n = Some d"
          using get_hit by fastforce
        ultimately show ?thesis
          using old [of q d] get p Some q assms by (auto simp: GetRego_def GetRego_locked_def)
      next
        case False
        with get p Some assms have comp: "GetRego_compile env (r\<lparr>rc_cache := c\<rparr>) n d = (r', x)"
          by (auto simp: GetRego_def GetRego_locked_def split: option.splits)
        show ?thesis
        proof (cases "compile_policy env (rc_debug r) n d")
          case (Inl e)
          with comp show ?thesis
            using error [of e] get p Some data by (auto simp: GetRego_compile_def)
        next
          case (Inr q)
          with comp show ?thesis
            using new [of q d] get p Some data by (auto simp: GetRego_compile_def)
        qed
      qed
    qed
  qed
qed

lemma GetRego_coherent:
  assumes "coherent env content r" and "GetRego env get r n = (r', x)"
  shows "coherent env content r'"
proof -
  have same: "rc_debug r' = rc_debug r" using assms(2) by (simp add: GetRego_debug)
  have other: "\<And>m. m \<noteq> n \<Longrightarrow> content (rc_cache r') m = content (rc_cache r) m \<and>
      map_of (rc_regos r') m = map_of (rc_regos r) m"
    using GetRego_cache [OF assms(2)] GetRego_regos_other [OF assms(2)] get_other
    by (metis prod.collapse)
  show ?thesis
    unfolding coherent_def
  proof (intro allI impI)
    fix m d q q'
    assume a: "content (rc_cache r') m = Some d" "map_of (rc_regos r') m = Some q"
      "compile_policy env (rc_debug r') m d = Inr q'"
    show "q = q'"
    proof (cases "m = n")
      case False
      with a other same assms(1) show ?thesis by (auto simp: coherent_def)
    next
      case True
      from assms(2) show ?thesis
      proof (cases rule: GetRego_cases)
        case (error e)
        with a True same show ?thesis by auto
      next
        case gone
        with a True show ?thesis by simp
      next
        case (old q0 d0)
        with a True same assms(1) show ?thesis by (auto simp: coherent_def)
      next
        case (new q0 d0)
        with a True same show ?thesis by simp
      qed
    qed
  qed
qed

end

lemma GetRego_first_error:
  assumes "cached (rc_cache r) n = None" and "disk n = Content d" and "compile_policy env (rc_debug r) n d = Inl e"
  shows "\<exists>r1. GetRego env (filecache_Get disk) r n = (r1, Inl e) \<and> rc_regos r1 = rc_regos r \<and>
    cached (rc_cache r1) n = Some d"
  using assms
  by (auto simp: GetRego_def GetRego_locked_def GetRego_compile_def filecache_Get_eq cache_read_def readFile_def
      cached_put split: option.splits)

section \<open>Sample data\<close>

text \<open>A policy engine whose query is the source itself; a source that says so does not compile.\<close>

definition sample_rego_env :: "string rego_env" where
  "sample_rego_env =
     \<lparr>ConvertBytes = Inr,
      PrepareForEval = (\<lambda>q n src dbg. if src = ''package bad'' then Inl (ErrText ''rego_parse_error'') else Inr src),
      Eval = (\<lambda>q i. Inr [[(''x'', VMap [(''allow'', VBool (q = ''package open''))])]])\<rparr>"

definition sample_cache :: "string \<Rightarrow> Cache" where
  "sample_cache src = \<lparr>fc_folder = ''p'', fc_pattern = ''*.rego'',
     fc_files = [(''r.rego'', \<lparr>dirty = False, data = src\<rparr>)], fc_queue = newDelayedCallbacks callbackDelay\<rparr>"

definition sample_regos :: "Cache \<Rightarrow> string \<Rightarrow> (Cache, string) RegoCache" where
  "sample_regos c src = \<lparr>rc_cache = c, rc_regos = [(''r.rego'', src)], rc_ready = ''r.rego'', rc_debug = False\<rparr>"

section \<open>Properties\<close>



text \<open>
  An update that does not compile. The call that reads the new content fails with the compiler's
  error, and every call after it silently returns the policy compiled before the update.
\<close>

theorem failed_update_keeps_policy:
  assumes "map_of (rc_regos r) n = Some q" and "cached (rc_cache r) n = None"
    and "disk n = Content d" and "compile_policy env (rc_debug r) n d = Inl e"
  shows "\<exists>r1. GetRego env (filecache_Get disk) r n = (r1, Inl e) \<and>
    GetRego env (filecache_Get disk) r1 n = (r1, Inr (Some q))"
proof -
  obtain r1 where r1: "GetRego env (filecache_Get disk) r n = (r1, Inl e)" "rc_regos r1 = rc_regos r"
    "cached (rc_cache r1) n = Some d"
    using GetRego_first_error [of r n disk d env e] assms(2-4) by blast
  moreover from r1 assms(1) have "GetRego env (filecache_Get disk) r1 n = (r1, Inr (Some q))"
    by (simp add: GetRego_def GetRego_locked_def filecache_Get_eq)
  ultimately show ?thesis by blast
qed

theorem failed_update_keeps_policy_witness:
  "\<exists>r1 e. GetRego sample_rego_env (filecache_Get (\<lambda>_. Content ''package bad''))
       (sample_regos ((sample_cache [])\<lparr>fc_files := []\<rparr>) ''package a'') ''r.rego'' = (r1, Inl e) \<and>
     GetRego sample_rego_env (filecache_Get (\<lambda>_. Content ''package bad'')) r1 ''r.rego'' = (r1, Inr (Some ''package a''))"
proof -
  have "package_of ''package bad'' = ''bad''" by code_simp
  then have "compile_policy sample_rego_env False ''r.rego'' ''package bad'' = Inl (ErrText ''rego_parse_error'')"
    by (simp add: compile_policy_def sample_rego_env_def)
  then show ?thesis
    using failed_update_keeps_policy [of "sample_regos ((sample_cache [])\<lparr>fc_files := []\<rparr>) ''package a''" "''r.rego''"
        "''package a''" "\<lambda>_. Content ''package bad''" "''package bad''" sample_rego_env]
    by (auto simp: sample_regos_def sample_cache_def cached_def)
qed

text \<open>
  A request after the policy file was removed panics: \<^verbatim>\<open>GetRego\<close> returns a nil query without an error
  and \<^verbatim>\<open>Validate\<close> evaluates it.
\<close>

theorem removed_policy_panics:
  assumes "disk n = NotExist" and "cached (rc_cache r) n = None"
  shows "Validate env (filecache_Get disk) r n input = Panic ''nil pointer dereference''"
  using assms
  by (simp add: Validate_def GetRego_def GetRego_locked_def filecache_Get_eq cache_read_def readFile_def)

theorem removed_policy_panics_witness:
  "Validate sample_rego_env (filecache_Get (\<lambda>_. NotExist)) (sample_regos ((sample_cache [])\<lparr>fc_files := []\<rparr>) ''package a'')
     ''r.rego'' \<lparr>Request = \<lparr>ri_Method = ''GET'', ri_Path = [], ri_Headers = [], ri_BlockedHeaders = None,
       ri_Auth = None, ri_Size = 0, ri_ID = []\<rparr>, JWT = VNil, User = VNil, Result = VNil, URL = ''/''\<rparr> =
   Panic ''nil pointer dereference''"
  by (rule removed_policy_panics) (simp_all add: sample_regos_def sample_cache_def cached_def)

end
