(* ===== verification/Policy_System.thy ===== *)
theory Policy_System
  imports Rego_Cache
begin

text \<open>
  The policy directory, the watcher goroutine of \<^verbatim>\<open>pkg/filecache\<close>, its timers, the goroutines they start
  and the requests that read a policy, as one transition system. \<^verbatim>\<open>GetRego\<close> takes two mutexes one after
  the other, so it is two steps: the read of the file cache, and the part under the mutex of the rego
  cache; what it carries from the first to the second is in \<open>ps_inflight\<close>.
\<close>

section \<open>The system\<close>

record 'q policy_sys =
  ps_disk :: "string \<Rightarrow> fs_read"
  ps_link :: "string \<Rightarrow> bool"
  ps_events :: "(fs_op set \<times> string) list"
  ps_rc :: "(Cache, 'q) RegoCache"
  ps_spawned :: "string list"
  ps_fired :: "string list"
  ps_callbacks :: "string list"
  ps_inflight :: "(string \<times> string option \<times> bool) list"
  ps_now :: nat

text \<open>
  \<open>ps_disk\<close> is what reading a name gives, \<open>ps_link\<close> whether its entry is something else than a regular file, in
  practice a symbolic link as Kubernetes mounts them; a link may be there while its target is not.
\<close>

definition event_path :: "'q policy_sys \<Rightarrow> string \<Rightarrow> string" where
  "event_path s n = fc_folder (rc_cache (ps_rc s)) @ ''/'' @ n"

definition sys_lstat :: "'q policy_sys \<Rightarrow> string \<Rightarrow> lstat" where
  "sys_lstat s p =
     (if ps_link s (path_base p) then NotRegular
      else (case ps_disk s (path_base p) of NotExist \<Rightarrow> StatError | _ \<Rightarrow> Regular))"

text \<open>What a \<^verbatim>\<open>GetRego\<close> carries on after its read of the file cache; an error ends it.\<close>

definition carried :: "string \<Rightarrow> goerror + (string option \<times> bool) \<Rightarrow> (string \<times> string option \<times> bool) list" where
  "carried n res = (case res of Inl _ \<Rightarrow> [] | Inr (dat, isdirty) \<Rightarrow> [(n, dat, isdirty)])"

abbreviation ps_cache :: "'q policy_sys \<Rightarrow> Cache" where
  "ps_cache s \<equiv> rc_cache (ps_rc s)"

definition with_cache :: "Cache \<Rightarrow> 'q policy_sys \<Rightarrow> 'q policy_sys" where
  "with_cache c s = s\<lparr>ps_rc := (ps_rc s)\<lparr>rc_cache := c\<rparr>\<rparr>"

text \<open>
  Steps: a change of an entry of the directory, with the event the kernel queues for it; a change of what a
  link leads to, of which the kernel says nothing; one turn of the watcher
  loop; the read by a goroutine that the watcher started; a timer that expires, and its function when it
  has the mutex of the queue, in \<open>ps_fired\<close> in between; the two halves of a \<^verbatim>\<open>GetRego\<close> by a timer's callback
  or by a request; the passing of time.
\<close>

inductive policy_step :: "'q rego_env \<Rightarrow> 'q policy_sys \<Rightarrow> 'q policy_sys \<Rightarrow> bool" for env where
  disk_change:
    "ops \<inter> {OpWrite, OpCreate, OpRemove, OpRename} \<noteq> {} \<Longrightarrow>
     policy_step env s (s\<lparr>ps_disk := (ps_disk s)(n := v), ps_link := (ps_link s)(n := k),
       ps_events := ps_events s @ [(ops, event_path s n)]\<rparr>)"
| link_change:
    "ps_link s n \<Longrightarrow> policy_step env s (s\<lparr>ps_disk := (ps_disk s)(n := v)\<rparr>)"
| watch:
    "ps_events s = (ops, p) # evs \<Longrightarrow>
     watch_event (ps_cache s) (sys_lstat s) (ps_now s) ops p = (c, spawned) \<Longrightarrow>
     policy_step env s ((with_cache c s)\<lparr>ps_events := evs, ps_spawned := ps_spawned s @ spawned\<rparr>)"
| read_new:
    "n \<in> set (ps_spawned s) \<Longrightarrow> filecache_Get (ps_disk s) (ps_cache s) n = (c, res) \<Longrightarrow>
     policy_step env s ((with_cache c s)\<lparr>ps_spawned := remove1 n (ps_spawned s)\<rparr>)"
| expire:
    "due (fc_queue (ps_cache s)) (ps_now s) tm \<Longrightarrow>
     policy_step env s ((with_cache ((ps_cache s)\<lparr>fc_queue := timer_expire (fc_queue (ps_cache s)) tm\<rparr>) s)
       \<lparr>ps_fired := ps_fired s @ [fst tm]\<rparr>)"
| timer:
    "n \<in> set (ps_fired s) \<Longrightarrow>
     policy_step env s ((with_cache ((ps_cache s)\<lparr>fc_queue := timer_fire (fc_queue (ps_cache s)) n\<rparr>) s)
       \<lparr>ps_fired := remove1 n (ps_fired s), ps_callbacks := ps_callbacks s @ [n]\<rparr>)"
| callback:
    "n \<in> set (ps_callbacks s) \<Longrightarrow> filecache_Get (ps_disk s) (ps_cache s) n = (c, res) \<Longrightarrow>
     policy_step env s ((with_cache c s)\<lparr>ps_callbacks := remove1 n (ps_callbacks s),
       ps_inflight := ps_inflight s @ carried n res\<rparr>)"
| ask:
    "filecache_Get (ps_disk s) (ps_cache s) n = (c, res) \<Longrightarrow>
     policy_step env s ((with_cache c s)\<lparr>ps_inflight := ps_inflight s @ carried n res\<rparr>)"
| commit:
    "(n, dat, isdirty) \<in> set (ps_inflight s) \<Longrightarrow>
     policy_step env s (s\<lparr>ps_rc := fst (GetRego_locked env (ps_rc s) n dat isdirty),
       ps_inflight := remove1 (n, dat, isdirty) (ps_inflight s)\<rparr>)"
| tick:
    "policy_step env s (s\<lparr>ps_now := ps_now s + t\<rparr>)"

text \<open>The runs of the system from a state, through states that satisfy \<open>P\<close>.\<close>

inductive policy_run :: "'q rego_env \<Rightarrow> ('q policy_sys \<Rightarrow> bool) \<Rightarrow> 'q policy_sys \<Rightarrow> 'q policy_sys \<Rightarrow> bool"
  for env P s0 where
  start: "policy_run env P s0 s0"
| step: "policy_run env P s0 s \<Longrightarrow> policy_step env s s' \<Longrightarrow> P s' \<Longrightarrow> policy_run env P s0 s'"

section \<open>Invariants\<close>

text \<open>The names that the watcher does not filter out.\<close>

definition watched :: "Cache \<Rightarrow> string \<Rightarrow> bool" where
  "watched c n \<longleftrightarrow> n \<noteq> [] \<and> CHR ''/'' \<notin> set n \<and> \<not> has_prefix n ''.'' \<and> path_match (fc_pattern c) n"

text \<open>
  What the file cache takes to be current of a regular file is what is on disk, unless an event that says
  otherwise is still queued.
\<close>

definition cache_current :: "'q policy_sys \<Rightarrow> bool" where
  "cache_current s \<longleftrightarrow>
     (\<forall>n d. watched (ps_cache s) n \<longrightarrow> \<not> ps_link s n \<longrightarrow> cached (ps_cache s) n = Some d \<longrightarrow>
        ps_disk s n = Content d \<or>
        (\<exists>ops. (ops, event_path s n) \<in> set (ps_events s) \<and>
           ops \<inter> {OpWrite, OpCreate, OpRemove, OpRename} \<noteq> {}))"

text \<open>The files that are marked dirty have a reload ahead of them.\<close>

definition is_dirty :: "Cache \<Rightarrow> string \<Rightarrow> bool" where
  "is_dirty c n \<longleftrightarrow> (case map_of (fc_files c) n of Some f \<Rightarrow> dirty f | None \<Rightarrow> False)"

definition armed :: "Cache \<Rightarrow> string \<Rightarrow> bool" where
  "armed c n \<longleftrightarrow> n \<in> fst ` set (timers (fc_queue c))"

definition reload_ahead :: "'q policy_sys \<Rightarrow> bool" where
  "reload_ahead s \<longleftrightarrow>
     (\<forall>n. is_dirty (ps_cache s) n \<longrightarrow>
        armed (ps_cache s) n \<or> n \<in> set (ps_fired s) \<union> set (ps_callbacks s))"

definition readable :: "'q policy_sys \<Rightarrow> bool" where
  "readable s \<longleftrightarrow> (\<forall>n e. ps_disk s n \<noteq> ReadError e)"

section \<open>Lemmas\<close>

lemma with_cache_simps [simp]:
  "ps_cache (with_cache c s) = c" "ps_disk (with_cache c s) = ps_disk s"
  "ps_link (with_cache c s) = ps_link s"
  "ps_events (with_cache c s) = ps_events s" "ps_callbacks (with_cache c s) = ps_callbacks s"
  "ps_inflight (with_cache c s) = ps_inflight s" "ps_fired (with_cache c s) = ps_fired s" "ps_spawned (with_cache c s) = ps_spawned s"
  "rc_regos (ps_rc (with_cache c s)) = rc_regos (ps_rc s)" "ps_now (with_cache c s) = ps_now s"
  by (simp_all add: with_cache_def)

lemma GetRego_locked_cache [simp]: "rc_cache (fst (GetRego_locked env r n dat u)) = rc_cache r"
  by (auto simp: GetRego_locked_def GetRego_compile_def split: option.splits sum.splits)

lemma GetRego_split:
  "GetRego env get r n =
    (case get (rc_cache r) n of
       (c, Inl e) \<Rightarrow> (r\<lparr>rc_cache := c\<rparr>, Inl e)
     | (c, Inr (dat, u)) \<Rightarrow> GetRego_locked env (r\<lparr>rc_cache := c\<rparr>) n dat u)"
  by (simp add: GetRego_def)

lemma filecache_Get_frame:
  assumes "filecache_Get disk c n = (c', res)"
  shows "fc_folder c' = fc_folder c" and "fc_pattern c' = fc_pattern c" and "fc_queue c' = fc_queue c"
    and "m \<noteq> n \<Longrightarrow> map_of (fc_files c') m = map_of (fc_files c) m"
    and "is_dirty c' n \<Longrightarrow> \<exists>e. disk n = ReadError e"
    and "cached c' n = Some d \<Longrightarrow> cached c n = Some d \<or> disk n = Content d"
  using assms
  by (auto simp: filecache_Get_def cache_read_def readFile_def is_dirty_def cached_def
      split: option.splits if_splits fs_read.splits)

lemma armed_simps [simp]:
  "armed (c\<lparr>fc_files := fs\<rparr>) n = armed c n" "armed (c\<lparr>fc_queue := timer_fire (fc_queue c) m\<rparr>) n = armed c n"
  by (simp_all add: armed_def timer_fire_def)

lemma armed_add: "armed (c\<lparr>fc_files := fs, fc_queue := queue_add (fc_queue c) now n\<rparr>) m \<longleftrightarrow> armed c m \<or> m = n"
proof -
  have "m \<in> fst ` set (remove1 (n, t) ts) \<longleftrightarrow> m \<in> fst ` set ts" if "m \<noteq> n" for t and ts :: "(string \<times> nat) list"
    using that by (induction ts) auto
  then show ?thesis by (auto simp: armed_def queue_add_def Let_def split: option.splits)
qed

lemma invalidate_frame:
  assumes "invalidate c now n op = (c', g)"
  shows "fc_folder c' = fc_folder c" and "fc_pattern c' = fc_pattern c"
    and "m \<noteq> n \<Longrightarrow> map_of (fc_files c') m = map_of (fc_files c) m"
    and "cached c' n = None"
    and "armed c m \<Longrightarrow> armed c' m"
    and "is_dirty c' n \<Longrightarrow> is_dirty c n \<or> armed c' n"
  using assms armed_add [where c = c and now = now and n = n] armed_add [where c = c and now = now and n = n and fs = "fc_files c"]
  by (auto simp: invalidate_def Let_def cached_def is_dirty_def split: option.splits if_splits)

lemma path_base_event:
  assumes "n \<noteq> []" and "CHR ''/'' \<notin> set n"
  shows "path_base (folder @ CHR ''/'' # n) = n"
proof -
  have "dropWhile (\<lambda>c. c = CHR ''/'') (rev n @ CHR ''/'' # rev folder) = rev n @ CHR ''/'' # rev folder"
    using assms by (cases n rule: rev_exhaust) auto
  moreover have "takeWhile (\<lambda>c. c \<noteq> CHR ''/'') (rev n @ CHR ''/'' # rev folder) = rev n"
    using assms by (subst takeWhile_append2) auto
  ultimately show ?thesis
    using assms by (simp add: path_base_def Let_def)
qed

lemma watch_event_cases:
  assumes "watch_event c Lstat now ops p = (c', g)"
  obtains "c' = c" and "ops \<inter> {OpWrite, OpCreate, OpRemove, OpRename} = {} \<or>
      \<not> shouldProcess c Lstat p (path_base p)"
  | op where "invalidate c now (path_base p) op = (c', g)"
  | c1 g1 g2 where "invalidate c now (path_base p) OpWrite = (c1, g1)"
      "invalidate c1 now (path_base p) OpRemove = (c', g2)"
  using assms
  by (auto simp: watch_event_def Let_def split: if_splits prod.splits)

text \<open>
  What every part of the system keeps of the file cache. \<open>n\<close> is the one name that a turn of the watcher
  or a read is about.
\<close>

definition cache_step :: "string \<Rightarrow> Cache \<Rightarrow> Cache \<Rightarrow> bool" where
  "cache_step n c c' \<longleftrightarrow> fc_folder c' = fc_folder c \<and> fc_pattern c' = fc_pattern c \<and>
     (\<forall>m. m \<noteq> n \<longrightarrow> map_of (fc_files c') m = map_of (fc_files c) m) \<and>
     (\<forall>m. armed c m \<longrightarrow> armed c' m)"

lemma cache_step_refl [simp]: "cache_step n c c"
  by (simp add: cache_step_def)

lemma cache_step_trans: "cache_step n c c1 \<Longrightarrow> cache_step n c1 c' \<Longrightarrow> cache_step n c c'"
  by (simp add: cache_step_def)

lemma cache_step_invalidate: "invalidate c now n op = (c', g) \<Longrightarrow> cache_step n c c'"
  using invalidate_frame by (simp add: cache_step_def)

lemma cache_step_Get: "filecache_Get disk c n = (c', res) \<Longrightarrow> cache_step n c c'"
  using filecache_Get_frame by (simp add: cache_step_def armed_def)

lemma watch_event_step:
  assumes "watch_event c Lstat now ops p = (c', g)"
  shows "cache_step (path_base p) c c'"
    and "is_dirty c' (path_base p) \<Longrightarrow>
      is_dirty c (path_base p) \<or> armed c' (path_base p)"
    and "cached c' (path_base p) = None \<or>
      c' = c \<and> (ops \<inter> {OpWrite, OpCreate, OpRemove, OpRename} = {} \<or> \<not> shouldProcess c Lstat p (path_base p))"
proof -
  let ?n = "path_base p"
  have "cache_step ?n c c' \<and>
    (is_dirty c' ?n \<longrightarrow> is_dirty c ?n \<or> armed c' ?n) \<and>
    (cached c' ?n = None \<or> c' = c \<and>
      (ops \<inter> {OpWrite, OpCreate, OpRemove, OpRename} = {} \<or> \<not> shouldProcess c Lstat p ?n))"
    using assms
  proof (cases rule: watch_event_cases)
    case 1
    then show ?thesis by auto
  next
    case (2 op)
    then show ?thesis using cache_step_invalidate invalidate_frame(4,6) by metis
  next
    case (3 c1 g1 g2)
    have "cache_step ?n c c'" using 3 cache_step_invalidate cache_step_trans by metis
    moreover have "is_dirty c' ?n \<longrightarrow> is_dirty c ?n \<or> armed c' ?n"
      using invalidate_frame(5,6) [OF 3(2)] invalidate_frame(6) [OF 3(1)] by blast
    ultimately show ?thesis using invalidate_frame(4) [OF 3(2)] by simp
  qed
  then show "cache_step ?n c c'"
    and "is_dirty c' ?n \<Longrightarrow> is_dirty c ?n \<or> armed c' ?n"
    and "cached c' ?n = None \<or> c' = c \<and>
      (ops \<inter> {OpWrite, OpCreate, OpRemove, OpRename} = {} \<or> \<not> shouldProcess c Lstat p ?n)"
    by blast+
qed

lemma cache_step_cached: "cache_step n c c' \<Longrightarrow> m \<noteq> n \<Longrightarrow> cached c' m = cached c m"
  by (simp add: cache_step_def cached_def)

lemma cache_step_dirty: "cache_step n c c' \<Longrightarrow> m \<noteq> n \<Longrightarrow> is_dirty c' m = is_dirty c m"
  by (simp add: cache_step_def is_dirty_def)

lemma cache_step_watched: "cache_step n c c' \<Longrightarrow> watched c' m = watched c m"
  by (simp add: cache_step_def watched_def)

lemma watched_processed:
  "watched c n \<Longrightarrow> \<not> ps_link s n \<Longrightarrow> shouldProcess c (sys_lstat s) (event_path s n) (path_base (event_path s n))"
  by (auto simp: watched_def shouldProcess_def event_path_def path_base_event sys_lstat_def
      split: fs_read.splits)

lemma watched_event_path: "watched c n \<Longrightarrow> path_base (event_path s n) = n"
  by (simp add: watched_def event_path_def path_base_event)

lemma event_path_inject: "event_path s n = event_path s m \<longleftrightarrow> n = m"
  by (simp add: event_path_def)

text \<open>A read keeps both invariants; so does a turn of the watcher, which removes its event.\<close>

lemma cache_current_read:
  assumes "cache_current s" and "filecache_Get (ps_disk s) (ps_cache s) n = (c, res)"
    and "ps_cache s' = c" and "ps_disk s' = ps_disk s" and "ps_link s' = ps_link s" and "ps_events s' = ps_events s"
  shows "cache_current s'"
  unfolding cache_current_def
proof (intro allI impI)
  fix m d
  assume m: "watched (ps_cache s') m" "cached (ps_cache s') m = Some d" and reg: "\<not> ps_link s' m"
  have step: "cache_step n (ps_cache s) (ps_cache s')" using cache_step_Get [OF assms(2)] assms(3) by simp
  have "cached (ps_cache s) m = Some d \<or> ps_disk s m = Content d"
    using m(2) filecache_Get_frame(6) [OF assms(2), of d] cache_step_cached [OF step, of m] assms(3)
    by (cases "m = n") auto
  moreover have "event_path s' m = event_path s m" "watched (ps_cache s) m"
    using step m(1) by (auto simp: event_path_def cache_step_def watched_def)
  ultimately show "ps_disk s' m = Content d \<or> (\<exists>ops. (ops, event_path s' m) \<in> set (ps_events s') \<and>
      ops \<inter> {OpWrite, OpCreate, OpRemove, OpRename} \<noteq> {})"
    using assms(1,4-6) reg by (auto simp: cache_current_def)
qed

lemma cache_current_watch:
  assumes "cache_current s" and "ps_events s = (ops, p) # evs"
    and "watch_event (ps_cache s) (sys_lstat s) (ps_now s) ops p = (c, g)"
    and "ps_cache s' = c" and "ps_disk s' = ps_disk s" and "ps_link s' = ps_link s" and "ps_events s' = evs"
  shows "cache_current s'"
  unfolding cache_current_def
proof (intro allI impI)
  fix m d
  assume m: "watched (ps_cache s') m" "cached (ps_cache s') m = Some d" and reg: "\<not> ps_link s' m"
  note ev = watch_event_step [OF assms(3), folded assms(4)]
  have w: "watched (ps_cache s) m" and path: "event_path s' m = event_path s m"
    using ev(1) m(1) by (auto simp: event_path_def cache_step_def watched_def)
  have proc: "shouldProcess (ps_cache s) (sys_lstat s) (event_path s m) (path_base (event_path s m))"
    using w reg assms(6) by (simp add: watched_processed)
  have base: "path_base (event_path s m) = m" using w by (rule watched_event_path)
  have "cached (ps_cache s) m = Some d"
    using ev(1,3) m(2) cache_step_cached [OF ev(1), of m] by (cases "m = path_base p") auto
  with assms(1,6) w reg have "ps_disk s m = Content d \<or> (\<exists>ops'. (ops', event_path s m) \<in> set (ps_events s) \<and>
      ops' \<inter> {OpWrite, OpCreate, OpRemove, OpRename} \<noteq> {})" by (auto simp: cache_current_def)
  moreover have "(ops', event_path s m) \<noteq> (ops, p)"
    if "ops' \<inter> {OpWrite, OpCreate, OpRemove, OpRename} \<noteq> {}" for ops'
    using ev(3) m(2) proc base that by auto
  ultimately show "ps_disk s' m = Content d \<or> (\<exists>ops. (ops, event_path s' m) \<in> set (ps_events s') \<and>
      ops \<inter> {OpWrite, OpCreate, OpRemove, OpRename} \<noteq> {})"
    using assms(2,5,7) path by auto
qed

lemma cache_current_same:
  assumes "cache_current s" and "ps_disk s' = ps_disk s" and "ps_link s' = ps_link s" and "ps_events s' = ps_events s"
    and "fc_files (ps_cache s') = fc_files (ps_cache s)" and "fc_pattern (ps_cache s') = fc_pattern (ps_cache s)"
    and "fc_folder (ps_cache s') = fc_folder (ps_cache s)"
  shows "cache_current s'"
  using assms by (simp add: cache_current_def watched_def cached_def event_path_def)

lemma cache_current_disk:
  assumes "cache_current s" and "ops \<inter> {OpWrite, OpCreate, OpRemove, OpRename} \<noteq> {}"
  shows "cache_current (s\<lparr>ps_disk := (ps_disk s)(n := v), ps_link := (ps_link s)(n := k),
       ps_events := ps_events s @ [(ops, event_path s n)]\<rparr>)"
  using assms unfolding cache_current_def event_path_def by (auto simp del: ex_simps)

lemma cache_current_step:
  assumes "policy_step env s s'" and "cache_current s"
  shows "cache_current s'"
  using assms(1)
proof cases
  case (disk_change ops n k v)
  with assms(2) show ?thesis using cache_current_disk by blast
next
  case (link_change n v)
  with assms(2) show ?thesis by (auto simp: cache_current_def event_path_def)
next
  case (watch ops p evs c g)
  show ?thesis by (rule cache_current_watch [OF assms(2) watch(2,3)]) (simp_all add: watch(1))
next
  case (read_new n c res)
  show ?thesis by (rule cache_current_read [OF assms(2) read_new(3)]) (simp_all add: read_new(1))
next
  case (callback n c res)
  show ?thesis by (rule cache_current_read [OF assms(2) callback(3)]) (simp_all add: callback(1))
next
  case (ask n c res)
  show ?thesis by (rule cache_current_read [OF assms(2) ask(2)]) (simp_all add: ask(1))
qed (auto intro: cache_current_same [OF assms(2)])

text \<open>The second invariant.\<close>

lemma reload_ahead_mono:
  assumes "reload_ahead s" and "cache_step n (ps_cache s) (ps_cache s')"
    and "set (ps_fired s) \<union> set (ps_callbacks s) \<subseteq> set (ps_fired s') \<union> set (ps_callbacks s')"
    and "is_dirty (ps_cache s') n \<Longrightarrow>
      is_dirty (ps_cache s) n \<or> armed (ps_cache s') n"
  shows "reload_ahead s'"
  unfolding reload_ahead_def
proof (intro allI impI)
  fix m
  assume m: "is_dirty (ps_cache s') m"
  have keep: "armed (ps_cache s) m \<Longrightarrow>
      armed (ps_cache s') m"
    using assms(2) by (simp add: cache_step_def)
  have "is_dirty (ps_cache s) m \<or> armed (ps_cache s') m"
    using assms(4) m cache_step_dirty [OF assms(2), of m] by (cases "m = n") auto
  then show "armed (ps_cache s') m \<or> m \<in> set (ps_fired s') \<union> set (ps_callbacks s')"
    using keep assms(1,3) unfolding reload_ahead_def by blast
qed

lemma reload_ahead_read:
  assumes "reload_ahead s" and "readable s" and "filecache_Get (ps_disk s) (ps_cache s) n = (c, res)"
    and "ps_cache s' = c" and "ps_fired s' = ps_fired s" and "set (ps_callbacks s) - {n} \<subseteq> set (ps_callbacks s')"
  shows "reload_ahead s'"
proof -
  have "\<not> is_dirty c n" using filecache_Get_frame(5) [OF assms(3)] assms(2) by (auto simp: readable_def)
  moreover have "m \<noteq> n \<Longrightarrow> is_dirty c m = is_dirty (ps_cache s) m" for m
    using cache_step_Get [OF assms(3)] by (rule cache_step_dirty)
  moreover have "armed c m = armed (ps_cache s) m" for m
    using filecache_Get_frame(3) [OF assms(3)] by (simp add: armed_def)
  ultimately have "armed (ps_cache s') m \<or> m \<in> set (ps_fired s') \<union> set (ps_callbacks s')"
    if "is_dirty (ps_cache s') m" for m
    using that assms(1,4,5,6) by (cases "m = n") (auto simp: reload_ahead_def)
  then show ?thesis by (simp add: reload_ahead_def)
qed

lemma reload_ahead_same:
  assumes "reload_ahead s" and "ps_cache s' = ps_cache s" and "ps_callbacks s' = ps_callbacks s"
    and "ps_fired s' = ps_fired s"
  shows "reload_ahead s'"
  using assms by (simp add: reload_ahead_def)

lemma set_remove1_sub: "set xs - {x} \<subseteq> set (remove1 x xs)"
  by (metis Diff_iff in_set_remove1 insertCI subsetI)

lemma reload_ahead_timer:
  assumes "reload_ahead s"
  shows "reload_ahead ((with_cache ((ps_cache s)\<lparr>fc_queue := timer_fire (fc_queue (ps_cache s)) n\<rparr>) s)
       \<lparr>ps_fired := remove1 n (ps_fired s), ps_callbacks := ps_callbacks s @ [n]\<rparr>)"
  using assms set_remove1_sub [of "ps_fired s" n] by (auto simp: reload_ahead_def is_dirty_def)

lemma reload_ahead_expire:
  assumes "reload_ahead s"
  shows "reload_ahead ((with_cache ((ps_cache s)\<lparr>fc_queue := timer_expire (fc_queue (ps_cache s)) tm\<rparr>) s)
       \<lparr>ps_fired := ps_fired s @ [fst tm]\<rparr>)"
proof -
  have "armed ((ps_cache s)\<lparr>fc_queue := timer_expire (fc_queue (ps_cache s)) tm\<rparr>) n \<or> n = fst tm"
    if "armed (ps_cache s) n" for n
    using that set_remove1_sub [of "timers (fc_queue (ps_cache s))" tm] by (auto simp: armed_def timer_expire_def)
  with assms show ?thesis unfolding reload_ahead_def is_dirty_def by auto
qed

lemma reload_ahead_step:
  assumes "policy_step env s s'" and "reload_ahead s" and "readable s"
  shows "reload_ahead s'"
  using assms(1)
proof cases
  case (watch ops p evs c g)
  note ev = watch_event_step(1,2) [OF watch(3)]
  show ?thesis
    by (rule reload_ahead_mono [OF assms(2), of "path_base p"]) (use ev in \<open>simp_all add: watch(1)\<close>)
next
  case (read_new n c res)
  show ?thesis by (rule reload_ahead_read [OF assms(2,3) read_new(3)]) (auto simp: read_new(1))
next
  case (callback n c res)
  have "set (ps_callbacks s) - {n} \<subseteq> set (remove1 n (ps_callbacks s))" by (rule set_remove1_sub)
  then show ?thesis by (intro reload_ahead_read [OF assms(2,3) callback(3)]) (auto simp: callback(1))
next
  case (ask n c res)
  show ?thesis by (rule reload_ahead_read [OF assms(2,3) ask(2)]) (auto simp: ask(1))
next
  case (expire tm)
  then show ?thesis using reload_ahead_expire [OF assms(2)] by simp
next
  case (timer n)
  then show ?thesis using reload_ahead_timer [OF assms(2)] by simp
qed (auto intro: reload_ahead_same [OF assms(2)])

lemma policy_run_cache_current:
  "policy_run env P s0 s \<Longrightarrow> cache_current s0 \<Longrightarrow> cache_current s"
  by (induction rule: policy_run.induct) (auto intro: cache_current_step)

lemma policy_run_reload_ahead:
  "policy_run env readable s0 s \<Longrightarrow> reload_ahead s0 \<Longrightarrow> readable s0 \<Longrightarrow> reload_ahead s \<and> readable s"
  by (induction rule: policy_run.induct) (auto intro: reload_ahead_step)

subsection \<open>A file that is written in place\<close>

text \<open>The calls of \<^verbatim>\<open>GetRego\<close> for a file that have read it and have yet to take the mutex.\<close>

definition calls :: "string \<Rightarrow> 'q policy_sys \<Rightarrow> (string \<times> string option \<times> bool) list" where
  "calls n s = filter (\<lambda>x. fst x = n) (ps_inflight s)"

text \<open>
  The file is regular, always there and only ever written, all files can be read, and no two calls for it
  overlap.
\<close>

definition in_place :: "string \<Rightarrow> 'q policy_sys \<Rightarrow> bool" where
  "in_place n s \<longleftrightarrow> \<not> ps_link s n \<and> (case ps_disk s n of Content _ \<Rightarrow> True | _ \<Rightarrow> False) \<and>
     list_all (\<lambda>(ops, p). path_base p = n \<longrightarrow> OpRemove \<notin> ops \<and> OpRename \<notin> ops) (ps_events s) \<and>
     length (calls n s) \<le> 1"

definition written_in_place :: "string \<Rightarrow> 'q policy_sys \<Rightarrow> bool" where
  "written_in_place n s \<longleftrightarrow> readable s \<and> in_place n s"

text \<open>A policy is in force for the file, and it is the compilation of this content, if that compiles.\<close>

definition in_force :: "'q rego_env \<Rightarrow> ('c, 'q) RegoCache \<Rightarrow> string \<Rightarrow> string \<Rightarrow> bool" where
  "in_force env r n d \<longleftrightarrow> map_of (rc_regos r) n \<noteq> None \<and>
     (\<forall>q. compile_policy env (rc_debug r) n d = Inr q \<longrightarrow> map_of (rc_regos r) n = Some q)"

text \<open>
  The compiled policy follows the cached content: it is in force when no call is under way, and otherwise
  the one call carries that content.
\<close>

definition followed :: "'q rego_env \<Rightarrow> string \<Rightarrow> 'q policy_sys \<Rightarrow> bool" where
  "followed env n s \<longleftrightarrow> n \<notin> set (ps_spawned s) \<and> map_of (rc_regos (ps_rc s)) n \<noteq> None \<and>
     (\<exists>f. map_of (fc_files (ps_cache s)) n = Some f \<and>
        (calls n s = [] \<longrightarrow> in_force env (ps_rc s) n (data f)) \<and>
        (\<forall>dat u. calls n s = [(n, dat, u)] \<longrightarrow> dat = Some (data f) \<and> (\<not> u \<longrightarrow> in_force env (ps_rc s) n (data f))))"

lemma in_force_same:
  "map_of (rc_regos r') n = map_of (rc_regos r) n \<Longrightarrow> rc_debug r' = rc_debug r \<Longrightarrow> in_force env r' n d = in_force env r n d"
  by (simp add: in_force_def)

lemma with_cache_debug [simp]: "rc_debug (ps_rc (with_cache c s)) = rc_debug (ps_rc s)"
  by (simp add: with_cache_def)

lemma followed_same:
  assumes "followed env n s" and "n \<notin> set (ps_spawned s')" and "calls n s' = calls n s"
    and "map_of (rc_regos (ps_rc s')) n = map_of (rc_regos (ps_rc s)) n" and "rc_debug (ps_rc s') = rc_debug (ps_rc s)"
    and "\<And>f. map_of (fc_files (ps_cache s)) n = Some f \<Longrightarrow>
      \<exists>f'. map_of (fc_files (ps_cache s')) n = Some f' \<and> data f' = data f"
  shows "followed env n s'"
proof -
  obtain f where f: "map_of (fc_files (ps_cache s)) n = Some f"
    "calls n s = [] \<longrightarrow> in_force env (ps_rc s) n (data f)"
    "\<forall>dat u. calls n s = [(n, dat, u)] \<longrightarrow> dat = Some (data f) \<and> (\<not> u \<longrightarrow> in_force env (ps_rc s) n (data f))"
    using assms(1) unfolding followed_def by blast
  obtain f' where "map_of (fc_files (ps_cache s')) n = Some f'" "data f' = data f" using assms(6) [OF f(1)] by blast
  moreover have "in_force env (ps_rc s') n d = in_force env (ps_rc s) n d" for d
    using assms(4,5) by (rule in_force_same)
  ultimately show ?thesis using f assms(1-4) by (simp add: followed_def)
qed

text \<open>A turn of the watcher that is not about a removal keeps the content of a file that is known.\<close>

lemma watch_event_keeps_data:
  assumes "watch_event c Lstat now ops p = (c', g)" and "map_of (fc_files c) n = Some f"
    and "path_base p = n \<Longrightarrow> OpRemove \<notin> ops \<and> OpRename \<notin> ops"
  shows "n \<notin> set g" and "\<exists>f'. map_of (fc_files c') n = Some f' \<and> data f' = data f"
proof -
  have "set g \<subseteq> {path_base p}"
    using assms(1)
    by (auto simp: watch_event_def invalidate_def Let_def split: if_splits option.splits prod.splits)
  moreover have "n \<notin> set g \<and> (\<exists>f'. map_of (fc_files c') n = Some f' \<and> data f' = data f)" if "path_base p = n"
    using assms that
    by (auto simp: watch_event_def invalidate_def Let_def split: if_splits option.splits prod.splits)
  moreover have "map_of (fc_files c') n = map_of (fc_files c) n" if "path_base p \<noteq> n"
    using watch_event_step(1) [OF assms(1)] that by (simp add: cache_step_def)
  ultimately show "n \<notin> set g" and "\<exists>f'. map_of (fc_files c') n = Some f' \<and> data f' = data f"
    using assms(2) by fastforce+
qed

text \<open>The read of a call, the call that carries it on, and its end under the mutex.\<close>

lemma followed_read:
  assumes "followed env n s" and "written_in_place n s" and "written_in_place n s'"
    and "filecache_Get (ps_disk s) (ps_cache s) m = (c, res)" and "ps_cache s' = c" and "ps_spawned s' = ps_spawned s"
    and "map_of (rc_regos (ps_rc s')) n = map_of (rc_regos (ps_rc s)) n" and "rc_debug (ps_rc s') = rc_debug (ps_rc s)"
    and "ps_inflight s' = ps_inflight s @ carried m res"
  shows "followed env n s'"
proof (cases "m = n")
  case False
  have "calls n s' = calls n s"
    using False assms(9) by (auto simp: calls_def carried_def split: sum.splits)
  moreover have "map_of (fc_files c) n = map_of (fc_files (ps_cache s)) n"
    using False filecache_Get_frame(4) [OF assms(4)] by simp
  ultimately show ?thesis using assms(1,5-8) by (intro followed_same [OF assms(1)]) (auto simp: followed_def)
next
  case True
  obtain f where f: "map_of (fc_files (ps_cache s)) n = Some f" "calls n s = [] \<longrightarrow> in_force env (ps_rc s) n (data f)"
    using assms(1) unfolding followed_def by blast
  obtain d where d: "ps_disk s n = Content d"
    using assms(2) by (auto simp: written_in_place_def in_place_def split: fs_read.splits)
  obtain f' u where f': "map_of (fc_files c) n = Some f'" "res = Inr (Some (data f'), u)" "\<not> u \<Longrightarrow> f' = f"
  proof (cases "dirty f")
    case True
    with assms(4) f(1) d \<open>m = n\<close> that [of "\<lparr>dirty = False, data = d\<rparr>" True] show ?thesis
      by (auto simp: filecache_Get_def cache_read_def readFile_def)
  next
    case False
    with assms(4) f(1) \<open>m = n\<close> that [of f False] show ?thesis by (auto simp: filecache_Get_def)
  qed
  then have calls: "calls n s' = calls n s @ [(n, Some (data f'), u)]"
    using True assms(9) by (simp add: calls_def carried_def)
  then have "calls n s = []" using assms(3) by (simp add: written_in_place_def in_place_def)
  moreover have "in_force env (ps_rc s') n (data f) = in_force env (ps_rc s) n (data f)"
    using assms(7,8) by (rule in_force_same)
  ultimately show ?thesis using f f' calls assms(1,5-7) unfolding followed_def by auto
qed

lemma GetRego_locked_debug [simp]: "rc_debug (fst (GetRego_locked env r n dat u)) = rc_debug r"
  by (auto simp: GetRego_locked_def GetRego_compile_def split: option.splits sum.splits)

lemma GetRego_locked_other:
  "m \<noteq> n \<Longrightarrow> map_of (rc_regos (fst (GetRego_locked env r n dat u))) m = map_of (rc_regos r) m"
  by (auto simp: GetRego_locked_def GetRego_compile_def split: option.splits sum.splits)

lemma GetRego_locked_in_force:
  assumes "map_of (rc_regos r) n \<noteq> None" and "\<not> u \<Longrightarrow> in_force env r n d"
  shows "in_force env (fst (GetRego_locked env r n (Some d) u)) n d"
  using assms by (auto simp: in_force_def GetRego_locked_def GetRego_compile_def split: sum.splits)

lemma followed_commit:
  assumes "followed env n s" and "written_in_place n s" and "(m, dat, u) \<in> set (ps_inflight s)"
  shows "followed env n (s\<lparr>ps_rc := fst (GetRego_locked env (ps_rc s) m dat u),
     ps_inflight := remove1 (m, dat, u) (ps_inflight s)\<rparr>)" (is "followed env n ?s")
proof -
  have calls: "calls n ?s = remove1 (m, dat, u) (calls n s)" by (simp add: calls_def filter_remove1)
  show ?thesis
  proof (cases "m = n")
    case False
    then have "calls n ?s = calls n s" unfolding calls by (intro remove1_idem) (auto simp: calls_def)
    with False show ?thesis
      using assms(1) by (intro followed_same [OF assms(1)]) (auto simp: followed_def GetRego_locked_other)
  next
    case True
    then have "(n, dat, u) \<in> set (calls n s)" using assms(3) by (simp add: calls_def)
    then have one: "calls n s = [(n, dat, u)]"
      using assms(2) by (cases "calls n s") (auto simp: written_in_place_def in_place_def)
    obtain f where f: "map_of (fc_files (ps_cache s)) n = Some f" "dat = Some (data f)"
      "\<not> u \<longrightarrow> in_force env (ps_rc s) n (data f)" and some: "map_of (rc_regos (ps_rc s)) n \<noteq> None"
      using assms(1) one unfolding followed_def by blast
    have new: "in_force env (ps_rc ?s) n (data f)"
      using GetRego_locked_in_force [OF some, of u env "data f"] f(2,3) True by simp
    moreover have "calls n ?s = []" using calls one True by simp
    ultimately show ?thesis using assms(1) f(1) by (simp add: followed_def in_force_def)
  qed
qed

lemma followed_step:
  assumes "policy_step env s s'" and "followed env n s" and "written_in_place n s" and "written_in_place n s'"
  shows "followed env n s'"
proof -
  have unspawned: "n \<notin> set (ps_spawned s)" using assms(2) by (simp add: followed_def)
  from assms(1) show ?thesis
  proof cases
    case (watch ops p evs c g)
    have ev: "path_base p = n \<Longrightarrow> OpRemove \<notin> ops \<and> OpRename \<notin> ops"
      using assms(3) watch(2) by (auto simp: written_in_place_def in_place_def)
    have "n \<notin> set g" using assms(2) watch_event_keeps_data(1) [OF watch(3) _ ev] by (auto simp: followed_def)
    then show ?thesis
      using assms(2) watch_event_keeps_data(2) [OF watch(3) _ ev] watch(1)
      by (intro followed_same [OF assms(2)]) (auto simp: followed_def calls_def)
  next
    case (read_new m c res)
    then have "m \<noteq> n" using assms(2) by (auto simp: followed_def)
    then show ?thesis
      using assms(2) filecache_Get_frame(4) [OF read_new(3)] read_new(1)
      by (intro followed_same [OF assms(2)]) (auto simp: followed_def calls_def dest: notin_set_remove1)
  next
    case (callback m c res)
    show ?thesis by (rule followed_read [OF assms(2-4) callback(3)]) (simp_all add: callback(1))
  next
    case (ask m c res)
    show ?thesis by (rule followed_read [OF assms(2-4) ask(2)]) (simp_all add: ask(1))
  next
    case (commit m dat u)
    with followed_commit [OF assms(2,3)] show ?thesis by simp
  qed (use unspawned in \<open>auto intro!: followed_same [OF assms(2)] simp: calls_def\<close>)
qed

lemma policy_run_followed:
  "policy_run env (written_in_place n) s0 s \<Longrightarrow> followed env n s0 \<Longrightarrow> written_in_place n s0 \<Longrightarrow>
     followed env n s \<and> written_in_place n s"
  by (induction rule: policy_run.induct) (auto intro: followed_step)

lemma policy_run_readable:
  "policy_run env (written_in_place n) s0 s \<Longrightarrow> policy_run env readable s0 s"
  by (induction rule: policy_run.induct) (auto simp: written_in_place_def intro: policy_run.intros)

lemma cache_step_pattern: "policy_step env s s' \<Longrightarrow> fc_pattern (ps_cache s') = fc_pattern (ps_cache s)"
  by (induction rule: policy_step.induct)
    (auto dest: filecache_Get_frame(2) watch_event_step(1) simp: cache_step_def)

lemma policy_run_watched: "policy_run env P s0 s \<Longrightarrow> watched (ps_cache s) n = watched (ps_cache s0) n"
  by (induction rule: policy_run.induct) (auto dest: cache_step_pattern simp: watched_def)

section \<open>Executing the system\<close>

text \<open>A step by name, so that a run can be evaluated; \<open>None\<close> when the step is not possible.\<close>

datatype label =
    LDisk "fs_op set" string fs_read bool | LLink string fs_read | LWatch | LRead string | LExpire string nat | LTimer string | LCallback string | LAsk string
  | LCommit string "string option" bool | LTick nat

fun exec :: "'q rego_env \<Rightarrow> label \<Rightarrow> 'q policy_sys \<Rightarrow> 'q policy_sys option" where
  "exec env (LDisk ops n v k) s =
     (if ops \<inter> {OpWrite, OpCreate, OpRemove, OpRename} \<noteq> {}
      then Some (s\<lparr>ps_disk := (ps_disk s)(n := v), ps_link := (ps_link s)(n := k),
        ps_events := ps_events s @ [(ops, event_path s n)]\<rparr>)
      else None)"
| "exec env (LLink n v) s = (if ps_link s n then Some (s\<lparr>ps_disk := (ps_disk s)(n := v)\<rparr>) else None)"
| "exec env LWatch s =
     (case ps_events s of
        [] \<Rightarrow> None
      | (ops, p) # evs \<Rightarrow>
          (case watch_event (ps_cache s) (sys_lstat s) (ps_now s) ops p of
             (c, spawned) \<Rightarrow> Some ((with_cache c s)\<lparr>ps_events := evs, ps_spawned := ps_spawned s @ spawned\<rparr>)))"
| "exec env (LRead n) s =
     (if n \<in> set (ps_spawned s)
      then (case filecache_Get (ps_disk s) (ps_cache s) n of
          (c, res) \<Rightarrow> Some ((with_cache c s)\<lparr>ps_spawned := remove1 n (ps_spawned s)\<rparr>))
      else None)"
| "exec env (LExpire n t) s =
     (if due (fc_queue (ps_cache s)) (ps_now s) (n, t)
      then Some ((with_cache ((ps_cache s)\<lparr>fc_queue := timer_expire (fc_queue (ps_cache s)) (n, t)\<rparr>) s)
        \<lparr>ps_fired := ps_fired s @ [n]\<rparr>)
      else None)"
| "exec env (LTimer n) s =
     (if n \<in> set (ps_fired s)
      then Some ((with_cache ((ps_cache s)\<lparr>fc_queue := timer_fire (fc_queue (ps_cache s)) n\<rparr>) s)
        \<lparr>ps_fired := remove1 n (ps_fired s), ps_callbacks := ps_callbacks s @ [n]\<rparr>)
      else None)"
| "exec env (LCallback n) s =
     (if n \<in> set (ps_callbacks s)
      then (case filecache_Get (ps_disk s) (ps_cache s) n of
          (c, res) \<Rightarrow> Some ((with_cache c s)\<lparr>ps_callbacks := remove1 n (ps_callbacks s),
             ps_inflight := ps_inflight s @ carried n res\<rparr>))
      else None)"
| "exec env (LAsk n) s =
     (case filecache_Get (ps_disk s) (ps_cache s) n of
        (c, res) \<Rightarrow> Some ((with_cache c s)\<lparr>ps_inflight := ps_inflight s @ carried n res\<rparr>))"
| "exec env (LCommit n dat isdirty) s =
     (if (n, dat, isdirty) \<in> set (ps_inflight s)
      then Some (s\<lparr>ps_rc := fst (GetRego_locked env (ps_rc s) n dat isdirty),
        ps_inflight := remove1 (n, dat, isdirty) (ps_inflight s)\<rparr>)
      else None)"
| "exec env (LTick t) s = Some (s\<lparr>ps_now := ps_now s + t\<rparr>)"

fun execs :: "'q rego_env \<Rightarrow> label list \<Rightarrow> 'q policy_sys \<Rightarrow> 'q policy_sys option" where
  "execs env [] s = Some s"
| "execs env (l # ls) s = (case exec env l s of None \<Rightarrow> None | Some s' \<Rightarrow> execs env ls s')"

text \<open>The labels name the steps, all of them and nothing else.\<close>

lemma exec_step: "exec env l s = Some s' \<Longrightarrow> policy_step env s s'"
proof (cases l)
  case (LExpire n t)
  assume "exec env l s = Some s'"
  with LExpire policy_step.expire [of s "(n, t)"] show ?thesis by (auto split: if_splits)
qed (auto split: if_splits list.splits prod.splits intro: policy_step.intros)

lemma step_exec: "policy_step env s s' \<Longrightarrow> \<exists>l. exec env l s = Some s'"
proof (induction rule: policy_step.induct)
  case (disk_change ops s n k v)
  then show ?case by (intro exI [of _ "LDisk ops n v k"]) simp
next
  case (link_change s n v)
  then show ?case by (intro exI [of _ "LLink n v"]) simp
next
  case (watch s ops p evs c g)
  then show ?case by (intro exI [of _ LWatch]) simp
next
  case (read_new n s c res)
  then show ?case by (intro exI [of _ "LRead n"]) simp
next
  case (expire s tm)
  then show ?case by (intro exI [of _ "LExpire (fst tm) (snd tm)"]) simp
next
  case (timer n s)
  then show ?case by (intro exI [of _ "LTimer n"]) simp
next
  case (callback n s c res)
  then show ?case by (intro exI [of _ "LCallback n"]) simp
next
  case (ask s n c res)
  then show ?case by (intro exI [of _ "LAsk n"]) simp
next
  case (commit n dat u s)
  then show ?case by (intro exI [of _ "LCommit n dat u"]) simp
next
  case (tick s t)
  show ?case by (intro exI [of _ "LTick t"]) simp
qed

lemma exec_iff_step: "policy_step env s s' \<longleftrightarrow> (\<exists>l. exec env l s = Some s')"
  using exec_step step_exec by blast

lemma execs_run: "execs env ls s = Some s' \<Longrightarrow> policy_run env P s0 s \<Longrightarrow> (\<And>t. P t) \<Longrightarrow> policy_run env P s0 s'"
proof (induction ls arbitrary: s)
  case (Cons l ls)
  then obtain t where t: "exec env l s = Some t" "execs env ls t = Some s'" by (auto split: option.splits)
  have "policy_run env P s0 t"
    using Cons.prems(2) exec_step [OF t(1)] Cons.prems(3) by (rule policy_run.step)
  with Cons.IH [OF t(2)] Cons.prems(3) show ?case by blast
qed simp

text \<open>A run through states in which a file is written in place, checked on the way.\<close>

fun reads_ok :: "label \<Rightarrow> bool" where
  "reads_ok (LDisk _ _ (ReadError _) _) = False"
| "reads_ok (LLink _ (ReadError _)) = False"
| "reads_ok _ = True"

fun execs_in_place :: "'q rego_env \<Rightarrow> string \<Rightarrow> label list \<Rightarrow> 'q policy_sys \<Rightarrow> 'q policy_sys option" where
  "execs_in_place env n [] s = Some s"
| "execs_in_place env n (l # ls) s =
     (case exec env l s of
        None \<Rightarrow> None
      | Some s' \<Rightarrow> if reads_ok l \<and> in_place n s' then execs_in_place env n ls s' else None)"

lemma exec_readable: "exec env l s = Some s' \<Longrightarrow> reads_ok l \<Longrightarrow> readable s \<Longrightarrow> readable s'"
  by (cases l rule: reads_ok.cases) (auto simp: readable_def split: if_splits list.splits prod.splits)

lemma execs_in_place_run:
  "execs_in_place env n ls s = Some s' \<Longrightarrow> policy_run env (written_in_place n) s0 s \<Longrightarrow> written_in_place n s \<Longrightarrow>
     policy_run env (written_in_place n) s0 s'"
proof (induction ls arbitrary: s)
  case (Cons l ls)
  then obtain t where t: "exec env l s = Some t" "reads_ok l" "in_place n t" "execs_in_place env n ls t = Some s'"
    by (auto split: option.splits if_splits)
  have "written_in_place n t"
    using exec_readable [OF t(1,2)] t(3) Cons.prems(3) by (simp add: written_in_place_def)
  with Cons.IH [OF t(4)] policy_run.step [OF Cons.prems(2) exec_step [OF t(1)]] show ?case by blast
qed simp

text \<open>Nothing is queued, running or pending.\<close>

definition quiescent :: "'q policy_sys \<Rightarrow> bool" where
  "quiescent s \<longleftrightarrow> ps_events s = [] \<and> ps_spawned s = [] \<and> ps_fired s = [] \<and> ps_callbacks s = [] \<and>
     ps_inflight s = [] \<and> timers (fc_queue (ps_cache s)) = []"

text \<open>A quiescent start: one policy file, loaded and compiled.\<close>

definition sample_start :: "string policy_sys" where
  "sample_start =
     \<lparr>ps_disk = (\<lambda>n. if n = ''r.rego'' then Content ''package a'' else NotExist), ps_link = (\<lambda>_. False), ps_events = [],
      ps_rc = sample_regos (sample_cache ''package a'') ''package a'', ps_spawned = [], ps_fired = [], ps_callbacks = [],
      ps_inflight = [], ps_now = 0\<rparr>"

definition replaced :: "label list" where
  "replaced =
     [LDisk {OpRemove} ''r.rego'' NotExist False, LDisk {OpCreate} ''r.rego'' (Content ''package b'') False, LWatch, LWatch,
      LRead ''r.rego'', LTick 500, LExpire ''r.rego'' 500, LTimer ''r.rego'', LCallback ''r.rego'', LCommit ''r.rego'' (Some ''package b'') False]"

definition rewritten :: "label list" where
  "rewritten =
     [LDisk {OpWrite} ''r.rego'' (Content ''package b'') False, LWatch, LTick 500, LExpire ''r.rego'' 500, LTimer ''r.rego'',
      LCallback ''r.rego'', LCommit ''r.rego'' (Some ''package b'') True]"

definition overtaken :: "label list" where
  "overtaken =
     [LDisk {OpWrite} ''r.rego'' (Content ''package b'') False, LWatch, LAsk ''r.rego'',
      LDisk {OpWrite} ''r.rego'' (Content ''package c'') False, LWatch, LAsk ''r.rego'',
      LCommit ''r.rego'' (Some ''package c'') True, LCommit ''r.rego'' (Some ''package b'') True,
      LTick 500, LExpire ''r.rego'' 500, LTimer ''r.rego'', LCallback ''r.rego'', LCommit ''r.rego'' (Some ''package c'') False]"

text \<open>What a run ends in: quiescent, with this content on disk and in the cache and this policy in force.\<close>

definition ends_in :: "string policy_sys option \<Rightarrow> string \<Rightarrow> string \<Rightarrow> bool" where
  "ends_in so content policy =
     (case so of
        None \<Rightarrow> False
      | Some s \<Rightarrow> quiescent s \<and> ps_disk s ''r.rego'' = Content content \<and>
          cached (ps_cache s) ''r.rego'' = Some content \<and> map_of (rc_regos (ps_rc s)) ''r.rego'' = Some policy)"

lemma sample_start_current: "cache_current sample_start"
  by (simp add: cache_current_def sample_start_def sample_regos_def sample_cache_def cached_def)

lemma sample_start_reload: "reload_ahead sample_start \<and> readable sample_start"
  by (simp add: reload_ahead_def readable_def is_dirty_def sample_start_def sample_regos_def sample_cache_def)

section \<open>Properties\<close>

text \<open>
  C18. Requests read the current file. In every run of directory changes, watcher turns, timers,
  callbacks and requests, however they interleave, once the watcher has processed all events, the content
  that the file cache gives for a watched regular file is the content on disk. Every change of an entry of
  the directory is taken to be reported by an event; a symbolic link, whose target changes without one, is
  exempt.
\<close>

theorem drained_cache_is_current:
  assumes "policy_run env P s0 s" and "cache_current s0" and "ps_events s = []" and "watched (ps_cache s) n"
    and "\<not> ps_link s n" and "filecache_Get (ps_disk s) (ps_cache s) n = (c, Inr (Some d, updated))"
  shows "ps_disk s n = Content d"
proof -
  have cur: "cache_current s" using assms(1,2) by (rule policy_run_cache_current)
  have "cached (ps_cache s) n = Some d \<or> ps_disk s n = Content d"
    using assms(6) by (auto simp: filecache_Get_eq cache_read_def readFile_def split: option.splits fs_read.splits)
  with cur assms(3-5) show ?thesis by (auto simp: cache_current_def)
qed

theorem drained_cache_is_current_witness:
  "\<exists>s. policy_run sample_rego_env (\<lambda>_. True) sample_start s \<and>
     filecache_Get (ps_disk s) (ps_cache s) ''r.rego'' = (ps_cache s, Inr (Some ''package c'', False)) \<and>
     ps_disk s ''r.rego'' = Content ''package c''"
proof -
  have "case execs sample_rego_env (take 6 overtaken) sample_start of None \<Rightarrow> False
      | Some s \<Rightarrow> ps_events s = [] \<and> watched (ps_cache s) ''r.rego'' \<and> \<not> ps_link s ''r.rego'' \<and>
          cached (ps_cache s) ''r.rego'' = Some ''package c''"
    by code_simp
  then obtain s where s: "execs sample_rego_env (take 6 overtaken) sample_start = Some s" "ps_events s = []"
    "watched (ps_cache s) ''r.rego''" "\<not> ps_link s ''r.rego''" "cached (ps_cache s) ''r.rego'' = Some ''package c''"
    by (auto simp del: execs.simps split: option.splits)
  have run: "policy_run sample_rego_env (\<lambda>_. True) sample_start s"
    using s(1) policy_run.start by (rule execs_run) simp
  have get: "filecache_Get (ps_disk s) (ps_cache s) ''r.rego'' = (ps_cache s, Inr (Some ''package c'', False))"
    using s(5) by (simp add: filecache_Get_eq)
  from run get drained_cache_is_current [OF run sample_start_current s(2-4) get] show ?thesis by blast
qed

text \<open>
  C19. No change is forgotten. In every run in which files can be read, a file that is marked dirty has a
  reload ahead: a timer that runs, the function of an expired timer, or a callback that has not read it yet.
\<close>

theorem dirty_files_are_reloaded:
  assumes "policy_run env readable s0 s" and "reload_ahead s0" and "readable s0" and "is_dirty (ps_cache s) n"
  shows "armed (ps_cache s) n \<or> n \<in> set (ps_fired s) \<union> set (ps_callbacks s)"
  using policy_run_reload_ahead [OF assms(1-3)] assms(4) by (auto simp: reload_ahead_def)

theorem dirty_files_are_reloaded_witness:
  "\<exists>s. policy_run sample_rego_env readable sample_start s \<and> is_dirty (ps_cache s) ''r.rego'' \<and>
     (armed (ps_cache s) ''r.rego'' \<or> ''r.rego'' \<in> set (ps_fired s) \<union> set (ps_callbacks s))"
proof -
  have "case exec sample_rego_env (LDisk {OpWrite} ''r.rego'' (Content ''package b'') False) sample_start of None \<Rightarrow> False
      | Some s1 \<Rightarrow> (case exec sample_rego_env LWatch s1 of None \<Rightarrow> False | Some s2 \<Rightarrow> is_dirty (ps_cache s2) ''r.rego'')"
    by code_simp
  then obtain s1 s2 where s: "exec sample_rego_env (LDisk {OpWrite} ''r.rego'' (Content ''package b'') False) sample_start = Some s1"
    "exec sample_rego_env LWatch s1 = Some s2" "is_dirty (ps_cache s2) ''r.rego''"
    by (auto split: option.splits)
  have "readable s1" using s(1) sample_start_reload by (auto simp: readable_def split: if_splits)
  moreover have "readable s2"
    using calculation s(2) by (auto simp: readable_def split: list.splits prod.splits)
  ultimately have "policy_run sample_rego_env readable sample_start s2"
    using exec_step [OF s(1)] exec_step [OF s(2)] by (meson policy_run.intros)
  with dirty_files_are_reloaded [OF this _ _ s(3)] sample_start_reload s(3) show ?thesis by blast
qed



text \<open>
  C40. A replaced policy file may never take effect. When a file is removed and created again within the
  delay, the goroutine that the watcher starts for the new file consumes the update, the callback sees a
  clean file and keeps the compiled policy: the system comes to rest with the old policy in force for
  the new content.
\<close>

theorem replaced_file_keeps_old_policy:
  "\<exists>s. policy_run sample_rego_env (\<lambda>_. True) sample_start s \<and> quiescent s \<and>
     ps_disk s ''r.rego'' = Content ''package b'' \<and> map_of (rc_regos (ps_rc s)) ''r.rego'' = Some ''package a'' \<and>
     compile_policy sample_rego_env False ''r.rego'' ''package b'' = Inr ''package b''"
proof -
  have "ends_in (execs sample_rego_env replaced sample_start) ''package b'' ''package a''" by code_simp
  then obtain s where s: "execs sample_rego_env replaced sample_start = Some s" "quiescent s"
    "ps_disk s ''r.rego'' = Content ''package b''" "map_of (rc_regos (ps_rc s)) ''r.rego'' = Some ''package a''"
    by (auto simp: ends_in_def split: option.splits)
  have "policy_run sample_rego_env (\<lambda>_. True) sample_start s"
    using s(1) policy_run.start by (rule execs_run) simp
  moreover have "package_of ''package b'' = ''b''" by code_simp
  then have "compile_policy sample_rego_env False ''r.rego'' ''package b'' = Inr ''package b''"
    by (simp add: compile_policy_def sample_rego_env_def)
  ultimately show ?thesis using s by blast
qed

text \<open>
  Two overlapping reloads may install the older policy. \<^verbatim>\<open>GetRego\<close> reads the file before it takes
  the mutex of the compiled policies; when a later read is compiled first, the earlier one overwrites it,
  and the system comes to rest with the policy of the content before the last.
\<close>

theorem overlapping_reloads_install_old_policy:
  "\<exists>s. policy_run sample_rego_env (\<lambda>_. True) sample_start s \<and> quiescent s \<and>
     ps_disk s ''r.rego'' = Content ''package c'' \<and> map_of (rc_regos (ps_rc s)) ''r.rego'' = Some ''package b''"
proof -
  have "ends_in (execs sample_rego_env overtaken sample_start) ''package c'' ''package b''" by code_simp
  then obtain s where s: "execs sample_rego_env overtaken sample_start = Some s" "quiescent s"
    "ps_disk s ''r.rego'' = Content ''package c''" "map_of (rc_regos (ps_rc s)) ''r.rego'' = Some ''package b''"
    by (auto simp: ends_in_def split: option.splits)
  have "policy_run sample_rego_env (\<lambda>_. True) sample_start s"
    using s(1) policy_run.start by (rule execs_run) simp
  with s show ?thesis by blast
qed

end
