(* ===== verification/No_Auth.thy ===== *)
theory No_Auth
  imports Auth_Provider
begin

text \<open>
  \<^verbatim>\<open>internal/noauth\<close>: the provider that authenticates nobody. A value of the pointer type
  \<^verbatim>\<open>*NoAuthProvider\<close> is an option, \<open>None\<close> being nil; the method does not read its receiver.
\<close>

type_synonym NoAuthProvider = "unit option"

definition noauth_New :: "bool \<Rightarrow> NoAuthProvider" where
  "noauth_New permissive = (if permissive then None else Some ())"

definition noauth_Authenticate :: "NoAuthProvider authenticator" where
  "noauth_Authenticate b info _ = Done (b, info, None)"

interpretation noauth: auth_provider noauth_Authenticate "\<lambda>_. True"
  by unfold_locales (auto simp: noauth_Authenticate_def)

end
