(* ===== verification/Basic_Auth.thy ===== *)
theory Basic_Auth
  imports Auth_Provider "HOL-Library.Word"
begin

text \<open>
  \<^verbatim>\<open>internal/basicauth\<close>: the htpasswd loader, password verification with its cache, the provider,
  and the watcher that replaces the credentials. bcrypt, the ristretto cache, the seeded hash, the
  file system and the watcher's event source are not part of the sources: they are the fields of
  \<open>basic_env\<close>. What the program relies on of the cache is \<open>lossy_cache\<close>: it returns only what was
  stored last, may lose entries at any time, and \<^verbatim>\<open>Clear\<close> empties it.
\<close>

section \<open>Data\<close>

type_synonym credMap = "(string, string) gomap"

record 'c basic_env =
  bcrypt_Cost :: "string \<Rightarrow> int option"
  bcrypt_Compare :: "string \<Rightarrow> string \<Rightarrow> bool"
  maphash_Sum64 :: "64 word \<Rightarrow> string \<Rightarrow> 64 word"
  cache_Get :: "'c \<Rightarrow> 64 word \<Rightarrow> bool option"
  cache_SetWithTTL :: "'c \<Rightarrow> 64 word \<Rightarrow> bool \<Rightarrow> 'c"
  cache_Clear :: "'c \<Rightarrow> 'c"

record 'c BasicAuthProvider =
  ba_filePath :: string
  ba_creds :: credMap
  ba_permissive :: bool
  ba_watcher :: bool
  ba_cache :: "'c option"
  ba_seed :: "64 word"

definition lossy_cache :: "'c basic_env \<Rightarrow> bool" where
  "lossy_cache env \<longleftrightarrow>
     (\<forall>c k v k' b. cache_Get env (cache_SetWithTTL env c k v) k' = Some b \<longrightarrow>
        (if k' = k then b = v else cache_Get env c k' = Some b)) \<and>
     (\<forall>c k. cache_Get env (cache_Clear env c) k = None)"

section \<open>Loading credentials\<close>

definition minAllowedCost :: int where "minAllowedCost = 10"

text \<open>
  \<^verbatim>\<open>bufio.Scanner\<close> with its default split function: lines end at a newline, one carriage return
  before it is dropped, a last line without newline counts when it is not empty, and a line of more
  than 65535 bytes is the error \<^verbatim>\<open>bufio.ErrTooLong\<close>.
\<close>

definition scan_raw :: "string \<Rightarrow> string list" where
  "scan_raw s = (let ls = split_on (CHR 0x0A) s in if last ls = [] then butlast ls else ls)"

definition drop_cr :: "string \<Rightarrow> string" where
  "drop_cr l = (if l \<noteq> [] \<and> last l = CHR 0x0D then butlast l else l)"

definition scan_lines :: "string \<Rightarrow> goerror + string list" where
  "scan_lines s =
     (let ls = scan_raw s in
      if \<exists>l \<in> set ls. 65535 < length l then Inl (ErrText ''bufio.Scanner: token too long'')
      else Inr (map drop_cr ls))"

definition bcrypt_format :: "string \<Rightarrow> bool" where
  "bcrypt_format h \<longleftrightarrow> has_prefix h ''$2y$'' \<or> has_prefix h ''$2b$'' \<or> has_prefix h ''$2a$''"

text \<open>The loop body of \<^verbatim>\<open>loadFile\<close>: one scanned line against the credentials read so far.\<close>

definition load_line :: "(string \<Rightarrow> int option) \<Rightarrow> string \<Rightarrow> credMap \<Rightarrow> credMap" where
  "load_line Cost text creds =
     (let line = trim_space text in
      if line = [] \<or> has_prefix line ''#'' then creds
      else
       (let colonIdx = index_byte line (CHR '':'') in
        if colonIdx < 0 then creds
        else
         (let username = take (nat colonIdx) line; hash = drop (nat colonIdx + 1) line in
          if bcrypt_format hash
          then (case Cost hash of
              None \<Rightarrow> creds
            | Some cost \<Rightarrow> if cost < minAllowedCost then creds else map_put username hash creds)
          else creds)))"

fun load_lines :: "(string \<Rightarrow> int option) \<Rightarrow> string list \<Rightarrow> credMap \<Rightarrow> credMap" where
  "load_lines Cost [] creds = creds"
| "load_lines Cost (l # ls) creds = load_lines Cost ls (load_line Cost l creds)"

text \<open>\<^verbatim>\<open>loadFile\<close>; the argument is what opening and reading the file gives.\<close>

definition loadFile :: "(string \<Rightarrow> int option) \<Rightarrow> goerror + string \<Rightarrow> goerror + credMap" where
  "loadFile Cost content =
     (case content of
        Inl e \<Rightarrow> Inl (ErrWrap ''basicauth: cannot open file'' e)
      | Inr s \<Rightarrow>
          (case scan_lines s of
             Inl e \<Rightarrow> Inl (ErrWrap ''basicauth: error reading file'' e)
           | Inr ls \<Rightarrow>
               (let creds = load_lines Cost ls [] in
                if length creds = 0
                then Inl (ErrText ''basicauth: no valid credentials found in file'')
                else Inr creds)))"

section \<open>The provider\<close>

text \<open>
  \<^verbatim>\<open>New\<close>; the arguments after the path say whether a watcher could be created, whether it could watch
  the file, the cache that was created (if any) and the seed. A nil result is \<open>None\<close>.
\<close>

definition basicauth_New ::
  "'c basic_env \<Rightarrow> (string \<Rightarrow> goerror + string) \<Rightarrow> bool \<Rightarrow> bool \<Rightarrow> 'c option \<Rightarrow> 64 word
    \<Rightarrow> string \<Rightarrow> bool \<Rightarrow> 'c BasicAuthProvider option" where
  "basicauth_New env open_file new_watcher watch_added new_cache MakeSeed filePath permissive =
     (case loadFile (bcrypt_Cost env) (open_file filePath) of
        Inl _ \<Rightarrow> None
      | Inr creds \<Rightarrow>
          if \<not> new_watcher then None
          else Some \<lparr>ba_filePath = filePath, ba_creds = creds, ba_permissive = permissive,
                 ba_watcher = watch_added, ba_cache = new_cache, ba_seed = MakeSeed\<rparr>)"

text \<open>The bytes written to the hash.\<close>

definition cacheKeyText :: "string \<Rightarrow> string \<Rightarrow> string" where
  "cacheKeyText user password = user @ '':'' @ password"

definition createCacheKey :: "'c basic_env \<Rightarrow> 'c BasicAuthProvider \<Rightarrow> string \<Rightarrow> string \<Rightarrow> 64 word" where
  "createCacheKey env b user password = maphash_Sum64 env (ba_seed b) (cacheKeyText user password)"

definition verifyPassword ::
  "'c basic_env \<Rightarrow> 'c BasicAuthProvider \<Rightarrow> string \<Rightarrow> string \<Rightarrow> string
    \<Rightarrow> 'c BasicAuthProvider \<times> goerror option" where
  "verifyPassword env b user hash password =
     (let cacheKey = createCacheKey env b user password in
      case (case ba_cache b of None \<Rightarrow> None | Some c \<Rightarrow> cache_Get env c cacheKey) of
        Some valid \<Rightarrow> (b, if \<not> valid then Some ErrAuthenticationFailed else None)
      | None \<Rightarrow>
          (let ok = bcrypt_Compare env hash password;
               b' = (case ba_cache b of
                   None \<Rightarrow> b
                 | Some c \<Rightarrow> b\<lparr>ba_cache := Some (cache_SetWithTTL env c cacheKey ok)\<rparr>)
           in (b', if ok then None else Some (ErrText ''bcrypt: mismatch''))))"

definition handleFailure :: "bool \<Rightarrow> goerror option" where
  "handleFailure permissive = (if permissive then None else Some ErrAuthenticationFailed)"

definition clear_password :: "Info \<Rightarrow> Info" where
  "clear_password info = info\<lparr>Request := (Request info)\<lparr>ri_Auth :=
     map_option (\<lambda>a. a\<lparr>Password := []\<rparr>) (ri_Auth (Request info))\<rparr>\<rparr>"

text \<open>\<^verbatim>\<open>Authenticate\<close>; a deferred call clears the password on every return after the first one.\<close>

definition basic_Authenticate :: "'c basic_env \<Rightarrow> 'c BasicAuthProvider authenticator" where
  "basic_Authenticate env b info r =
     (case ri_Auth (Request info) of
        None \<Rightarrow> Done (b, info, None)
      | Some auth \<Rightarrow>
          if \<not> equal_fold (Kind auth) ''basic'' then Done (b, info, None)
          else if auth_User auth = [] then Done (b, clear_password info, handleFailure (ba_permissive b))
          else (case map_of (ba_creds b) (auth_User auth) of
              None \<Rightarrow> Done (b, clear_password info, handleFailure (ba_permissive b))
            | Some hash \<Rightarrow>
                (case verifyPassword env b (auth_User auth) hash (Password auth) of
                   (b', Some _) \<Rightarrow> Done (b', clear_password info, Some ErrAuthenticationFailed)
                 | (b', None) \<Rightarrow>
                     Done (b', clear_password (info\<lparr>User := VString (auth_User auth)\<rparr>), None))))"

text \<open>The method called through a \<^verbatim>\<open>*BasicAuthProvider\<close> that may be nil: the receiver is read only after the
  anonymous case.\<close>

definition basic_Authenticate_ptr :: "'c basic_env \<Rightarrow> 'c BasicAuthProvider option authenticator" where
  "basic_Authenticate_ptr env bp info r =
     (case bp of
        Some b \<Rightarrow> bind_outcome (basic_Authenticate env b info r) (\<lambda>(b', i, e). Done (Some b', i, e))
      | None \<Rightarrow>
          (case ri_Auth (Request info) of
             None \<Rightarrow> Done (None, info, None)
           | Some auth \<Rightarrow>
               if \<not> equal_fold (Kind auth) ''basic'' then Done (None, info, None)
               else Panic ''nil pointer dereference''))"

definition basic_WWWAuthenticate :: string where
  "basic_WWWAuthenticate = ''Basic realm='' @ [CHR 0x22] @ ''rest-rego'' @ [CHR 0x22]"

section \<open>The watcher\<close>

datatype fsnotify_op = FsWrite | FsCreate | FsRemove | FsRename | FsChmod

datatype fsnotify_event = Event "fsnotify_op set" "goerror + string" | WatchError

text \<open>
  One turn of the loop of \<^verbatim>\<open>startWatcher\<close>; an event carries what reading the file at that moment
  gives.
\<close>

fun watcher_step :: "'c basic_env \<Rightarrow> 'c BasicAuthProvider \<Rightarrow> fsnotify_event \<Rightarrow> 'c BasicAuthProvider" where
  "watcher_step env b (Event ops content) =
     (if FsWrite \<in> ops \<or> FsCreate \<in> ops
      then (case loadFile (bcrypt_Cost env) content of
          Inl _ \<Rightarrow> b
        | Inr newCreds \<Rightarrow>
            b\<lparr>ba_creds := newCreds, ba_cache := map_option (cache_Clear env) (ba_cache b)\<rparr>)
      else b)"
| "watcher_step env b WatchError = b"

fun startWatcher :: "'c basic_env \<Rightarrow> 'c BasicAuthProvider \<Rightarrow> fsnotify_event list \<Rightarrow> 'c BasicAuthProvider" where
  "startWatcher env b [] = b"
| "startWatcher env b (ev # evs) = startWatcher env (watcher_step env b ev) evs"

section \<open>Specifications\<close>

text \<open>What loading guarantees of every credential.\<close>

definition creds_ok :: "(string \<Rightarrow> int option) \<Rightarrow> credMap \<Rightarrow> bool" where
  "creds_ok Cost creds \<longleftrightarrow> map_wf creds \<and>
     (\<forall>(u, h) \<in> set creds. CHR '':'' \<notin> set u \<and> bcrypt_format h \<and>
        (\<exists>c. Cost h = Some c \<and> minAllowedCost \<le> c))"

text \<open>An htpasswd entry that the loader accepts, and the file an operator writes for a list of them.\<close>

definition entry_ok :: "(string \<Rightarrow> int option) \<Rightarrow> string \<times> string \<Rightarrow> bool" where
  "entry_ok Cost = (\<lambda>(u, h). u \<noteq> [] \<and> hd u \<noteq> CHR ''#'' \<and> CHR '':'' \<notin> set u \<and>
     list_all visible u \<and> list_all visible h \<and> bcrypt_format h \<and>
     (\<exists>c. Cost h = Some c \<and> minAllowedCost \<le> c) \<and> length u + length h < 65535)"

definition entry_line :: "string \<times> string \<Rightarrow> string" where
  "entry_line = (\<lambda>(u, h). u @ '':'' @ h)"

definition htpasswd :: "(string \<times> string) list \<Rightarrow> string" where
  "htpasswd es = concat (map (\<lambda>e. entry_line e @ [CHR 0x0A]) es)"

text \<open>\<^verbatim>\<open>Authenticate\<close> without a cache: every password is compared with the stored hash.\<close>

definition basic_spec :: "(string \<Rightarrow> string \<Rightarrow> bool) \<Rightarrow> credMap \<Rightarrow> bool \<Rightarrow> Info \<Rightarrow> Info \<times> goerror option" where
  "basic_spec Compare creds permissive info =
     (case ri_Auth (Request info) of
        None \<Rightarrow> (info, None)
      | Some a \<Rightarrow>
          if \<not> equal_fold (Kind a) ''basic'' then (info, None)
          else if auth_User a \<in> fst ` set creds - {[]}
          then (if Compare (the (map_of creds (auth_User a))) (Password a)
                then (clear_password (info\<lparr>User := VString (auth_User a)\<rparr>), None)
                else (clear_password info, Some ErrAuthenticationFailed))
          else (clear_password info, if permissive then None else Some ErrAuthenticationFailed))"

text \<open>
  The cache agrees with the credentials on the user and password pairs \<open>A\<close> that are ever presented.
\<close>

definition cache_sound :: "'c basic_env \<Rightarrow> (string \<times> string) set \<Rightarrow> 'c BasicAuthProvider \<Rightarrow> bool" where
  "cache_sound env A b \<longleftrightarrow>
     (\<forall>c u p h v. ba_cache b = Some c \<longrightarrow> (u, p) \<in> A \<longrightarrow> map_of (ba_creds b) u = Some h \<longrightarrow>
        cache_Get env c (createCacheKey env b u p) = Some v \<longrightarrow> v = bcrypt_Compare env h p)"

text \<open>No two presented pairs have the same 64-bit key; user names have no colon.\<close>

definition keys_distinct :: "'c basic_env \<Rightarrow> 64 word \<Rightarrow> (string \<times> string) set \<Rightarrow> bool" where
  "keys_distinct env seed A \<longleftrightarrow>
     (\<forall>(u, p) \<in> A. CHR '':'' \<notin> set u) \<and>
     inj_on (maphash_Sum64 env seed) ((\<lambda>(u, p). cacheKeyText u p) ` A)"

definition presented :: "Info \<Rightarrow> (string \<times> string) set" where
  "presented info = (case ri_Auth (Request info) of None \<Rightarrow> {} | Some a \<Rightarrow> {(auth_User a, Password a)})"

text \<open>Calls and reloads one after the other, with the answers of the calls.\<close>

datatype basic_op = Login Info request | Reload fsnotify_event

fun basic_run :: "'c basic_env \<Rightarrow> 'c BasicAuthProvider \<Rightarrow> basic_op list
    \<Rightarrow> 'c BasicAuthProvider \<times> (Info \<times> goerror option) outcome list" where
  "basic_run env b [] = (b, [])"
| "basic_run env b (Login i r # ops) =
     (case basic_Authenticate env b i r of
        Done (b', i', e) \<Rightarrow> (let (b'', outs) = basic_run env b' ops in (b'', Done (i', e) # outs))
      | Panic m \<Rightarrow> (b, [Panic m]))"
| "basic_run env b (Reload ev # ops) = basic_run env (watcher_step env b ev) ops"

text \<open>The same sequence against the specification; only the credentials are state.\<close>

fun spec_run :: "'c basic_env \<Rightarrow> credMap \<Rightarrow> bool \<Rightarrow> basic_op list \<Rightarrow> (Info \<times> goerror option) outcome list" where
  "spec_run env creds perm [] = []"
| "spec_run env creds perm (Login i r # ops) =
     Done (basic_spec (bcrypt_Compare env) creds perm i) # spec_run env creds perm ops"
| "spec_run env creds perm (Reload ev # ops) =
     spec_run env
       (case ev of
          WatchError \<Rightarrow> creds
        | Event os content \<Rightarrow>
            if FsWrite \<in> os \<or> FsCreate \<in> os
            then (case loadFile (bcrypt_Cost env) content of Inl _ \<Rightarrow> creds | Inr new \<Rightarrow> new)
            else creds) perm ops"

text \<open>
  Concurrent calls. A verification reads the credentials and misses the cache in one step; the
  bcrypt comparison takes long, and its result is stored in a later step. The watcher may run in
  between.
\<close>

record 'c basic_sys =
  bs_prov :: "'c BasicAuthProvider"
  bs_inflight :: "(string \<times> string \<times> string) list"

inductive basic_step :: "'c basic_env \<Rightarrow> 'c basic_sys \<Rightarrow> 'c basic_sys \<Rightarrow> bool" for env where
  verify_begin:
    "map_of (ba_creds (bs_prov s)) u = Some h \<Longrightarrow> ba_cache (bs_prov s) = Some c \<Longrightarrow>
     cache_Get env c (createCacheKey env (bs_prov s) u p) = None \<Longrightarrow>
     basic_step env s (s\<lparr>bs_inflight := (u, h, p) # bs_inflight s\<rparr>)"
| verify_end:
    "(u, h, p) \<in> set (bs_inflight s) \<Longrightarrow> ba_cache (bs_prov s) = Some c \<Longrightarrow>
     basic_step env s
       (s\<lparr>bs_prov := (bs_prov s)\<lparr>ba_cache := Some (cache_SetWithTTL env c
            (createCacheKey env (bs_prov s) u p) (bcrypt_Compare env h p))\<rparr>,
          bs_inflight := remove1 (u, h, p) (bs_inflight s)\<rparr>)"
| reload:
    "basic_step env s (s\<lparr>bs_prov := watcher_step env (bs_prov s) ev\<rparr>)"

section \<open>Lemmas on loading\<close>

lemma load_line_ok: "creds_ok Cost creds \<Longrightarrow> creds_ok Cost (load_line Cost l creds)"
proof -
  assume ok: "creds_ok Cost creds"
  define line where "line = trim_space l"
  define i where "i = index_byte line (CHR '':'')"
  have "CHR '':'' \<notin> set (take (nat i) line)" if "\<not> i < 0"
  proof -
    from that have "CHR '':'' \<in> set line" using index_byte_neg i_def by metis
    then obtain a b where ab: "line = a @ CHR '':'' # b" "CHR '':'' \<notin> set a"
      using split_list_first by metis
    then have "nat i = length a" by (simp add: i_def index_byte_append)
    with ab show ?thesis by simp
  qed
  with ok show ?thesis
    unfolding load_line_def line_def [symmetric] i_def [symmetric] Let_def creds_ok_def
    by (auto split: option.splits dest!: map_put_cases)
qed

lemma load_lines_ok: "creds_ok Cost creds \<Longrightarrow> creds_ok Cost (load_lines Cost ls creds)"
  by (induction Cost ls creds rule: load_lines.induct) (auto intro: load_line_ok)

subsection \<open>Reading back a file of entries\<close>

lemma bcrypt_format_nonempty: "bcrypt_format h \<Longrightarrow> h \<noteq> []"
  by (auto simp: bcrypt_format_def has_prefix_iff)

lemma load_line_entry:
  assumes "entry_ok Cost (u, h)"
  shows "load_line Cost (entry_line (u, h)) creds = map_put u h creds"
proof -
  have h: "h \<noteq> []" using assms bcrypt_format_nonempty by (auto simp: entry_ok_def)
  have trim: "trim_space (u @ CHR '':'' # h) = u @ CHR '':'' # h"
  proof (rule trim_space_visible)
    show "visible (hd (u @ CHR '':'' # h))"
      using assms by (cases u) (auto simp: entry_ok_def)
    show "visible (last (u @ CHR '':'' # h))"
      using assms h by (auto simp: entry_ok_def list_all_iff)
  qed simp
  have "\<not> has_prefix (u @ CHR '':'' # h) ''#''"
    using assms by (cases u) (auto simp: entry_ok_def has_prefix_def)
  with assms trim show ?thesis
    by (auto simp: load_line_def entry_line_def entry_ok_def Let_def index_byte_append)
qed

lemma load_lines_entries:
  "\<forall>e \<in> set es. entry_ok Cost e \<Longrightarrow>
    load_lines Cost (map entry_line es) creds = fold (\<lambda>(u, h). map_put u h) es creds"
  by (induction es arbitrary: creds) (auto simp: load_line_entry)

lemma visible_no_newline: "visible c \<Longrightarrow> c \<noteq> CHR 0x0A \<and> c \<noteq> CHR 0x0D"
  by (auto simp: visible_def)

lemma entry_line_chars:
  assumes "entry_ok Cost e"
  shows "CHR 0x0A \<notin> set (entry_line e)" and "CHR 0x0D \<notin> set (entry_line e)"
    and "length (entry_line e) \<le> 65535"
  using assms visible_no_newline
  by (auto simp: entry_ok_def entry_line_def list_all_iff split: prod.splits)

lemma split_htpasswd:
  "\<forall>e \<in> set es. entry_ok Cost e \<Longrightarrow> split_on (CHR 0x0A) (htpasswd es) = map entry_line es @ [[]]"
proof (induction es)
  case (Cons e es)
  then have "CHR 0x0A \<notin> set (entry_line e)" using entry_line_chars(1) [of Cost e] by simp
  with Cons show ?case by (simp add: htpasswd_def split_on_append)
qed (simp add: htpasswd_def)

lemma scan_htpasswd:
  assumes "\<forall>e \<in> set es. entry_ok Cost e"
  shows "scan_lines (htpasswd es) = Inr (map entry_line es)"
proof -
  have "drop_cr (entry_line e) = entry_line e" if "e \<in> set es" for e
    using assms that entry_line_chars(2) [of Cost e] last_in_set
    by (fastforce simp: drop_cr_def)
  moreover have "\<not> (\<exists>l \<in> set (map entry_line es). 65535 < length l)"
    using assms entry_line_chars(3) by fastforce
  ultimately show ?thesis
    by (simp add: scan_lines_def scan_raw_def split_htpasswd [OF assms] Let_def)
qed

lemma load_single_entry:
  assumes "entry_ok Cost (u, h)"
  shows "loadFile Cost (Inr (htpasswd [(u, h)])) = Inr [(u, h)]"
proof -
  have "\<forall>e \<in> set [(u, h)]. entry_ok Cost e" using assms by simp
  from scan_htpasswd [OF this] load_lines_entries [OF this, of "[]"] show ?thesis
    by (simp add: loadFile_def Let_def)
qed

section \<open>Lemmas on the cache key\<close>

lemma cacheKeyText_inject:
  assumes "CHR '':'' \<notin> set u" and "CHR '':'' \<notin> set u'"
  shows "cacheKeyText u p = cacheKeyText u' p' \<longleftrightarrow> u = u' \<and> p = p'"
proof
  assume "cacheKeyText u p = cacheKeyText u' p'"
  then have "splitn2 (CHR '':'') (cacheKeyText u p) = splitn2 (CHR '':'') (cacheKeyText u' p')"
    by simp
  with assms show "u = u' \<and> p = p'" by (simp add: cacheKeyText_def splitn2_sep)
qed simp

lemma createCacheKey_inject:
  assumes "keys_distinct env (ba_seed b) A" and "(u, p) \<in> A" and "(u', p') \<in> A"
  shows "createCacheKey env b u p = createCacheKey env b u' p' \<longleftrightarrow> u = u' \<and> p = p'"
proof -
  have "CHR '':'' \<notin> set u" "CHR '':'' \<notin> set u'"
    using assms by (auto simp: keys_distinct_def)
  moreover have "createCacheKey env b u p = createCacheKey env b u' p' \<longleftrightarrow>
      cacheKeyText u p = cacheKeyText u' p'"
    unfolding createCacheKey_def
  proof (rule inj_on_eq_iff)
    show "inj_on (maphash_Sum64 env (ba_seed b)) ((\<lambda>(u, p). cacheKeyText u p) ` A)"
      using assms(1) by (simp add: keys_distinct_def)
  qed (use assms(2,3) in \<open>force+\<close>)
  ultimately show ?thesis by (simp add: cacheKeyText_inject)
qed

section \<open>Lemmas on authentication\<close>

lemma createCacheKey_cache [simp]:
  "createCacheKey env (b\<lparr>ba_cache := c\<rparr>) u p = createCacheKey env b u p"
  by (simp add: createCacheKey_def)

lemma lossy_set_same:
  "lossy_cache env \<Longrightarrow> cache_Get env (cache_SetWithTTL env c k v) k = Some b \<Longrightarrow> b = v"
  unfolding lossy_cache_def by metis

lemma lossy_set_other:
  "lossy_cache env \<Longrightarrow> cache_Get env (cache_SetWithTTL env c k v) k' = Some b \<Longrightarrow> k' \<noteq> k \<Longrightarrow>
    cache_Get env c k' = Some b"
  unfolding lossy_cache_def by metis

lemma lossy_clear: "lossy_cache env \<Longrightarrow> cache_Get env (cache_Clear env c) k = None"
  unfolding lossy_cache_def by metis

lemma verifyPassword_sound:
  assumes "cache_sound env A b" and "(u, p) \<in> A" and "map_of (ba_creds b) u = Some h"
    and "lossy_cache env" and "keys_distinct env (ba_seed b) A"
    and "verifyPassword env b u h p = (b', e)"
  shows "(e = None \<longleftrightarrow> bcrypt_Compare env h p) \<and> cache_sound env A b' \<and>
    ba_creds b' = ba_creds b \<and> ba_permissive b' = ba_permissive b \<and> ba_seed b' = ba_seed b"
proof (cases "ba_cache b")
  case None
  with assms show ?thesis by (auto simp: verifyPassword_def Let_def split: if_splits)
next
  case (Some c)
  show ?thesis
  proof (cases "cache_Get env c (createCacheKey env b u p)")
    case None
    let ?b' = "b\<lparr>ba_cache := Some (cache_SetWithTTL env c (createCacheKey env b u p) (bcrypt_Compare env h p))\<rparr>"
    have b': "b' = ?b'" and e: "e = None \<longleftrightarrow> bcrypt_Compare env h p"
      using assms(6) Some None by (auto simp: verifyPassword_def Let_def split: if_splits)
    have "cache_sound env A ?b'"
      unfolding cache_sound_def
    proof (intro allI impI)
      fix c' u' p' h' v
      assume a: "ba_cache ?b' = Some c'" "(u', p') \<in> A" "map_of (ba_creds ?b') u' = Some h'"
        "cache_Get env c' (createCacheKey env ?b' u' p') = Some v"
      show "v = bcrypt_Compare env h' p'"
      proof (cases "(u', p') = (u, p)")
        case True
        with a assms(3) show ?thesis by (auto dest: lossy_set_same [OF assms(4)])
      next
        case False
        with createCacheKey_inject [OF assms(5) a(2) assms(2)] a assms(4)
        have "cache_Get env c (createCacheKey env b u' p') = Some v"
          by (auto dest: lossy_set_other [OF assms(4)])
        with assms(1) Some a(2,3) show ?thesis by (auto simp: cache_sound_def)
      qed
    qed
    with b' e show ?thesis by simp
  next
    case (Some v)
    with \<open>ba_cache b = Some c\<close> assms show ?thesis
      by (auto simp: verifyPassword_def Let_def cache_sound_def split: if_splits)
  qed
qed

lemma basic_Authenticate_refines:
  assumes "cache_sound env A b" and "presented i \<subseteq> A"
    and "lossy_cache env" and "keys_distinct env (ba_seed b) A"
  obtains b' where "basic_Authenticate env b i r =
      Done (b', basic_spec (bcrypt_Compare env) (ba_creds b) (ba_permissive b) i)"
    and "cache_sound env A b'" and "ba_creds b' = ba_creds b"
    and "ba_permissive b' = ba_permissive b" and "ba_seed b' = ba_seed b"
proof (cases "\<exists>a h. ri_Auth (Request i) = Some a \<and> equal_fold (Kind a) ''basic'' \<and>
    auth_User a \<noteq> [] \<and> map_of (ba_creds b) (auth_User a) = Some h")
  case True
  then obtain a h where a: "ri_Auth (Request i) = Some a" "equal_fold (Kind a) ''basic''"
    "auth_User a \<noteq> []" "map_of (ba_creds b) (auth_User a) = Some h" by blast
  obtain b' e where v: "verifyPassword env b (auth_User a) h (Password a) = (b', e)"
    by fastforce
  have "(auth_User a, Password a) \<in> A" using assms(2) a(1) by (simp add: presented_def)
  note sound = verifyPassword_sound [OF assms(1) this a(4) assms(3,4) v]
  have "auth_User a \<in> fst ` set (ba_creds b)"
    using a(4) by (metis domI dom_map_of_conv_image_fst)
  with a v sound have "basic_Authenticate env b i r =
      Done (b', basic_spec (bcrypt_Compare env) (ba_creds b) (ba_permissive b) i)"
    by (cases e) (simp_all add: basic_Authenticate_def basic_spec_def)
  with sound that show ?thesis by blast
next
  case False
  then have "basic_Authenticate env b i r =
      Done (b, basic_spec (bcrypt_Compare env) (ba_creds b) (ba_permissive b) i)"
  proof (cases "ri_Auth (Request i)")
    case (Some a)
    with False have "\<not> equal_fold (Kind a) ''basic'' \<or> auth_User a = [] \<or>
        map_of (ba_creds b) (auth_User a) = None" by auto
    moreover have "auth_User a \<notin> fst ` set (ba_creds b)"
      if "map_of (ba_creds b) (auth_User a) = None"
      using that by (simp add: map_of_eq_None_iff)
    ultimately show ?thesis
      using Some by (auto simp: basic_Authenticate_def basic_spec_def handleFailure_def)
  qed (simp add: basic_Authenticate_def basic_spec_def)
  with that assms(1) show ?thesis by blast
qed

lemma watcher_step_sound:
  assumes "lossy_cache env" and "cache_sound env A b"
  shows "cache_sound env A (watcher_step env b ev)"
    and "ba_seed (watcher_step env b ev) = ba_seed b"
    and "ba_permissive (watcher_step env b ev) = ba_permissive b"
proof -
  have "cache_sound env A (b\<lparr>ba_creds := new, ba_cache := map_option (cache_Clear env) (ba_cache b)\<rparr>)" for new
    by (auto simp: cache_sound_def lossy_clear [OF assms(1)])
  with assms(2) show "cache_sound env A (watcher_step env b ev)"
    by (cases ev) (auto split: sum.splits)
  show "ba_seed (watcher_step env b ev) = ba_seed b"
    "ba_permissive (watcher_step env b ev) = ba_permissive b"
    by (cases ev; auto split: sum.splits)+
qed

section \<open>The provider contract\<close>

lemma clear_password_same [simp]: "same_request i (clear_password i)"
  by (cases "ri_Auth (Request i)") (simp_all add: same_request_def clear_password_def)

lemma clear_password_simps [simp]:
  "JWT (clear_password i) = JWT i" "User (clear_password i) = User i"
  "ri_Auth (Request (clear_password i)) = map_option (\<lambda>a. a\<lparr>Password := []\<rparr>) (ri_Auth (Request i))"
  by (simp_all add: clear_password_def)

lemma clear_password_User_same [simp]: "same_request i (clear_password (i\<lparr>User := v\<rparr>))"
  by (cases "ri_Auth (Request i)") (simp_all add: same_request_def clear_password_def)

lemma handleFailure_Some: "handleFailure perm = Some e \<Longrightarrow> e = ErrAuthenticationFailed"
  by (auto simp: handleFailure_def split: if_splits)

interpretation basic: auth_provider "basic_Authenticate env" "\<lambda>_. True" for env
  by unfold_locales
    (auto simp: basic_Authenticate_def IsAuthenticationError_def dest: handleFailure_Some
      split: option.splits if_splits prod.splits)

interpretation basic_ptr: auth_provider "basic_Authenticate_ptr env" "\<lambda>bp. bp \<noteq> None" for env
proof unfold_locales
  fix p i r
  assume "p \<noteq> (None :: 'a BasicAuthProvider option)"
  then obtain b where b: "p = Some b" by blast
  obtain y where "basic_Authenticate env b i r = Done y" using basic.auth_returns by blast
  with b show "\<exists>y. basic_Authenticate_ptr env p i r = Done y"
    by (cases y) (auto simp: basic_Authenticate_ptr_def)
qed (auto simp: basic_Authenticate_ptr_def basic_Authenticate_def IsAuthenticationError_def
    dest: handleFailure_Some split: option.splits if_splits prod.splits)

section \<open>Sample data\<close>

text \<open>
  A model of the external parts: the cost is the number after the format, a password matches when the
  hash ends with it, the hash function reads a string as a number, and the cache keeps everything.
\<close>

definition sample_hash :: "string \<Rightarrow> string" where
  "sample_hash pw = ''$2y$12$'' @ pw"

definition sample_env :: "(64 word \<Rightarrow> bool option) basic_env" where
  "sample_env =
     \<lparr>bcrypt_Cost = (\<lambda>h. Some 12), bcrypt_Compare = (\<lambda>h p. h = sample_hash p),
      maphash_Sum64 = (\<lambda>seed s. word_of_nat (horner_sum of_char 256 s)),
      cache_Get = (\<lambda>c k. c k), cache_SetWithTTL = (\<lambda>c k v. c(k := Some v)),
      cache_Clear = (\<lambda>c k. None)\<rparr>"

definition sample_provider :: "(64 word \<Rightarrow> bool option) BasicAuthProvider" where
  "sample_provider =
     \<lparr>ba_filePath = ''htpasswd'', ba_creds = [(''al'', sample_hash ''pw'')], ba_permissive = True,
      ba_watcher = True, ba_cache = Some (\<lambda>k. None), ba_seed = 0\<rparr>"

definition sample_login :: "string \<Rightarrow> string \<Rightarrow> Info" where
  "sample_login u p =
     \<lparr>Request = \<lparr>ri_Method = ''GET'', ri_Path = [], ri_Headers = [], ri_BlockedHeaders = None,
        ri_Auth = Some (parse_auth (''Basic '' @ b64_encode (u @ '':'' @ p))), ri_Size = 0, ri_ID = []\<rparr>,
      JWT = VNil, User = VNil, Result = VNil, URL = ''/''\<rparr>"

text \<open>Two logins, a change of the password, and a login with the old one.\<close>

definition sample_request :: request where
  "sample_request = \<lparr>r_Method = ''GET'', r_Path = ''/'', r_RawQuery = [], r_ContentLength = 0, r_RemoteIP = None,
     r_Header = [], r_ctxInfo = None, r_ctxBlocked = None\<rparr>"

definition sample_ops :: "basic_op list" where
  "sample_ops =
     [Login (sample_login ''al'' ''pw'') sample_request, Login (sample_login ''al'' ''pw'') sample_request,
      Reload (Event {FsWrite} (Inr (htpasswd [(''al'', sample_hash ''p2'')]))),
      Login (sample_login ''al'' ''pw'') sample_request]"

lemma sample_env_lossy: "lossy_cache sample_env"
  by (simp add: lossy_cache_def sample_env_def)

lemma sample_provider_sound: "cache_sound sample_env A sample_provider"
  by (simp add: cache_sound_def sample_provider_def sample_env_def)

section \<open>Properties\<close>

text \<open>
  C31. The credentials a file yields. Loading succeeds only with at least one credential, and then every
  user is there once, has no colon in the name, and has a bcrypt hash of the supported formats and of at
  least the minimal cost.
\<close>

theorem loaded_credentials_ok:
  assumes "loadFile Cost content = Inr creds"
  shows "creds_ok Cost creds \<and> creds \<noteq> []"
proof -
  obtain ls where "creds = load_lines Cost ls []" and "creds \<noteq> []"
    using assms by (auto simp: loadFile_def Let_def split: sum.splits if_splits)
  then show ?thesis using load_lines_ok [of Cost "[]"] by (simp add: creds_ok_def)
qed

theorem loaded_credentials_ok_witness:
  "creds_ok (\<lambda>h. Some 12) [(''al'', ''$2y$12$x'')]"
proof -
  have "loadFile (\<lambda>h. Some 12) (Inr (htpasswd [(''al'', ''$2y$12$x'')])) = Inr [(''al'', ''$2y$12$x'')]"
    by (rule load_single_entry)
      (simp add: entry_ok_def visible_def bcrypt_format_def has_prefix_def minAllowedCost_def)
  from loaded_credentials_ok [OF this] show ?thesis by simp
qed

text \<open>
  C32. Round trip of an htpasswd file. Loading the file with one line per entry gives exactly those
  entries; for a user with several lines the last one counts.
\<close>

theorem htpasswd_roundtrip:
  assumes "es \<noteq> []" and "\<forall>e \<in> set es. entry_ok Cost e"
  shows "\<exists>creds. loadFile Cost (Inr (htpasswd es)) = Inr creds \<and> map_of creds = map_of (rev es)"
proof -
  let ?c = "fold (\<lambda>(u, h). map_put u h) es []"
  have "map_of ?c = map_of (rev es)" by (simp add: map_of_fold_put)
  moreover have "?c \<noteq> []"
  proof -
    have "map_of (rev es) (fst (hd es)) \<noteq> None" using assms(1) by (simp add: map_of_eq_None_iff)
    with calculation show ?thesis by auto
  qed
  ultimately show ?thesis
    using load_lines_entries [OF assms(2), of "[]"]
    by (simp add: loadFile_def scan_htpasswd [OF assms(2)] Let_def)
qed

theorem htpasswd_roundtrip_witness:
  "\<exists>creds. loadFile (\<lambda>h. Some 12) (Inr (htpasswd [(''al'', ''$2y$12$x''), (''bo'', ''$2a$12$y'')])) = Inr creds \<and>
     map_of creds ''bo'' = Some ''$2a$12$y''"
proof -
  have "\<forall>e \<in> set [(''al'', ''$2y$12$x''), (''bo'', ''$2a$12$y'')]. entry_ok (\<lambda>h. Some 12) e"
    by (simp add: entry_ok_def visible_def bcrypt_format_def has_prefix_def minAllowedCost_def)
  from htpasswd_roundtrip [OF _ this] show ?thesis by fastforce
qed

text \<open>
  C13. The cache does not change a decision. Any sequence of logins and reloads of the file, one after
  the other, gives the answers of the provider that compares every password with the credentials in
  force at that moment, provided the 64-bit keys of the pairs that occur do not collide. In particular a
  wrong password of a known user fails in permissive mode too, and no call panics.
\<close>

theorem logins_refine_specification:
  assumes "lossy_cache env" and "cache_sound env A b" and "keys_distinct env (ba_seed b) A"
    and "\<forall>i r. Login i r \<in> set ops \<longrightarrow> presented i \<subseteq> A"
  shows "snd (basic_run env b ops) = spec_run env (ba_creds b) (ba_permissive b) ops"
  using assms(2-4)
proof (induction ops arbitrary: b)
  case (Cons op ops)
  show ?case
  proof (cases op)
    case (Login i r)
    then have "presented i \<subseteq> A" using Cons.prems(3) by simp
    from basic_Authenticate_refines [OF Cons.prems(1) this assms(1) Cons.prems(2)]
    obtain b' where b': "basic_Authenticate env b i r =
        Done (b', basic_spec (bcrypt_Compare env) (ba_creds b) (ba_permissive b) i)"
      "cache_sound env A b'" "ba_creds b' = ba_creds b" "ba_permissive b' = ba_permissive b"
      "ba_seed b' = ba_seed b" by blast
    have "snd (basic_run env b' ops) = spec_run env (ba_creds b') (ba_permissive b') ops"
      using Cons.IH [of b'] Cons.prems b' by auto
    with b' Login show ?thesis
      by (cases "basic_spec (bcrypt_Compare env) (ba_creds b) (ba_permissive b) i")
        (auto split: prod.splits)
  next
    case (Reload ev)
    have "snd (basic_run env (watcher_step env b ev) ops) =
        spec_run env (ba_creds (watcher_step env b ev)) (ba_permissive b) ops"
      using Cons.IH [of "watcher_step env b ev"] Cons.prems
        watcher_step_sound [OF assms(1) Cons.prems(1), of ev] by auto
    with Reload show ?thesis by (cases ev) (auto split: sum.splits)
  qed
qed simp

theorem logins_refine_specification_witness:
  "snd (basic_run sample_env sample_provider sample_ops) =
    spec_run sample_env (ba_creds sample_provider) (ba_permissive sample_provider) sample_ops"
proof (rule logins_refine_specification [OF sample_env_lossy sample_provider_sound])
  have "auth_User (parse_auth (''Basic '' @ b64_encode (''al'' @ '':'' @ ''pw''))) = ''al''"
    "Password (parse_auth (''Basic '' @ b64_encode (''al'' @ '':'' @ ''pw''))) = ''pw''" by code_simp+
  then show "\<forall>i r. Login i r \<in> set sample_ops \<longrightarrow> presented i \<subseteq> {(''al'', ''pw'')}"
    by (simp add: presented_def sample_login_def sample_ops_def)
  show "keys_distinct sample_env (ba_seed sample_provider) {(''al'', ''pw'')}"
    by (simp add: keys_distinct_def)
qed

text \<open>
  C25. A reload can be undone by a login that was under way. From a state in which the cache agrees with
  the credentials, a verification that began before the file was reloaded stores its result after the
  cache was cleared; the old password then passes for as long as the entry lives.
\<close>

theorem stale_login_after_reload:
  "\<exists>s1 s2 s3. cache_sound sample_env UNIV sample_provider \<and>
     basic_step sample_env \<lparr>bs_prov = sample_provider, bs_inflight = []\<rparr> s1 \<and>
     basic_step sample_env s1 s2 \<and> basic_step sample_env s2 s3 \<and>
     map_of (ba_creds (bs_prov s3)) ''al'' = Some (sample_hash ''p2'') \<and>
     \<not> bcrypt_Compare sample_env (sample_hash ''p2'') ''pw'' \<and>
     snd (verifyPassword sample_env (bs_prov s3) ''al'' (sample_hash ''p2'') ''pw'') = None"
proof -
  define s0 where "s0 = \<lparr>bs_prov = sample_provider, bs_inflight = []\<rparr>"
  define ev where "ev = Event {FsWrite} (Inr (htpasswd [(''al'', sample_hash ''p2'')]))"
  define s1 where "s1 = s0\<lparr>bs_inflight := (''al'', sample_hash ''pw'', ''pw'') # bs_inflight s0\<rparr>"
  define s2 where "s2 = s1\<lparr>bs_prov := watcher_step sample_env (bs_prov s1) ev\<rparr>"
  define s3 where "s3 = s2\<lparr>bs_prov := (bs_prov s2)\<lparr>ba_cache := Some (cache_SetWithTTL sample_env (\<lambda>k. None)
       (createCacheKey sample_env (bs_prov s2) ''al'' ''pw'') (bcrypt_Compare sample_env (sample_hash ''pw'') ''pw''))\<rparr>,
     bs_inflight := remove1 (''al'', sample_hash ''pw'', ''pw'') (bs_inflight s2)\<rparr>"
  have load: "loadFile (\<lambda>h. Some 12) (Inr (htpasswd [(''al'', sample_hash ''p2'')])) = Inr [(''al'', sample_hash ''p2'')]"
    by (rule load_single_entry)
      (simp add: entry_ok_def visible_def bcrypt_format_def has_prefix_def minAllowedCost_def sample_hash_def)
  have "basic_step sample_env s0 s1"
    unfolding s1_def by (rule verify_begin) (simp_all add: s0_def sample_provider_def sample_env_def)
  moreover have "basic_step sample_env s1 s2" unfolding s2_def by (rule reload)
  moreover have prov2: "bs_prov s2 = sample_provider\<lparr>ba_creds := [(''al'', sample_hash ''p2'')], ba_cache := Some (\<lambda>k. None)\<rparr>"
    by (simp add: s2_def s1_def s0_def ev_def sample_env_def load sample_provider_def)
  moreover have "basic_step sample_env s2 s3"
    unfolding s3_def by (rule verify_end) (simp_all add: prov2, simp add: s2_def s1_def)
  moreover have "map_of (ba_creds (bs_prov s3)) ''al'' = Some (sample_hash ''p2'')"
    by (simp add: s3_def prov2)
  moreover have "\<not> bcrypt_Compare sample_env (sample_hash ''p2'') ''pw''"
    by (simp add: sample_env_def sample_hash_def)
  moreover have "snd (verifyPassword sample_env (bs_prov s3) ''al'' (sample_hash ''p2'') ''pw'') = None"
    by (simp add: verifyPassword_def s3_def Let_def sample_env_def)
  ultimately show ?thesis using sample_provider_sound unfolding s0_def by blast
qed

text \<open>
  The password field of the policy input is empty after every call of \<^verbatim>\<open>Authenticate\<close> on basic
  credentials, but the token field still holds the encoded pair: the policy input carries the password.
\<close>

theorem password_cleared_token_kept:
  assumes "basic_Authenticate env b info r = Done (b', info', e)"
    and "ri_Auth (Request info) = Some (parse_auth (''Basic '' @ b64_encode (user @ '':'' @ password)))"
    and "CHR '':'' \<notin> set user"
  shows "\<exists>a. ri_Auth (Request info') = Some a \<and> Password a = [] \<and>
    b64_decode (Token a) = Some (user @ '':'' @ password)"
proof -
  let ?a = "parse_auth (''Basic '' @ b64_encode (user @ '':'' @ password))"
  have a: "?a = \<lparr>Kind = ''basic'', Token = b64_encode (user @ '':'' @ password), auth_User = user, Password = password\<rparr>"
    using assms(3) by (rule parse_auth_basic)
  have "equal_fold (Kind ?a) ''basic''" by (simp only: a) (simp add: equal_fold_def)
  with assms(1,2) have "ri_Auth (Request info') = Some (?a\<lparr>Password := []\<rparr>)"
    by (auto simp: basic_Authenticate_def split: if_splits option.splits prod.splits)
  then show ?thesis by (simp only: a) (simp add: b64_decode_encode)
qed

theorem password_cleared_token_kept_witness:
  "\<exists>b' info' e a. basic_Authenticate sample_env sample_provider (sample_login ''al'' ''pw'') sample_request = Done (b', info', e) \<and>
     ri_Auth (Request info') = Some a \<and> Password a = [] \<and> b64_decode (Token a) = Some ''al:pw''"
proof -
  have "\<exists>y. basic_Authenticate sample_env sample_provider (sample_login ''al'' ''pw'') sample_request = Done y"
    by (rule basic.auth_returns) simp
  then obtain b' info' e where
    run: "basic_Authenticate sample_env sample_provider (sample_login ''al'' ''pw'') sample_request = Done (b', info', e)"
    by auto
  from password_cleared_token_kept [OF run, of "''al''" "''pw''"] run show ?thesis
    by (fastforce simp: sample_login_def)
qed

end
