(* ===== verification/Go_Json.thy ===== *)
theory Go_Json
  imports File_Url
begin

text \<open>
  \<^verbatim>\<open>json.Unmarshal\<close> of \<^verbatim>\<open>encoding/json\<close>, as the sources use it. The text is cut into tokens, and the tokens are
  read by a machine with a stack of open arrays and objects, as the scanner of the package keeps a stack of
  parse states; more than ten thousand open ones are an error. \<open>unquote\<close> decodes the strings, with their
  escapes, surrogate pairs and invalid UTF-8. A printer goes with it, and the two are inverse on ASCII text.
\<close>

section \<open>Values and tokens\<close>

datatype json = JNull | JBool bool | JNum string | JStr string | JArr "json list" | JObj "(string \<times> json) list"

datatype jtoken = LBrace | RBrace | LBrack | RBrack | Comma | Colon | Scalar json

definition json_space :: "char \<Rightarrow> bool" where
  [go_lib]: "json_space c \<longleftrightarrow> c \<in> {CHR '' '', CHR 0x09, CHR 0x0A, CHR 0x0D}"

subsection \<open>Strings\<close>

text \<open>The characters after a backslash that stand for one byte, and that byte.\<close>

definition json_escapes :: "(char \<times> char) list" where
  [go_lib]: "json_escapes =
     [(CHR 0x22, CHR 0x22), (CHR 0x5C, CHR 0x5C), (CHR ''/'', CHR ''/''), (CHR ''b'', CHR 0x08), (CHR ''f'', CHR 0x0C),
      (CHR ''n'', CHR 0x0A), (CHR ''r'', CHR 0x0D), (CHR ''t'', CHR 0x09)]"

text \<open>The length of the piece at the front of a string's text: an escape or one byte; 0 when it is not allowed.\<close>

definition piece_len :: "string \<Rightarrow> nat" where
  [go_lib]: "piece_len s =
     (case s of
        [] \<Rightarrow> 0
      | c # t \<Rightarrow>
          if c = CHR 0x5C
          then (if t \<noteq> [] \<and> map_of json_escapes (hd t) \<noteq> None then 2
                else if has_prefix t ''u'' \<and> length t \<ge> 5 \<and> list_all (\<lambda>h. hex_val h \<noteq> None) (take 4 (drop 1 t)) then 6
                else 0)
          else if (of_char c :: nat) < 0x20 then 0 else 1)"

lemma piece_len_Nil [simp]: "piece_len [] = 0"
  by (simp add: piece_len_def)

text \<open>The text of a string up to its closing quote, and what follows.\<close>

function lex_string :: "string \<Rightarrow> (string \<times> string) option" where
  "lex_string s =
     (if has_prefix s [CHR 0x22] then Some ([], drop 1 s)
      else if piece_len s = 0 then None
      else map_option (\<lambda>(r, rest). (take (piece_len s) s @ r, rest)) (lex_string (drop (piece_len s) s)))"
  by pat_completeness auto
termination
proof (relation "measure length")
  fix s
  assume "piece_len s \<noteq> 0"
  then show "(drop (piece_len s) s, s) \<in> measure length" by (cases s) auto
qed simp

declare lex_string.simps [simp del]

text \<open>\<^verbatim>\<open>utf8.EncodeRune\<close> and the length of the valid UTF-8 sequence at the front of a text, 0 if there is none.\<close>

definition encode_rune :: "nat \<Rightarrow> string" where
  [go_lib]: "encode_rune r =
     (if r < 0x80 then [char_of r]
      else if r < 0x800 then [char_of (0xC0 + r div 64), char_of (0x80 + r mod 64)]
      else if r < 0x10000
      then [char_of (0xE0 + r div 4096), char_of (0x80 + r div 64 mod 64), char_of (0x80 + r mod 64)]
      else [char_of (0xF0 + r div 262144), char_of (0x80 + r div 4096 mod 64), char_of (0x80 + r div 64 mod 64),
            char_of (0x80 + r mod 64)])"

definition replacement :: string where
  [go_lib]: "replacement = [CHR 0xEF, CHR 0xBF, CHR 0xBD]"

definition byte_in :: "nat \<Rightarrow> nat \<Rightarrow> string \<Rightarrow> nat \<Rightarrow> bool" where
  [go_lib]: "byte_in lo hi s i \<longleftrightarrow> i < length s \<and> lo \<le> (of_char (s ! i) :: nat) \<and> (of_char (s ! i) :: nat) \<le> hi"

definition utf8_len :: "string \<Rightarrow> nat" where
  [go_lib]: "utf8_len s =
     (let cont = byte_in 0x80 0xBF s; lead = (\<lambda>lo hi. byte_in lo hi s 0); snd_in = (\<lambda>lo hi. byte_in lo hi s 1) in
      if lead 0 0x7F then 1
      else if lead 0xC2 0xDF \<and> cont 1 then 2
      else if (lead 0xE0 0xE0 \<and> snd_in 0xA0 0xBF \<or> lead 0xE1 0xEC \<and> cont 1 \<or> lead 0xED 0xED \<and> snd_in 0x80 0x9F \<or>
               lead 0xEE 0xEF \<and> cont 1) \<and> cont 2 then 3
      else if (lead 0xF0 0xF0 \<and> snd_in 0x90 0xBF \<or> lead 0xF1 0xF3 \<and> cont 1 \<or> lead 0xF4 0xF4 \<and> snd_in 0x80 0x8F) \<and>
               cont 2 \<and> cont 3 then 4
      else 0)"

text \<open>The value of four hexadecimal digits after \<^verbatim>\<open>\u\<close>, if the text starts so.\<close>

definition getu4 :: "string \<Rightarrow> nat option" where
  [go_lib]: "getu4 s =
     (if has_prefix s [CHR 0x5C, CHR ''u''] \<and> length s \<ge> 6 \<and> list_all (\<lambda>h. hex_val h \<noteq> None) (take 4 (drop 2 s))
      then Some (foldl (\<lambda>a h. 16 * a + the (hex_val h)) 0 (take 4 (drop 2 s))) else None)"

text \<open>
  \<^verbatim>\<open>unquote\<close>: the bytes of a string from the text between its quotes. A surrogate that is not the first half
  of a pair becomes the replacement character, and so does every byte that is not part of valid UTF-8.
\<close>

function unquote :: "string \<Rightarrow> string" where
  "unquote s =
     (case s of
        [] \<Rightarrow> []
      | c # t \<Rightarrow>
          (case getu4 s of
             Some r \<Rightarrow>
               (if 0xD800 \<le> r \<and> r < 0xE000
                then (case getu4 (drop 6 s) of
                    Some r2 \<Rightarrow>
                      if r < 0xDC00 \<and> 0xDC00 \<le> r2 \<and> r2 < 0xE000
                      then encode_rune (0x10000 + (r - 0xD800) * 1024 + (r2 - 0xDC00)) @ unquote (drop 12 s)
                      else replacement @ unquote (drop 6 s)
                  | None \<Rightarrow> replacement @ unquote (drop 6 s))
                else encode_rune r @ unquote (drop 6 s))
           | None \<Rightarrow>
               (if c = CHR 0x5C
                then (case map_of json_escapes (hd (t @ [c])) of
                    Some b \<Rightarrow> b # unquote (drop 2 s)
                  | None \<Rightarrow> [])
                else if utf8_len s = 0 then replacement @ unquote t
                else take (utf8_len s) s @ unquote (drop (utf8_len s) s))))"
  by pat_completeness auto
termination
  by (relation "measure length") (auto simp: getu4_def split: if_splits)

declare unquote.simps [simp del]

subsection \<open>Numbers and the other tokens\<close>

definition lex_digits :: "string \<Rightarrow> (string \<times> string) option" where
  [go_lib]: "lex_digits s = (let ds = takeWhile is_digit s in if ds = [] then None else Some (ds, dropWhile is_digit s))"

text \<open>The integer part, the fraction and the exponent; the last two may be missing.\<close>

definition lex_int :: "string \<Rightarrow> (string \<times> string) option" where
  [go_lib]: "lex_int s = (if has_prefix s ''0'' then Some (''0'', drop 1 s) else lex_digits s)"

definition lex_frac :: "string \<Rightarrow> (string \<times> string) option" where
  [go_lib]: "lex_frac s =
     (if has_prefix s ''.'' then map_option (\<lambda>(ds, rest). (CHR ''.'' # ds, rest)) (lex_digits (drop 1 s)) else Some ([], s))"

definition lex_exp :: "string \<Rightarrow> (string \<times> string) option" where
  [go_lib]: "lex_exp s =
     (if has_prefix s ''e'' \<or> has_prefix s ''E''
      then (let sign = (if has_prefix (drop 1 s) ''+'' \<or> has_prefix (drop 1 s) ''-'' then 1 else 0) in
            map_option (\<lambda>(ds, rest). (take (1 + sign) s @ ds, rest)) (lex_digits (drop (1 + sign) s)))
      else Some ([], s))"

definition lex_number :: "string \<Rightarrow> (string \<times> string) option" where
  [go_lib]: "lex_number s =
     (let sign = (if has_prefix s ''-'' then ''-'' else []) in
      Option.bind (lex_int (drop (length sign) s)) (\<lambda>(i, s1). Option.bind (lex_frac s1) (\<lambda>(f, s2).
        map_option (\<lambda>(e, s3). (sign @ i @ f @ e, s3)) (lex_exp s2))))"

definition json_words :: "(string \<times> json) list" where
  [go_lib]: "json_words = [(''null'', JNull), (''true'', JBool True), (''false'', JBool False)]"

definition json_marks :: "(char \<times> jtoken) list" where
  [go_lib]: "json_marks = [(CHR 0x7B, LBrace), (CHR 0x7D, RBrace), (CHR ''['', LBrack), (CHR '']'', RBrack), (CHR '','', Comma), (CHR '':'', Colon)]"

definition lex_token :: "string \<Rightarrow> (jtoken \<times> string) option" where
  [go_lib]: "lex_token s =
     (case s of
        [] \<Rightarrow> None
      | c # t \<Rightarrow>
          (case map_of json_marks c of
             Some m \<Rightarrow> Some (m, t)
           | None \<Rightarrow>
               if c = CHR 0x22 then map_option (\<lambda>(raw, rest). (Scalar (JStr (unquote raw)), rest)) (lex_string t)
               else (case List.find (\<lambda>(w, v). has_prefix s w) json_words of
                   Some (w, v) \<Rightarrow> Some (Scalar v, drop (length w) s)
                 | None \<Rightarrow> map_option (\<lambda>(n, rest). (Scalar (JNum n), rest)) (lex_number s))))"

lemma lex_string_shorter: "lex_string s = Some (r, rest) \<Longrightarrow> length rest < length s"
proof (induction s arbitrary: r rest rule: lex_string.induct)
  case (1 s)
  show ?case
  proof (cases "has_prefix s [CHR 0x22]")
    case True
    with 1(2) have "rest = drop 1 s" by (simp add: lex_string.simps [of s])
    with True show ?thesis by (cases s) (auto simp: has_prefix_def)
  next
    case False
    with 1(2) obtain r' where "piece_len s \<noteq> 0" "lex_string (drop (piece_len s) s) = Some (r', rest)"
      by (auto simp: lex_string.simps [of s] split: if_splits)
    with 1(1) [OF False] show ?thesis by fastforce
  qed
qed

lemma lex_digits_shorter: "lex_digits s = Some (ds, rest) \<Longrightarrow> length rest < length s"
proof -
  assume "lex_digits s = Some (ds, rest)"
  then have "takeWhile is_digit s \<noteq> []" "rest = dropWhile is_digit s"
    by (auto simp: lex_digits_def Let_def split: if_splits)
  moreover have "length s = length (takeWhile is_digit s) + length (dropWhile is_digit s)"
    by (metis length_append takeWhile_dropWhile_id)
  ultimately show ?thesis by (cases "takeWhile is_digit s") auto
qed

lemma lex_digits_drop: "lex_digits (drop k s) = Some (ds, rest) \<Longrightarrow> length rest \<le> length s"
  using lex_digits_shorter [of "drop k s"] by fastforce

lemma lex_token_shorter: "lex_token s = Some (tok, rest) \<Longrightarrow> length rest < length s"
proof -
  assume lex: "lex_token s = Some (tok, rest)"
  have frac: "lex_frac s1 = Some (f, s2) \<Longrightarrow> length s2 \<le> length s1" for s1 f s2
    using lex_digits_drop [of 1 s1] by (auto simp: lex_frac_def split: if_splits)
  have exp: "lex_exp s2 = Some (e, s3) \<Longrightarrow> length s3 \<le> length s2" for s2 e s3
    using lex_digits_drop [of _ s2] by (auto simp: lex_exp_def Let_def split: if_splits)
  have int: "lex_int s0 = Some (i, s1) \<Longrightarrow> length s1 < length s0" for s0 i s1
    using lex_digits_shorter [of s0] by (cases s0) (auto simp: lex_int_def has_prefix_def split: if_splits)
  have num: "lex_number s = Some (n, rest) \<Longrightarrow> length rest < length s" for n
    using frac exp int by (fastforce simp: lex_number_def Let_def bind_eq_Some_conv split: if_splits)
  show ?thesis
  proof (cases s)
    case (Cons c t)
    with lex lex_string_shorter [of t] num show ?thesis
      by (auto simp: lex_token_def json_words_def split: option.splits if_splits)
  qed (use lex in \<open>simp add: lex_token_def\<close>)
qed

function tokens :: "string \<Rightarrow> jtoken list option" where
  "tokens s =
     (case dropWhile json_space s of
        [] \<Rightarrow> Some []
      | c # t \<Rightarrow>
          (case lex_token (c # t) of
             None \<Rightarrow> None
           | Some (tok, rest) \<Rightarrow> map_option (Cons tok) (tokens rest)))"
  by pat_completeness auto
termination
proof (relation "measure length")
  fix s c t x tok rest
  assume s: "dropWhile json_space s = c # t" and "lex_token (c # t) = Some x" and "(tok, rest) = x"
  then have "length rest < length (c # t)" using lex_token_shorter by metis
  also have "\<dots> \<le> length s" using s length_dropWhile_le [of json_space s] by simp
  finally show "(rest, s) \<in> measure length" by simp
qed simp

declare tokens.simps [simp del]

section \<open>Reading\<close>

text \<open>
  An open array with the elements so far, an open object with its members so far, and an open object that
  waits for the value of a key; the last read comes first.
\<close>

datatype jframe = FArr "json list" | FObj "(string \<times> json) list" | FMem "(string \<times> json) list" string

text \<open>What may come next, as the states of the scanner: a value, a value or the end of an empty array, and so on.\<close>

datatype jstate = BeginValue | BeginValueOrEmpty | BeginString | BeginStringOrEmpty | EndKey string | EndValue json

definition maxNestingDepth :: nat where "maxNestingDepth = 10000"

fun begin_value :: "jtoken \<Rightarrow> jframe list \<Rightarrow> (jstate \<times> jframe list) option" where
  "begin_value (Scalar v) st = Some (EndValue v, st)"
| "begin_value LBrack st = (if length st < maxNestingDepth then Some (BeginValueOrEmpty, FArr [] # st) else None)"
| "begin_value LBrace st = (if length st < maxNestingDepth then Some (BeginStringOrEmpty, FObj [] # st) else None)"
| "begin_value _ st = None"

fun json_step :: "jstate \<Rightarrow> jframe list \<Rightarrow> jtoken \<Rightarrow> (jstate \<times> jframe list) option" where
  "json_step BeginValue st tok = begin_value tok st"
| "json_step BeginValueOrEmpty (FArr [] # st) RBrack = Some (EndValue (JArr []), st)"
| "json_step BeginValueOrEmpty st tok = begin_value tok st"
| "json_step BeginString st (Scalar (JStr k)) = Some (EndKey k, st)"
| "json_step BeginStringOrEmpty st (Scalar (JStr k)) = Some (EndKey k, st)"
| "json_step BeginStringOrEmpty (FObj [] # st) RBrace = Some (EndValue (JObj []), st)"
| "json_step (EndKey k) (FObj ms # st) Colon = Some (BeginValue, FMem ms k # st)"
| "json_step (EndValue v) (FArr vs # st) Comma = Some (BeginValue, FArr (v # vs) # st)"
| "json_step (EndValue v) (FArr vs # st) RBrack = Some (EndValue (JArr (rev (v # vs))), st)"
| "json_step (EndValue v) (FMem ms k # st) Comma = Some (BeginString, FObj ((k, v) # ms) # st)"
| "json_step (EndValue v) (FMem ms k # st) RBrace = Some (EndValue (JObj (rev ((k, v) # ms))), st)"
| "json_step _ _ _ = None"

fun json_run :: "jstate \<Rightarrow> jframe list \<Rightarrow> jtoken list \<Rightarrow> (jstate \<times> jframe list) option" where
  "json_run q st [] = Some (q, st)"
| "json_run q st (tok # toks) = Option.bind (json_step q st tok) (\<lambda>(q', st'). json_run q' st' toks)"

definition json_parse :: "string \<Rightarrow> json option" where
  "json_parse s =
     Option.bind (tokens s) (\<lambda>toks.
       case json_run BeginValue [] toks of Some (EndValue v, []) \<Rightarrow> Some v | _ \<Rightarrow> None)"

section \<open>Printing\<close>

fun quote_chars :: "string \<Rightarrow> string" where
  "quote_chars [] = []"
| "quote_chars (c # s) = (if c = CHR 0x22 \<or> c = CHR 0x5C then [CHR 0x5C, c] else [c]) @ quote_chars s"

definition json_quote :: "string \<Rightarrow> string" where
  "json_quote s = CHR 0x22 # quote_chars s @ [CHR 0x22]"

fun json_print :: "json \<Rightarrow> string" where
  "json_print JNull = ''null''"
| "json_print (JBool b) = (if b then ''true'' else ''false'')"
| "json_print (JNum n) = n"
| "json_print (JStr s) = json_quote s"
| "json_print (JArr vs) = CHR ''['' # join '','' (map json_print vs) @ '']''"
| "json_print (JObj ms) =
     CHR 0x7B # join '','' (map (\<lambda>(k, v). json_quote k @ '':'' @ json_print v) ms) @ [CHR 0x7D]"

text \<open>Values of ASCII strings and of integers, with few enough levels.\<close>

definition ascii_text :: "string \<Rightarrow> bool" where
  "ascii_text s \<longleftrightarrow> list_all (\<lambda>c. 0x20 \<le> (of_char c :: nat) \<and> (of_char c :: nat) < 0x80) s"

fun ascii_json :: "json \<Rightarrow> bool" where
  "ascii_json (JNum n) \<longleftrightarrow> (\<exists>i. n = itoa i)"
| "ascii_json (JStr s) \<longleftrightarrow> ascii_text s"
| "ascii_json (JArr vs) \<longleftrightarrow> list_all ascii_json vs"
| "ascii_json (JObj ms) \<longleftrightarrow> list_all (\<lambda>(k, v). ascii_text k \<and> ascii_json v) ms"
| "ascii_json _ \<longleftrightarrow> True"

text \<open>No more than \<open>n\<close> arrays and objects inside each other.\<close>

fun fits :: "nat \<Rightarrow> json \<Rightarrow> bool" where
  "fits n (JArr vs) \<longleftrightarrow> 0 < n \<and> list_all (fits (n - 1)) vs"
| "fits n (JObj ms) \<longleftrightarrow> 0 < n \<and> list_all (\<lambda>(k, v). fits (n - 1) v) ms"
| "fits n _ \<longleftrightarrow> True"

fun separated :: "'a \<Rightarrow> 'a list list \<Rightarrow> 'a list" where
  "separated c [] = []"
| "separated c [xs] = xs"
| "separated c (xs # ys # zs) = xs @ c # separated c (ys # zs)"

fun json_tokens :: "json \<Rightarrow> jtoken list" where
  "json_tokens (JArr vs) = LBrack # separated Comma (map json_tokens vs) @ [RBrack]"
| "json_tokens (JObj ms) =
     LBrace # separated Comma (map (\<lambda>(k, v). Scalar (JStr k) # Colon # json_tokens v) ms) @ [RBrace]"
| "json_tokens v = [Scalar v]"

section \<open>Lemmas\<close>

lemma json_run_append: "json_run q st (xs @ ys) = Option.bind (json_run q st xs) (\<lambda>(q', st'). json_run q' st' ys)"
  by (induction q st xs rule: json_run.induct) (auto split: Option.bind_splits)

text \<open>Reading the tokens of a value takes the machine from the beginning of a value to its end.\<close>

abbreviation reads :: "jframe list \<Rightarrow> json \<Rightarrow> bool" where
  "reads st v \<equiv> json_run BeginValue st (json_tokens v) = Some (EndValue v, st)"

lemma json_run_elements:
  assumes "\<And>v us. v \<in> set (w # ws) \<Longrightarrow> reads (FArr us # st) v"
  shows "json_run BeginValue (FArr us # st) (separated Comma (map json_tokens (w # ws)) @ [RBrack]) =
    Some (EndValue (JArr (rev us @ w # ws)), st)"
  using assms
proof (induction ws arbitrary: w us)
  case Nil
  then show ?case by (simp add: json_run_append)
next
  case (Cons w' ws)
  then have "reads (FArr us # st) w" by simp
  with Cons.IH [of w' "w # us"] Cons.prems show ?case by (simp add: json_run_append)
qed

lemma json_run_members:
  assumes "\<And>k v us. (k, v) \<in> set (m # ms) \<Longrightarrow> reads (FMem us k # st) v"
  shows "json_run BeginString (FObj us # st)
      (separated Comma (map (\<lambda>(k, v). Scalar (JStr k) # Colon # json_tokens v) (m # ms)) @ [RBrace]) =
    Some (EndValue (JObj (rev us @ m # ms)), st)"
  using assms
proof (induction ms arbitrary: m us)
  case Nil
  obtain k v where "m = (k, v)" by fastforce
  with Nil show ?case by (simp add: json_run_append)
next
  case (Cons m' ms)
  obtain k v where m: "m = (k, v)" by fastforce
  with Cons.prems have "reads (FMem us k # st) v" by simp
  with m Cons.IH [of m' "(k, v) # us"] Cons.prems show ?case by (simp add: json_run_append)
qed

lemma json_tokens_first:
  obtains tok ts where "json_tokens v = tok # ts" and "tok \<in> {LBrack, LBrace} \<union> range Scalar"
  by (cases v) auto

lemma value_first: "tok \<noteq> RBrack \<Longrightarrow> json_step BeginValueOrEmpty st tok = begin_value tok st"
  by (cases "(BeginValueOrEmpty, st, tok)" rule: json_step.cases) auto

lemma separated_Cons: "\<exists>ys. separated c (x # xs) = x @ ys"
  by (cases xs) auto

lemma json_run_first:
  "json_run BeginValueOrEmpty st (separated Comma (map json_tokens (w # ws)) @ ts) =
    json_run BeginValue st (separated Comma (map json_tokens (w # ws)) @ ts)"
proof -
  obtain ys where "separated Comma (map json_tokens (w # ws)) = json_tokens w @ ys" using separated_Cons by fastforce
  moreover obtain tok us where "json_tokens w = tok # us" "tok \<noteq> RBrack" by (rule json_tokens_first) auto
  ultimately show ?thesis by (simp add: value_first)
qed

lemma json_run_first_member:
  "json_run BeginStringOrEmpty st (separated Comma (map (\<lambda>(k, v). Scalar (JStr k) # Colon # json_tokens v) (m # ms)) @ ts) =
    json_run BeginString st (separated Comma (map (\<lambda>(k, v). Scalar (JStr k) # Colon # json_tokens v) (m # ms)) @ ts)"
proof -
  let ?f = "\<lambda>(k, v). Scalar (JStr k) # Colon # json_tokens v"
  obtain ys where "separated Comma (map ?f (m # ms)) = ?f m @ ys" using separated_Cons by fastforce
  then show ?thesis by (cases m) simp
qed

lemma json_run_tokens: "fits n v \<Longrightarrow> length st + n \<le> maxNestingDepth \<Longrightarrow> reads st v"
proof (induction v arbitrary: n st)
  case (JArr vs)
  have room: "length st < maxNestingDepth" using JArr.prems by simp
  have "reads (FArr us # st) v" if "v \<in> set vs" for v us
    using JArr.IH [OF that, of "n - 1"] JArr.prems that by (auto simp: list_all_iff)
  with room show ?case
    using json_run_elements [of _ _ st "[]"] json_run_first by (cases vs) simp_all
next
  case (JObj ms)
  have room: "length st < maxNestingDepth" using JObj.prems by simp
  have "reads (FMem us k # st) v" if "(k, v) \<in> set ms" for k v us
    using JObj.IH [OF that, of v "n - 1"] JObj.prems that by (auto simp: list_all_iff)
  with room show ?case
    using json_run_members [of _ _ st "[]"] json_run_first_member by (cases ms) simp_all
qed auto

text \<open>Cutting a printed value into tokens, one kind of token at a time.\<close>

lemma tokens_Nil [simp]: "tokens [] = Some []"
  by (subst tokens.simps) simp

lemma tokens_lex: "lex_token (c # s) = Some (tok, rest) \<Longrightarrow> \<not> json_space c \<Longrightarrow> tokens (c # s) = map_option (Cons tok) (tokens rest)"
  by (subst tokens.simps) simp

lemma tokens_mark: "map_of json_marks c = Some m \<Longrightarrow> tokens (c # s) = map_option (Cons m) (tokens s)"
  by (rule tokens_lex) (auto simp: lex_token_def json_marks_def json_space_def split: if_splits)

lemma tokens_marks [simp]:
  "tokens (CHR '','' # s) = map_option (Cons Comma) (tokens s)" "tokens (CHR '':'' # s) = map_option (Cons Colon) (tokens s)"
  "tokens (CHR ''['' # s) = map_option (Cons LBrack) (tokens s)" "tokens (CHR '']'' # s) = map_option (Cons RBrack) (tokens s)"
  "tokens (CHR 0x7B # s) = map_option (Cons LBrace) (tokens s)" "tokens (CHR 0x7D # s) = map_option (Cons RBrace) (tokens s)"
  by (simp_all add: tokens_mark json_marks_def)

lemma ascii_text_Cons [simp]: "ascii_text (c # s) \<longleftrightarrow> 0x20 \<le> (of_char c :: nat) \<and> (of_char c :: nat) < 0x80 \<and> ascii_text s"
  by (simp add: ascii_text_def)

lemma lex_string_quoted: "ascii_text s \<Longrightarrow> lex_string (quote_chars s @ CHR 0x22 # rest) = Some (quote_chars s, rest)"
proof (induction s)
  case Nil
  show ?case by (subst lex_string.simps) (simp add: has_prefix_def)
next
  case (Cons c s)
  show ?case
  proof (cases "c = CHR 0x22 \<or> c = CHR 0x5C")
    case True
    then have "piece_len (CHR 0x5C # c # quote_chars s @ CHR 0x22 # rest) = 2"
      by (auto simp: piece_len_def json_escapes_def)
    with Cons True show ?thesis by (subst lex_string.simps) (auto simp: has_prefix_def)
  next
    case False
    with Cons.prems have "piece_len (c # quote_chars s @ CHR 0x22 # rest) = 1" by (auto simp: piece_len_def)
    with Cons False show ?thesis by (subst lex_string.simps) (auto simp: has_prefix_def)
  qed
qed

lemma unquote_quoted: "ascii_text s \<Longrightarrow> unquote (quote_chars s) = s"
proof (induction s)
  case Nil
  show ?case by (subst unquote.simps) simp
next
  case (Cons c s)
  show ?case
  proof (cases "c = CHR 0x22 \<or> c = CHR 0x5C")
    case True
    then have "getu4 (CHR 0x5C # c # quote_chars s) = None" "map_of json_escapes c = Some c"
      by (auto simp: getu4_def has_prefix_def json_escapes_def)
    with Cons True show ?thesis by (subst unquote.simps) auto
  next
    case False
    with Cons.prems have "getu4 (c # quote_chars s) = None" "utf8_len (c # quote_chars s) = 1"
      by (auto simp: getu4_def has_prefix_def utf8_len_def byte_in_def Let_def)
    with Cons False show ?thesis by (subst unquote.simps) auto
  qed
qed

lemma tokens_string: "ascii_text s \<Longrightarrow> tokens (json_quote s @ rest) = map_option (Cons (Scalar (JStr s))) (tokens rest)"
  unfolding json_quote_def append_Cons
  by (rule tokens_lex)
    (auto simp: lex_token_def json_marks_def json_space_def lex_string_quoted unquote_quoted)

lemma tokens_word: "(w, v) \<in> set json_words \<Longrightarrow> tokens (w @ rest) = map_option (Cons (Scalar v)) (tokens rest)"
  by (auto simp: json_words_def intro!: tokens_lex simp: lex_token_def json_marks_def json_space_def has_prefix_def)

text \<open>What follows a value inside an array or object, or at the end.\<close>

definition delimited :: "string \<Rightarrow> bool" where
  "delimited rest \<longleftrightarrow> rest = [] \<or> hd rest \<in> {CHR '','', CHR '']'', CHR 0x7D}"

lemma delimited_simps [simp]:
  "delimited []" "delimited (CHR '','' # s)" "delimited (CHR '']'' # s)" "delimited (CHR 0x7D # s)"
  by (simp_all add: delimited_def)

lemma nat_digits_zero: "nat_digits n = CHR ''0'' # t \<Longrightarrow> t = []"
proof (induction n arbitrary: t rule: nat_digits.induct)
  case (1 n)
  show ?case
  proof (cases "n < 10")
    case True
    with 1(2) show ?thesis by (simp add: nat_digits.simps [of n])
  next
    case False
    obtain c u where cu: "nat_digits (n div 10) = c # u" by (cases "nat_digits (n div 10)") auto
    then have "c = CHR ''0''" using 1(2) False by (simp add: nat_digits.simps [of n])
    with 1(1) [OF False] cu have "nat_digits (n div 10) = ''0''" by simp
    then have "n div 10 = 0" using digits_val_nat_digits [of "n div 10"] by (simp add: digits_val_def)
    with False show ?thesis by simp
  qed
qed

lemma lex_int_nat:
  assumes "delimited rest"
  shows "lex_int (nat_digits n @ rest) = Some (nat_digits n, rest)"
proof -
  obtain c t where ct: "nat_digits n = c # t" by (cases "nat_digits n") auto
  have digits: "\<forall>x \<in> set (nat_digits n). is_digit x" using list_all_nat_digits by (simp add: list_all_iff)
  have rest: "takeWhile is_digit rest = []" "dropWhile is_digit rest = rest"
    using assms by (cases rest; auto simp: delimited_def is_digit_def)+
  show ?thesis
  proof (cases "c = CHR ''0''")
    case True
    with ct nat_digits_zero show ?thesis by (auto simp: lex_int_def has_prefix_def)
  next
    case False
    then have "\<not> has_prefix (nat_digits n @ rest) ''0''" using ct by (simp add: has_prefix_def)
    moreover have "takeWhile is_digit (nat_digits n @ rest) = nat_digits n"
      "dropWhile is_digit (nat_digits n @ rest) = rest" using digits rest by (simp_all add: takeWhile_append2 dropWhile_append2)
    ultimately show ?thesis using ct by (simp add: lex_int_def lex_digits_def)
  qed
qed

lemma lex_number_itoa:
  assumes "delimited rest"
  shows "lex_number (itoa i @ rest) = Some (itoa i, rest)"
proof -
  have tail: "lex_frac rest = Some ([], rest)" "lex_exp rest = Some ([], rest)"
    using assms by (cases rest; auto simp: delimited_def lex_frac_def lex_exp_def has_prefix_def)+
  obtain c t where ct: "nat_digits (nat i) = c # t" by (cases "nat_digits (nat i)") auto
  then have "c \<noteq> CHR ''-''" using nat_digits_chars [of c "nat i"] by auto
  then have "\<not> has_prefix (nat_digits (nat i) @ rest) ''-''" using ct by (simp add: has_prefix_def)
  then show ?thesis
    using tail lex_int_nat [OF assms] by (auto simp: lex_number_def itoa_def Let_def has_prefix_def)
qed

lemma tokens_number:
  assumes "delimited rest"
  shows "tokens (itoa i @ rest) = map_option (Cons (Scalar (JNum (itoa i)))) (tokens rest)"
proof -
  obtain c t where ct: "itoa i = c # t" and c: "c = CHR ''-'' \<or> is_digit c"
  proof -
    show ?thesis
    proof (cases "i < 0")
      case True
      then show ?thesis using that by (simp add: itoa_def)
    next
      case False
      then show ?thesis
        using that list_all_nat_digits [of "nat i"] by (cases "nat_digits (nat i)") (auto simp: itoa_def)
    qed
  qed
  have other: "c \<notin> {CHR 0x22, CHR 0x7B, CHR 0x7D, CHR ''['', CHR '']'', CHR '','', CHR '':'', CHR ''n'', CHR ''t'', CHR ''f''}"
    using c by (auto simp: is_digit_def)
  have "lex_token (c # t @ rest) = map_option (\<lambda>(n, rest). (Scalar (JNum n), rest)) (lex_number (c # t @ rest))"
    using other by (simp add: lex_token_def json_marks_def json_words_def has_prefix_def)
  then have "lex_token (c # t @ rest) = Some (Scalar (JNum (itoa i)), rest)"
    using lex_number_itoa [OF assms, of i] by (simp add: ct)
  moreover have "\<not> json_space c" using c by (auto simp: json_space_def is_digit_def)
  ultimately show ?thesis unfolding ct append_Cons using tokens_lex by blast
qed

lemma tokens_separated:
  assumes "\<And>x rest. x \<in> set xs \<Longrightarrow> delimited rest \<Longrightarrow> tokens (f x @ rest) = map_option (append (g x)) (tokens rest)"
    and "delimited rest"
  shows "tokens (join '','' (map f xs) @ rest) = map_option (append (separated Comma (map g xs))) (tokens rest)"
  using assms(1)
proof (induction xs rule: induct_list012)
  case (3 x y zs)
  then have "tokens (join '','' (map f (y # zs)) @ rest) = map_option (append (separated Comma (map g (y # zs)))) (tokens rest)"
    by simp
  with 3(3) [of x] show ?case by (simp add: option.map_comp comp_def)
next
  case 1
  show ?case by (cases "tokens rest") simp_all
qed (use assms(2) in simp)

lemma tokens_print:
  "ascii_json v \<Longrightarrow> delimited rest \<Longrightarrow> tokens (json_print v @ rest) = map_option (append (json_tokens v)) (tokens rest)"
proof (induction v arbitrary: rest)
  case (JArr vs)
  have "tokens (join '','' (map json_print vs) @ CHR '']'' # rest) =
      map_option (append (separated Comma (map json_tokens vs))) (tokens (CHR '']'' # rest))"
    by (rule tokens_separated) (use JArr in \<open>auto simp: list_all_iff\<close>)
  then show ?case by (simp add: option.map_comp comp_def)
next
  case (JObj ms)
  have "tokens (json_quote k @ '':'' @ json_print v @ rest') =
      map_option (append (Scalar (JStr k) # Colon # json_tokens v)) (tokens rest')"
    if "(k, v) \<in> set ms" "delimited rest'" for k v rest'
  proof -
    have ok: "ascii_text k" "ascii_json v" using JObj.prems(1) that(1) by (auto simp: list_all_iff)
    then have "tokens (json_print v @ rest') = map_option (append (json_tokens v)) (tokens rest')"
      using JObj.IH [OF that(1), of v rest'] that(2) by simp
    with ok show ?thesis by (cases "tokens rest'") (simp_all add: tokens_string)
  qed
  then have "tokens (join '','' (map (\<lambda>(k, v). json_quote k @ '':'' @ json_print v) ms) @ CHR 0x7D # rest) =
      map_option (append (separated Comma (map (\<lambda>(k, v). Scalar (JStr k) # Colon # json_tokens v) ms))) (tokens (CHR 0x7D # rest))"
    by (intro tokens_separated) (auto split: prod.splits)
  then show ?case by (simp add: option.map_comp comp_def)
next
  case JNull
  show ?case using tokens_word [of "''null''" JNull rest] by (simp add: json_words_def fun_eq_iff)
next
  case (JBool b)
  show ?case using tokens_word [of "json_print (JBool b)" "JBool b" rest] by (simp add: json_words_def)
next
  case (JNum n)
  then show ?case using tokens_number by auto
next
  case (JStr s)
  then show ?case using tokens_string by simp
qed

text \<open>What is printed is read back.\<close>

lemma json_parse_print: "ascii_json v \<Longrightarrow> fits maxNestingDepth v \<Longrightarrow> json_parse (json_print v) = Some v"
  using tokens_print [of v "[]"] json_run_tokens [of maxNestingDepth v "[]"] by (simp add: json_parse_def)

end
