(* ===== verification/Jwt_Support.thy ===== *)
theory Jwt_Support
  imports Auth_Provider Go_Json
begin

text \<open>
  \<^verbatim>\<open>internal/jwtsupport/jwt.go\<close>: loading the well-known documents and key sets, and validating
  bearer tokens against every issuer and audience. The JWT and JWK library (\<^verbatim>\<open>jwx\<close>) and the HTTP client with
  its decoding of responses (\<^verbatim>\<open>go-resthelp\<close>) are fields of \<open>jwt_env\<close>.

  A key of a set is a pointer: \<open>PostFetch\<close> changes the algorithm of a key object that is in both the
  old and the new set, so keys are addresses and their algorithms are in a heap.
\<close>

section \<open>Data\<close>

type_synonym addr = nat
type_synonym key_heap = "(addr, string) gomap"

text \<open>A key as the token parser sees it: its address and its algorithm ([] when it has none).\<close>

type_synonym jwk = "addr \<times> string"

datatype parse_option =
    WithKey string jwk
  | WithKeySet "jwk list"
  | WithValidate bool
  | WithVerify bool
  | WithAudience string
  | WithClaimValue string string

record wellKnownData =
  JwksURI :: string
  SupportedAlgorithms :: "string list"
  sourceURL :: string
  isLocalFile :: bool

text \<open>
  An entry of \<^verbatim>\<open>JWKS\<close>: a set read from a file, or a view of the refreshing cache. The cache itself, \<open>jwk_cache\<close>, has
  for every registered address the post-fetcher it was registered with; registering again replaces it.
\<close>

datatype jwks_entry = StaticSet "jwk list" | CachedSet string

record JWTSupport =
  audiences :: "string list"
  audienceKey :: string
  authKind :: string
  wellKnowns :: "string list"
  wellknownList :: "wellKnownData list"
  jwk_cache :: "(string, wellKnownData) gomap"
  JWKS :: "jwks_entry list"
  jwt_permissive :: bool

record 'tok jwt_env =
  ip_literal_ok :: "string \<Rightarrow> bool"
  ReadFile :: "string \<Rightarrow> goerror + string"
  http_wellknown :: "string \<Rightarrow> goerror + string \<times> string list"
  jwk_Parse :: "string \<Rightarrow> goerror + (addr list \<times> key_heap)"
  jwk_Register :: "string \<Rightarrow> goerror option"
  jwk_Fetch :: "string \<Rightarrow> goerror + (addr list \<times> key_heap)"
  KeyAlgorithmFrom :: "string \<Rightarrow> string"
  AddKey :: "addr list \<Rightarrow> addr \<Rightarrow> addr list"
  jwt_Parse :: "string \<Rightarrow> parse_option list \<Rightarrow> goerror + 'tok"
  AsMap :: "'tok \<Rightarrow> (string, goval) gomap"

section \<open>Key sets\<close>

type_synonym alg_map = "(string, string) gomap"

text \<open>\<^verbatim>\<open>getAlgorithm\<close>: the conversion of an algorithm name, remembered in \<^verbatim>\<open>algConverter\<close>.\<close>

definition getAlgorithm :: "(string \<Rightarrow> string) \<Rightarrow> alg_map \<Rightarrow> string \<Rightarrow> string \<times> alg_map" where
  "getAlgorithm KeyAlgFrom algConverter name =
     (case map_of algConverter name of
        Some alg \<Rightarrow> (alg, algConverter)
      | None \<Rightarrow> (let alg = KeyAlgFrom name in (alg, map_put name alg algConverter)))"

definition alg_of :: "key_heap \<Rightarrow> addr \<Rightarrow> string" where
  "alg_of heap key = (case map_of heap key of Some alg \<Rightarrow> alg | None \<Rightarrow> [])"

text \<open>The inner loop of \<^verbatim>\<open>PostFetch\<close>, over the supported algorithms; the state is the new set, the keys and \<^verbatim>\<open>algConverter\<close>.\<close>

fun set_all_algorithms :: "(string \<Rightarrow> string) \<Rightarrow> (addr list \<Rightarrow> addr \<Rightarrow> addr list) \<Rightarrow> string list \<Rightarrow> addr
    \<Rightarrow> addr list \<times> key_heap \<times> alg_map \<Rightarrow> addr list \<times> key_heap \<times> alg_map" where
  "set_all_algorithms K Add [] key st = st"
| "set_all_algorithms K Add (alg # algs) key (newset, heap, conv) =
     (let (a, conv') = getAlgorithm K conv alg in
      set_all_algorithms K Add algs key (Add newset key, map_put key a heap, conv'))"

text \<open>The loop of \<^verbatim>\<open>PostFetch\<close> over the keys of the fetched set.\<close>

fun post_fetch_loop :: "(string \<Rightarrow> string) \<Rightarrow> (addr list \<Rightarrow> addr \<Rightarrow> addr list) \<Rightarrow> string list \<Rightarrow> addr list
    \<Rightarrow> addr list \<times> key_heap \<times> alg_map \<Rightarrow> addr list \<times> key_heap \<times> alg_map" where
  "post_fetch_loop K Add algs [] st = st"
| "post_fetch_loop K Add algs (key # keys) (newset, heap, conv) =
     post_fetch_loop K Add algs keys
       (if alg_of heap key \<noteq> [] then (Add newset key, heap, conv)
        else set_all_algorithms K Add algs key (newset, heap, conv))"

definition PostFetch :: "(string \<Rightarrow> string) \<Rightarrow> (addr list \<Rightarrow> addr \<Rightarrow> addr list) \<Rightarrow> wellKnownData
    \<Rightarrow> addr list \<times> key_heap \<Rightarrow> alg_map \<Rightarrow> addr list \<times> key_heap \<times> alg_map" where
  "PostFetch K Add wkd = (\<lambda>(keys, heap) conv. post_fetch_loop K Add (SupportedAlgorithms wkd) keys ([], heap, conv))"

definition set_view :: "addr list \<times> key_heap \<Rightarrow> jwk list" where
  "set_view = (\<lambda>(keys, heap). map (\<lambda>a. (a, alg_of heap a)) keys)"

text \<open>
  \<^verbatim>\<open>Get\<close> of the refreshing cache: the set that was fetched from a registered address, after its post-fetcher;
  an address that is not registered is an error. What is in \<^verbatim>\<open>algConverter\<close> makes no difference to a set.
\<close>

definition cache_Get :: "'tok jwt_env \<Rightarrow> (string, wellKnownData) gomap \<Rightarrow> string \<Rightarrow> goerror + jwk list" where
  "cache_Get env registered uri =
     (case map_of registered uri of
        None \<Rightarrow> Inl (ErrText (''url '' @ uri @ '' is not registered''))
      | Some wk \<Rightarrow>
          (case jwk_Fetch env uri of
             Inl err \<Rightarrow> Inl err
           | Inr fetched \<Rightarrow>
               (case PostFetch (KeyAlgorithmFrom env) (AddKey env) wk fetched [] of
                  (keys, heap, _) \<Rightarrow> Inr (set_view (keys, heap)))))"

section \<open>Loading\<close>

text \<open>
  \<^verbatim>\<open>json.Unmarshal\<close> into a fresh \<^verbatim>\<open>wellKnownData\<close>: the two fields with a tag, whose names match in any letter case.
  A null leaves a string as it is and empties the list; a value of another kind is an error that is reported
  after the rest has been decoded. The flag says that there was one.
\<close>

fun decode_strings :: "string list \<Rightarrow> json list \<Rightarrow> string list \<times> bool" where
  "decode_strings old [] = ([], False)"
| "decode_strings old (v # vs) =
     (let (ss, bad) = decode_strings (drop 1 old) vs;
          kept = (case old of [] \<Rightarrow> [] | s # _ \<Rightarrow> s) in
      case v of
        JStr s \<Rightarrow> (s # ss, bad)
      | JNull \<Rightarrow> (kept # ss, bad)
      | _ \<Rightarrow> (kept # ss, True))"

definition decode_field :: "string \<times> json \<Rightarrow> string \<times> string list \<times> bool \<Rightarrow> string \<times> string list \<times> bool" where
  "decode_field = (\<lambda>(k, v) (uri, algs, bad).
     if equal_fold k ''jwks_uri''
     then (case v of JStr s \<Rightarrow> (s, algs, bad) | JNull \<Rightarrow> (uri, algs, bad) | _ \<Rightarrow> (uri, algs, True))
     else if equal_fold k ''id_token_signing_alg_values_supported''
     then (case v of
         JArr vs \<Rightarrow> (let (ss, bad') = decode_strings algs vs in (uri, ss, bad \<or> bad'))
       | JNull \<Rightarrow> (uri, [], bad)
       | _ \<Rightarrow> (uri, algs, True))
     else (uri, algs, bad))"

definition unmarshal_wellknown :: "string \<Rightarrow> goerror + string \<times> string list" where
  "unmarshal_wellknown text =
     (case json_parse text of
        None \<Rightarrow> Inl (ErrText ''invalid character'')
      | Some JNull \<Rightarrow> Inr ([], [])
      | Some (JObj ms) \<Rightarrow>
          (let (uri, algs, bad) = fold decode_field ms ([], [], False) in
           if bad then Inl (ErrText ''json: cannot unmarshal'') else Inr (uri, algs))
      | Some _ \<Rightarrow> Inl (ErrText ''json: cannot unmarshal''))"

text \<open>The loop body of \<^verbatim>\<open>LoadWellKnowns\<close>; \<open>None\<close> is a \<^verbatim>\<open>continue\<close>.\<close>

definition load_wellknown :: "'tok jwt_env \<Rightarrow> string \<Rightarrow> wellKnownData option" where
  "load_wellknown env wellKnown =
     (if wellKnown = [] then None
      else if isFileURL wellKnown
      then (case readFileURL (ip_literal_ok env) (ReadFile env) wellKnown of
          Inl _ \<Rightarrow> None
        | Inr data \<Rightarrow>
            (case unmarshal_wellknown data of
               Inl _ \<Rightarrow> None
             | Inr (uri, algs) \<Rightarrow>
                 Some \<lparr>JwksURI = uri, SupportedAlgorithms = algs, sourceURL = wellKnown,
                   isLocalFile = True\<rparr>))
      else (case http_wellknown env wellKnown of
          Inl _ \<Rightarrow> None
        | Inr (uri, algs) \<Rightarrow>
            Some \<lparr>JwksURI = uri, SupportedAlgorithms = algs, sourceURL = wellKnown,
              isLocalFile = False\<rparr>))"

fun load_wellknowns :: "'tok jwt_env \<Rightarrow> string list \<Rightarrow> wellKnownData list \<Rightarrow> wellKnownData list" where
  "load_wellknowns env [] acc = acc"
| "load_wellknowns env (w # ws) acc =
     (case load_wellknown env w of
        None \<Rightarrow> load_wellknowns env ws acc
      | Some wc \<Rightarrow> load_wellknowns env ws (acc @ [wc]))"

definition LoadWellKnowns :: "'tok jwt_env \<Rightarrow> JWTSupport \<Rightarrow> JWTSupport" where
  "LoadWellKnowns env j =
     j\<lparr>wellknownList := load_wellknowns env (wellKnowns j) (wellknownList j)\<rparr>"

text \<open>
  The loop body of \<^verbatim>\<open>LoadJWKS\<close>, with \<^verbatim>\<open>algConverter\<close> and the registered addresses; an address stays registered
  when its first \<^verbatim>\<open>Get\<close> fails.
\<close>

type_synonym jwks_state = "alg_map \<times> (string, wellKnownData) gomap"

definition load_jwks :: "'tok jwt_env \<Rightarrow> wellKnownData \<Rightarrow> jwks_state \<Rightarrow> jwks_entry option \<times> jwks_state" where
  "load_jwks env wk = (\<lambda>(conv, registered).
     if isFileURL (sourceURL wk) \<noteq> isFileURL (JwksURI wk) then (None, conv, registered)
     else if isFileURL (JwksURI wk)
     then (case readFileURL (ip_literal_ok env) (ReadFile env) (JwksURI wk) of
         Inl _ \<Rightarrow> (None, conv, registered)
       | Inr data \<Rightarrow>
           (case jwk_Parse env data of
              Inl _ \<Rightarrow> (None, conv, registered)
            | Inr fetched \<Rightarrow>
                (case PostFetch (KeyAlgorithmFrom env) (AddKey env) wk fetched conv of
                   (keys, heap, conv') \<Rightarrow> (Some (StaticSet (set_view (keys, heap))), conv', registered))))
     else (case jwk_Register env (JwksURI wk) of
         Some _ \<Rightarrow> (None, conv, registered)
       | None \<Rightarrow>
           (let registered' = map_put (JwksURI wk) wk registered in
            case cache_Get env registered' (JwksURI wk) of
              Inl _ \<Rightarrow> (None, conv, registered')
            | Inr _ \<Rightarrow> (Some (CachedSet (JwksURI wk)), conv, registered'))))"

fun load_jwks_all :: "'tok jwt_env \<Rightarrow> wellKnownData list \<Rightarrow> jwks_state \<Rightarrow> jwks_entry list \<Rightarrow> jwks_entry list \<times> jwks_state" where
  "load_jwks_all env [] st acc = (acc, st)"
| "load_jwks_all env (wk # wks) st acc =
     (case load_jwks env wk st of
        (None, st') \<Rightarrow> load_jwks_all env wks st' acc
      | (Some e, st') \<Rightarrow> load_jwks_all env wks st' (acc @ [e]))"

definition LoadJWKS :: "'tok jwt_env \<Rightarrow> JWTSupport \<Rightarrow> JWTSupport" where
  "LoadJWKS env j =
     (case load_jwks_all env (wellknownList j) ([], []) (JWKS j) of
        (entries, _, registered) \<Rightarrow> j\<lparr>jwk_cache := registered, JWKS := entries\<rparr>)"

text \<open>\<^verbatim>\<open>New\<close>; \<open>Inl n\<close> is \<^verbatim>\<open>os.Exit(n)\<close>.\<close>

definition jwtsupport_New ::
  "'tok jwt_env \<Rightarrow> string list \<Rightarrow> string \<Rightarrow> string list \<Rightarrow> string \<Rightarrow> bool \<Rightarrow> int + JWTSupport" where
  "jwtsupport_New env wks audKey audList kind permissive =
     (let j = LoadJWKS env (LoadWellKnowns env
            \<lparr>audiences = audList, audienceKey = audKey, authKind = kind, wellKnowns = wks,
             wellknownList = [], jwk_cache = [], JWKS = [], jwt_permissive = permissive\<rparr>)
      in if length (JWKS j) = 0 then Inl 1
         else if length (audiences j) = 0 then Inl 1
         else Inr j)"

section \<open>Authentication\<close>

text \<open>The options of one \<^verbatim>\<open>jwt.Parse\<close> call.\<close>

definition parse_options :: "JWTSupport \<Rightarrow> jwk list \<Rightarrow> string \<Rightarrow> parse_option list" where
  "parse_options j ks aud =
     (case ks of [key] \<Rightarrow> [WithKey (snd key) key] | _ \<Rightarrow> [WithKeySet ks])
     @ [WithValidate True, WithVerify True]
     @ (if audienceKey j = ''aud'' then [WithAudience aud] else [WithClaimValue (audienceKey j) aud])"

text \<open>The loop over the audiences: the claims of a valid token, or the last error so far.\<close>

fun try_audiences :: "'tok jwt_env \<Rightarrow> JWTSupport \<Rightarrow> string \<Rightarrow> jwk list \<Rightarrow> string list \<Rightarrow> goerror option
    \<Rightarrow> goerror option + (string, goval) gomap" where
  "try_audiences env j token ks [] lastError = Inl lastError"
| "try_audiences env j token ks (aud # auds) lastError =
     (case jwt_Parse env token (parse_options j ks aud) of
        Inl err \<Rightarrow> try_audiences env j token ks auds (Some err)
      | Inr tok \<Rightarrow> Inr (AsMap env tok))"

text \<open>The key set of issuer number \<open>i\<close>: indexing \<^verbatim>\<open>JWKS\<close> out of range panics.\<close>

definition issuer_keys :: "'tok jwt_env \<Rightarrow> JWTSupport \<Rightarrow> nat \<Rightarrow> wellKnownData \<Rightarrow> (goerror + jwk list) outcome" where
  "issuer_keys env j i wc =
     (if isLocalFile wc
      then (if i < length (JWKS j)
            then Done (case JWKS j ! i of StaticSet ks \<Rightarrow> Inr ks | CachedSet uri \<Rightarrow>
                  Inr (case cache_Get env (jwk_cache j) uri of Inl _ \<Rightarrow> [] | Inr ks \<Rightarrow> ks))
            else Panic ''index out of range'')
      else Done (cache_Get env (jwk_cache j) (JwksURI wc)))"

fun try_issuers :: "'tok jwt_env \<Rightarrow> JWTSupport \<Rightarrow> string \<Rightarrow> nat \<Rightarrow> wellKnownData list \<Rightarrow> goerror option
    \<Rightarrow> (goerror option + (string, goval) gomap) outcome" where
  "try_issuers env j token i [] lastError = Done (Inl lastError)"
| "try_issuers env j token i (wc # wcs) lastError =
     (case issuer_keys env j i wc of
        Panic m \<Rightarrow> Panic m
      | Done (Inl err) \<Rightarrow> try_issuers env j token (Suc i) wcs (Some err)
      | Done (Inr ks) \<Rightarrow>
          (case try_audiences env j token ks (audiences j) lastError of
             Inr claims \<Rightarrow> Done (Inr claims)
           | Inl err \<Rightarrow> try_issuers env j token (Suc i) wcs err))"

fun error_text :: "goerror \<Rightarrow> string" where
  "error_text ErrAuthenticationFailed = ''authentication failed''"
| "error_text ErrAuthenticationUnavailable = ''authentication service unavailable''"
| "error_text (ErrText t) = t"
| "error_text (ErrWrap m e) = m @ '': '' @ error_text e"

definition system_error :: "goerror \<Rightarrow> bool" where
  "system_error e \<longleftrightarrow> contains (error_text e) ''failed to fetch'' \<or>
     contains (error_text e) ''connection'' \<or> contains (error_text e) ''timeout''"

definition jwt_Authenticate :: "'tok jwt_env \<Rightarrow> JWTSupport authenticator" where
  "jwt_Authenticate env j info r =
     (case ri_Auth (Request info) of
        None \<Rightarrow> Done (j, info, None)
      | Some auth \<Rightarrow>
          if \<not> equal_fold (Kind auth) (authKind j)
          then (if \<not> jwt_permissive j then Done (j, info, Some ErrAuthenticationFailed)
                else Done (j, info, None))
          else (case try_issuers env j (Token auth) 0 (wellknownList j) None of
              Panic m \<Rightarrow> Panic m
            | Done (Inr claims) \<Rightarrow> Done (j, info\<lparr>JWT := VMap claims\<rparr>, None)
            | Done (Inl (Some lastError)) \<Rightarrow>
                (if \<not> jwt_permissive j
                 then (if system_error lastError
                       then Done (j, info, Some ErrAuthenticationUnavailable)
                       else Done (j, info, Some ErrAuthenticationFailed))
                 else Done (j, info, None))
            | Done (Inl None) \<Rightarrow> Done (j, info, Some ErrAuthenticationUnavailable)))"

section \<open>Specifications\<close>

text \<open>Every file issuer has an entry of \<^verbatim>\<open>JWKS\<close> at its index.\<close>

definition jwks_indexed :: "JWTSupport \<Rightarrow> bool" where
  "jwks_indexed j \<longleftrightarrow>
     (\<forall>i < length (wellknownList j). isLocalFile (wellknownList j ! i) \<longrightarrow> i < length (JWKS j))"

text \<open>What \<^verbatim>\<open>jwk.Set.AddKey\<close> is documented to do: the key is in the set afterwards.\<close>

definition adds_key :: "(addr list \<Rightarrow> addr \<Rightarrow> addr list) \<Rightarrow> bool" where
  "adds_key Add \<longleftrightarrow> (\<forall>s a. set (Add s a) = insert a (set s))"

text \<open>The keys of a set that the library parsed or fetched are different objects.\<close>

definition distinct_sets :: "'tok jwt_env \<Rightarrow> bool" where
  "distinct_sets env \<longleftrightarrow>
     (\<forall>text keys heap. jwk_Parse env text = Inr (keys, heap) \<longrightarrow> distinct keys) \<and>
     (\<forall>uri keys heap. jwk_Fetch env uri = Inr (keys, heap) \<longrightarrow> distinct keys)"

text \<open>Every key of a set has an algorithm.\<close>

definition algorithms_set :: "jwk list \<Rightarrow> bool" where
  "algorithms_set ks \<longleftrightarrow> list_all (\<lambda>(a, alg). alg \<noteq> []) ks"

text \<open>All the attempts of one request, in order, each with its result.\<close>

definition issuer_attempts :: "'tok jwt_env \<Rightarrow> JWTSupport \<Rightarrow> string \<Rightarrow> nat \<times> wellKnownData \<Rightarrow> (goerror + 'tok) list" where
  "issuer_attempts env j token = (\<lambda>(i, wc).
     case issuer_keys env j i wc of
       Panic _ \<Rightarrow> []
     | Done (Inl err) \<Rightarrow> [Inl err]
     | Done (Inr ks) \<Rightarrow> map (\<lambda>aud. jwt_Parse env token (parse_options j ks aud)) (audiences j))"

definition attempts :: "'tok jwt_env \<Rightarrow> JWTSupport \<Rightarrow> string \<Rightarrow> (goerror + 'tok) list" where
  "attempts env j token = concat (map (issuer_attempts env j token) (enumerate 0 (wellknownList j)))"

text \<open>The first success decides; without one, the last failure does.\<close>

definition decide :: "bool \<Rightarrow> (goerror + 'tok) list \<Rightarrow> goerror option + 'tok" where
  "decide permissive rs =
     (case List.find (\<lambda>r. \<not> isl r) rs of
        Some (Inr tok) \<Rightarrow> Inr tok
      | _ \<Rightarrow>
          (if rs = [] then Inl (Some ErrAuthenticationUnavailable)
           else if permissive then Inl None
           else if system_error (projl (last rs)) then Inl (Some ErrAuthenticationUnavailable)
           else Inl (Some ErrAuthenticationFailed)))"

text \<open>The same, as a loop that keeps the last error.\<close>

fun scan :: "(goerror + 'tok) list \<Rightarrow> goerror option \<Rightarrow> goerror option + 'tok" where
  "scan [] lastError = Inl lastError"
| "scan (Inl e # rs) lastError = scan rs (Some e)"
| "scan (Inr tok # rs) lastError = Inr tok"

text \<open>What \<^verbatim>\<open>PostFetch\<close> computes, without the memory of \<^verbatim>\<open>algConverter\<close>.\<close>

definition set_all_spec :: "(string \<Rightarrow> string) \<Rightarrow> (addr list \<Rightarrow> addr \<Rightarrow> addr list) \<Rightarrow> string list \<Rightarrow> addr
    \<Rightarrow> addr list \<times> key_heap \<Rightarrow> addr list \<times> key_heap" where
  "set_all_spec K Add algs key = fold (\<lambda>alg (newset, heap). (Add newset key, map_put key (K alg) heap)) algs"

definition post_fetch_spec :: "(string \<Rightarrow> string) \<Rightarrow> (addr list \<Rightarrow> addr \<Rightarrow> addr list) \<Rightarrow> string list \<Rightarrow> addr list
    \<Rightarrow> addr list \<times> key_heap \<Rightarrow> addr list \<times> key_heap" where
  "post_fetch_spec K Add algs = fold (\<lambda>key (newset, heap).
     if alg_of heap key \<noteq> [] then (Add newset key, heap) else set_all_spec K Add algs key (newset, heap))"

text \<open>\<^verbatim>\<open>algConverter\<close> holds only conversions.\<close>

definition conv_ok :: "(string \<Rightarrow> string) \<Rightarrow> alg_map \<Rightarrow> bool" where
  "conv_ok K conv \<longleftrightarrow> (\<forall>n a. map_of conv n = Some a \<longrightarrow> a = K n)"

section \<open>Lemmas on key sets\<close>

lemma alg_of_put: "alg_of (map_put k a h) k' = (if k' = k then a else alg_of h k')"
  by (simp add: alg_of_def)

lemma conv_ok_Nil [simp]: "conv_ok K []"
  by (simp add: conv_ok_def)

lemma getAlgorithm_ok:
  assumes "conv_ok K conv"
  obtains conv' where "getAlgorithm K conv n = (K n, conv')" and "conv_ok K conv'"
proof (cases "map_of conv n")
  case None
  with assms have "conv_ok K (map_put n (K n) conv)" by (simp add: conv_ok_def)
  with None that show ?thesis by (simp add: getAlgorithm_def Let_def)
next
  case (Some a)
  with assms that show ?thesis by (auto simp: getAlgorithm_def conv_ok_def)
qed

lemma set_all_algorithms_spec:
  "conv_ok K conv \<Longrightarrow> \<exists>conv'. conv_ok K conv' \<and>
    set_all_algorithms K Add algs key (s, h, conv) = (case set_all_spec K Add algs key (s, h) of (s', h') \<Rightarrow> (s', h', conv'))"
proof (induction algs arbitrary: s h conv)
  case (Cons alg algs)
  obtain c1 where "getAlgorithm K conv alg = (K alg, c1)" "conv_ok K c1" using Cons.prems by (rule getAlgorithm_ok)
  with Cons.IH [of c1 "Add s key" "map_put key (K alg) h"] show ?case by (simp add: set_all_spec_def)
qed (auto simp: set_all_spec_def)

lemma post_fetch_loop_eq:
  "conv_ok K conv \<Longrightarrow> \<exists>conv'. conv_ok K conv' \<and>
    post_fetch_loop K Add algs keys (s, h, conv) = (case post_fetch_spec K Add algs keys (s, h) of (s', h') \<Rightarrow> (s', h', conv'))"
proof (induction keys arbitrary: s h conv)
  case (Cons key keys)
  show ?case
  proof (cases "alg_of h key = []")
    case True
    obtain s1 h1 where "set_all_spec K Add algs key (s, h) = (s1, h1)" by fastforce
    with set_all_algorithms_spec [OF Cons.prems, of Add algs key s h] obtain c1
      where "conv_ok K c1" "set_all_algorithms K Add algs key (s, h, conv) = (s1, h1, c1)" by auto
    with True Cons.IH [of c1 s1 h1] \<open>set_all_spec K Add algs key (s, h) = (s1, h1)\<close> show ?thesis
      by (simp add: post_fetch_spec_def)
  next
    case False
    with Cons.IH [OF Cons.prems, of "Add s key" h] show ?thesis by (simp add: post_fetch_spec_def)
  qed
qed (auto simp: post_fetch_spec_def)

lemma PostFetch_eq:
  assumes "conv_ok K conv"
  obtains conv' where "conv_ok K conv'" and
    "PostFetch K Add wkd (keys, heap) conv =
      (case post_fetch_spec K Add (SupportedAlgorithms wkd) keys ([], heap) of (ks, h) \<Rightarrow> (ks, h, conv'))"
  using post_fetch_loop_eq [OF assms] that unfolding PostFetch_def by fastforce

lemma set_all_spec_result:
  "adds_key Add \<Longrightarrow> set_all_spec K Add algs key (s, h) = (s', h') \<Longrightarrow>
    alg_of h' k = (if k = key \<and> algs \<noteq> [] then K (last algs) else alg_of h k) \<and>
    set s' = (if algs = [] then set s else insert key (set s))"
  by (induction algs arbitrary: s h) (auto simp: set_all_spec_def alg_of_put adds_key_def split: if_splits)

text \<open>
  Key by key: a key with an algorithm is kept as it is, one without gets the last supported
  algorithm, and is dropped when there is none.
\<close>

lemma post_fetch_spec_result:
  assumes "adds_key Add" and "post_fetch_spec K Add algs keys (s, h) = (s', h')" and "[] \<notin> K ` set algs"
    and "distinct keys"
  shows "set s' = set s \<union> {k \<in> set keys. alg_of h k \<noteq> [] \<or> algs \<noteq> []} \<and>
    (\<forall>k. alg_of h' k = (if k \<in> set keys \<and> alg_of h k = [] \<and> algs \<noteq> [] then K (last algs) else alg_of h k))"
  using assms
proof (induction keys arbitrary: s h)
  case (Cons key keys)
  show ?case
  proof (cases "alg_of h key = []")
    case False
    with Cons.prems have "post_fetch_spec K Add algs keys (Add s key, h) = (s', h')" by (simp add: post_fetch_spec_def)
    with Cons False show ?thesis by (auto simp: adds_key_def)
  next
    case True
    obtain s1 h1 where s1: "set_all_spec K Add algs key (s, h) = (s1, h1)" by fastforce
    with True Cons.prems have "post_fetch_spec K Add algs keys (s1, h1) = (s', h')" by (simp add: post_fetch_spec_def)
    with Cons have IH: "set s' = set s1 \<union> {k \<in> set keys. alg_of h1 k \<noteq> [] \<or> algs \<noteq> []}"
      "\<And>k. alg_of h' k = (if k \<in> set keys \<and> alg_of h1 k = [] \<and> algs \<noteq> [] then K (last algs) else alg_of h1 k)"
      by auto
    note h1 = set_all_spec_result [OF assms(1) s1]
    have "\<And>k. k \<in> set keys \<Longrightarrow> alg_of h1 k = alg_of h k"
      using Cons.prems(4) by (auto simp: h1)
    with True IH h1 Cons.prems(3,4) show ?thesis by auto
  qed
qed (simp add: post_fetch_spec_def)

section \<open>Lemmas on loading\<close>

lemma load_wellknowns_eq: "load_wellknowns env ws acc = acc @ List.map_filter (load_wellknown env) ws"
  by (induction env ws acc rule: load_wellknowns.induct) (auto simp: map_filter_simps split: option.splits)

text \<open>
  What an issuer's key set loads as does not depend on \<^verbatim>\<open>algConverter\<close> nor on what was registered before it.
\<close>

definition loads_as :: "'tok jwt_env \<Rightarrow> wellKnownData \<Rightarrow> jwks_entry option" where
  "loads_as env wk = fst (load_jwks env wk ([], []))"

lemma load_jwks_state:
  assumes "conv_ok (KeyAlgorithmFrom env) conv"
  obtains conv' registered' where "load_jwks env wk (conv, registered) = (loads_as env wk, conv', registered')"
    and "conv_ok (KeyAlgorithmFrom env) conv'" and "registered' \<in> {registered, map_put (JwksURI wk) wk registered}"
proof -
  have fetch: "\<exists>conv'. conv_ok (KeyAlgorithmFrom env) conv' \<and>
      PostFetch (KeyAlgorithmFrom env) (AddKey env) wk (keys, heap) c =
        (case post_fetch_spec (KeyAlgorithmFrom env) (AddKey env) (SupportedAlgorithms wk) keys ([], heap) of
           (ks, h) \<Rightarrow> (ks, h, conv'))" if "conv_ok (KeyAlgorithmFrom env) c" for keys heap c
    using that by (rule PostFetch_eq) blast
  show ?thesis
  proof (cases "\<exists>data keys heap. isFileURL (sourceURL wk) \<and> isFileURL (JwksURI wk) \<and>
      readFileURL (ip_literal_ok env) (ReadFile env) (JwksURI wk) = Inr data \<and> jwk_Parse env data = Inr (keys, heap)")
    case True
    then obtain data keys heap where src: "isFileURL (sourceURL wk)" "isFileURL (JwksURI wk)"
      "readFileURL (ip_literal_ok env) (ReadFile env) (JwksURI wk) = Inr data" "jwk_Parse env data = Inr (keys, heap)" by blast
    obtain ks h where "post_fetch_spec (KeyAlgorithmFrom env) (AddKey env) (SupportedAlgorithms wk) keys ([], heap) = (ks, h)"
      by fastforce
    with fetch [OF assms, of keys heap] fetch [OF conv_ok_Nil, of keys heap] src that show ?thesis
      by (auto simp: load_jwks_def loads_as_def)
  next
    case False
    have "cache_Get env (map_put (JwksURI wk) wk registered) (JwksURI wk) = cache_Get env [(JwksURI wk, wk)] (JwksURI wk)"
      by (simp add: cache_Get_def)
    with False have "load_jwks env wk (conv, registered) = (loads_as env wk, conv, registered) \<or>
        load_jwks env wk (conv, registered) = (loads_as env wk, conv, map_put (JwksURI wk) wk registered)"
      unfolding load_jwks_def loads_as_def by (auto simp: Let_def split: sum.splits option.splits)
    with assms that show ?thesis by blast
  qed
qed

lemma load_jwks_all_eq:
  assumes "conv_ok (KeyAlgorithmFrom env) conv"
  shows "\<exists>conv' registered'. load_jwks_all env wks (conv, registered) acc =
      (acc @ List.map_filter (loads_as env) wks, conv', registered') \<and>
    (\<forall>u wk. map_of registered' u = Some wk \<longrightarrow> map_of registered u = Some wk \<or> wk \<in> set wks)"
  using assms
proof (induction wks arbitrary: conv registered acc)
  case (Cons wk wks)
  obtain c1 r1 where step: "load_jwks env wk (conv, registered) = (loads_as env wk, c1, r1)"
    "conv_ok (KeyAlgorithmFrom env) c1" "r1 \<in> {registered, map_put (JwksURI wk) wk registered}"
    using Cons.prems by (rule load_jwks_state)
  let ?acc = "case loads_as env wk of None \<Rightarrow> acc | Some e \<Rightarrow> acc @ [e]"
  have run: "load_jwks_all env (wk # wks) (conv, registered) acc = load_jwks_all env wks (c1, r1) ?acc"
    using step(1) by (simp split: option.split)
  obtain c2 r2 where rest: "load_jwks_all env wks (c1, r1) ?acc = (?acc @ List.map_filter (loads_as env) wks, c2, r2)"
    "\<forall>u w. map_of r2 u = Some w \<longrightarrow> map_of r1 u = Some w \<or> w \<in> set wks"
    using Cons.IH [OF step(2)] by blast
  have "map_of r1 u = Some w \<Longrightarrow> map_of registered u = Some w \<or> w = wk" for u w
    using step(3) by (auto split: if_splits)
  with rest(2) have "\<forall>u w. map_of r2 u = Some w \<longrightarrow> map_of registered u = Some w \<or> w \<in> set (wk # wks)"
    by fastforce
  moreover have "load_jwks_all env (wk # wks) (conv, registered) acc = (acc @ List.map_filter (loads_as env) (wk # wks), c2, r2)"
    unfolding run rest(1) by (simp add: map_filter_simps split: option.split)
  ultimately show ?case by blast
qed (simp add: map_filter_simps)

lemma decode_strings_all [simp]: "decode_strings old (map JStr ss) = (ss, False)"
  by (induction ss arbitrary: old) auto

text \<open>A document whose members of the two names agree decodes to their values.\<close>

lemma decode_fields:
  assumes "\<forall>(k, v) \<in> set ms. (equal_fold k ''jwks_uri'' \<longrightarrow> v = JStr uri) \<and>
      (equal_fold k ''id_token_signing_alg_values_supported'' \<longrightarrow> v = JArr (map JStr algs))"
  shows "fold decode_field ms (u, a, False) =
    (if \<exists>(k, v) \<in> set ms. equal_fold k ''jwks_uri'' then uri else u,
     if \<exists>(k, v) \<in> set ms. equal_fold k ''id_token_signing_alg_values_supported'' then algs else a, False)"
  using assms
proof (induction ms arbitrary: u a)
  case (Cons m ms)
  obtain k v where m: "m = (k, v)" by fastforce
  have "\<not> (equal_fold k ''jwks_uri'' \<and> equal_fold k ''id_token_signing_alg_values_supported'')"
    by (auto simp: equal_fold_def lower_byte_def)
  then show ?case
    using Cons.prems Cons.IH [of uri a] Cons.IH [of u algs] Cons.IH [of u a] by (auto simp: m decode_field_def)
qed simp

text \<open>After \<^verbatim>\<open>PostFetch\<close> every key has an algorithm, in a set from a file and in one from the cache.\<close>

lemma PostFetch_sets_algorithms:
  assumes "adds_key Add" and "distinct keys" and "[] \<notin> K ` set (SupportedAlgorithms wk)" and "conv_ok K conv"
    and "PostFetch K Add wk (keys, heap) conv = (keys', heap', conv')"
  shows "algorithms_set (set_view (keys', heap'))"
proof -
  obtain c where "PostFetch K Add wk (keys, heap) conv =
      (case post_fetch_spec K Add (SupportedAlgorithms wk) keys ([], heap) of (ks, h) \<Rightarrow> (ks, h, c))"
    using assms(4) by (rule PostFetch_eq)
  with assms(5) have "post_fetch_spec K Add (SupportedAlgorithms wk) keys ([], heap) = (keys', heap')"
    by (auto split: prod.splits)
  note res = post_fetch_spec_result [OF assms(1) this assms(3,2)]
  have last: "K (last (SupportedAlgorithms wk)) \<noteq> []" if "SupportedAlgorithms wk \<noteq> []"
    using assms(3) last_in_set [OF that] by (metis image_eqI)
  have "alg_of heap' k \<noteq> []" if "k \<in> set keys'" for k
    using res that last by (cases "alg_of heap k = []") auto
  then show ?thesis by (auto simp: algorithms_set_def set_view_def list_all_iff)
qed

lemma cache_Get_algorithms:
  assumes "adds_key (AddKey env)" and "distinct_sets env" and "cache_Get env registered uri = Inr ks"
    and "\<And>u wk. map_of registered u = Some wk \<Longrightarrow> [] \<notin> KeyAlgorithmFrom env ` set (SupportedAlgorithms wk)"
  shows "algorithms_set ks"
proof -
  obtain wk keys heap where wk: "map_of registered uri = Some wk" "jwk_Fetch env uri = Inr (keys, heap)"
    using assms(3) by (auto simp: cache_Get_def split: option.splits sum.splits)
  obtain keys' heap' conv' where run: "PostFetch (KeyAlgorithmFrom env) (AddKey env) wk (keys, heap) [] = (keys', heap', conv')"
    by (rule prod_cases3)
  have "distinct keys" using assms(2) wk(2) unfolding distinct_sets_def by blast
  from PostFetch_sets_algorithms [OF assms(1) this assms(4) [OF wk(1)] conv_ok_Nil run] wk run assms(3)
  show ?thesis by (simp add: cache_Get_def)
qed

lemma loads_as_algorithms:
  assumes "adds_key (AddKey env)" and "distinct_sets env" and "loads_as env wk = Some (StaticSet ks)"
    and "[] \<notin> KeyAlgorithmFrom env ` set (SupportedAlgorithms wk)"
  shows "algorithms_set ks"
proof -
  obtain data keys heap where src: "isFileURL (sourceURL wk)" "isFileURL (JwksURI wk)"
    "readFileURL (ip_literal_ok env) (ReadFile env) (JwksURI wk) = Inr data" "jwk_Parse env data = Inr (keys, heap)"
    using assms(3) by (auto simp: loads_as_def load_jwks_def Let_def split: if_splits sum.splits option.splits)
  obtain keys' heap' conv' where run: "PostFetch (KeyAlgorithmFrom env) (AddKey env) wk (keys, heap) [] = (keys', heap', conv')"
    by (rule prod_cases3)
  have "distinct keys" using assms(2) src(4) unfolding distinct_sets_def by blast
  from PostFetch_sets_algorithms [OF assms(1) this assms(4) conv_ok_Nil run] src run assms(3)
  show ?thesis by (simp add: loads_as_def load_jwks_def)
qed

text \<open>What the provider starts with.\<close>

lemma jwtsupport_New_sets:
  assumes "jwtsupport_New env wks audKey audList kind permissive = Inr j"
  shows "JWKS j = List.map_filter (loads_as env) (wellknownList j)"
    and "map_of (jwk_cache j) u = Some wk \<Longrightarrow> wk \<in> set (wellknownList j)"
proof -
  let ?wcs = "load_wellknowns env wks []"
  obtain c r where all: "load_jwks_all env ?wcs ([], []) [] = (List.map_filter (loads_as env) ?wcs, c, r)"
    "\<forall>u wk. map_of r u = Some wk \<longrightarrow> wk \<in> set ?wcs"
    using load_jwks_all_eq [OF conv_ok_Nil, of env ?wcs "[]" "[]"] by auto
  with assms show "JWKS j = List.map_filter (loads_as env) (wellknownList j)"
    and "map_of (jwk_cache j) u = Some wk \<Longrightarrow> wk \<in> set (wellknownList j)"
    by (auto simp: jwtsupport_New_def LoadWellKnowns_def LoadJWKS_def Let_def split: if_splits)
qed

lemma map_filter_all_Some:
  "\<forall>x \<in> set xs. f x \<noteq> None \<Longrightarrow> List.map_filter f xs = map (\<lambda>x. the (f x)) xs"
  by (induction xs) (auto simp: map_filter_simps)

lemma load_wellknown_local: "load_wellknown env w = Some wc \<Longrightarrow> isLocalFile wc = isFileURL (sourceURL wc)"
  by (auto simp: load_wellknown_def split: if_splits sum.splits)

section \<open>Lemmas on authentication\<close>

lemma scan_append:
  "scan (a @ b) e = (case scan a e of Inr t \<Rightarrow> Inr t | Inl e' \<Rightarrow> scan b e')"
  by (induction a e rule: scan.induct) auto

lemma scan_find:
  "scan rs e = (case List.find (\<lambda>r. \<not> isl r) rs of Some (Inr t) \<Rightarrow> Inr t
     | _ \<Rightarrow> Inl (if rs = [] then e else Some (projl (last rs))))"
  by (induction rs e rule: scan.induct) (auto split: option.splits sum.splits)

lemma try_audiences_scan:
  "try_audiences env j token ks auds e =
    map_sum (\<lambda>e. e) (AsMap env) (scan (map (\<lambda>aud. jwt_Parse env token (parse_options j ks aud)) auds) e)"
  by (induction env j token ks auds e rule: try_audiences.induct) (auto split: sum.splits)

lemma try_issuers_scan:
  assumes "\<And>k. k < length wcs \<Longrightarrow> isLocalFile (wcs ! k) \<Longrightarrow> i + k < length (JWKS j)"
  shows "try_issuers env j token i wcs e =
    Done (map_sum (\<lambda>e. e) (AsMap env) (scan (concat (map (issuer_attempts env j token) (enumerate i wcs))) e))"
  using assms
proof (induction wcs arbitrary: i e)
  case (Cons wc wcs)
  have IH: "\<And>e. try_issuers env j token (Suc i) wcs e = Done (map_sum (\<lambda>e. e) (AsMap env)
      (scan (concat (map (issuer_attempts env j token) (enumerate (Suc i) wcs))) e))"
    by (rule Cons.IH) (use Cons.prems [of "Suc _"] in auto)
  have "isLocalFile wc \<Longrightarrow> i < length (JWKS j)" using Cons.prems [of 0] by simp
  then obtain x where x: "issuer_keys env j i wc = Done x"
    by (cases "isLocalFile wc") (auto simp: issuer_keys_def)
  show ?case
  proof (cases x)
    case (Inl err)
    with x IH show ?thesis by (simp add: issuer_attempts_def)
  next
    case (Inr ks)
    with x IH show ?thesis
      by (auto simp: issuer_attempts_def try_audiences_scan scan_append split: sum.splits)
  qed
qed simp

lemma jwt_Authenticate_decide:
  assumes "jwks_indexed j" and "ri_Auth (Request i) = Some a" and "equal_fold (Kind a) (authKind j)"
  shows "jwt_Authenticate env j i r =
    Done (case decide (jwt_permissive j) (attempts env j (Token a)) of
        Inr tok \<Rightarrow> (j, i\<lparr>JWT := VMap (AsMap env tok)\<rparr>, None)
      | Inl e \<Rightarrow> (j, i, e))"
proof -
  have "try_issuers env j (Token a) 0 (wellknownList j) None =
      Done (map_sum (\<lambda>e. e) (AsMap env) (scan (attempts env j (Token a)) None))"
    unfolding attempts_def
    by (rule try_issuers_scan) (use assms(1) in \<open>simp add: jwks_indexed_def\<close>)
  with assms(2,3) show ?thesis
    by (auto simp: jwt_Authenticate_def decide_def scan_find
        split: option.splits sum.splits)
qed

interpretation jwt: auth_provider "jwt_Authenticate env" jwks_indexed for env
proof unfold_locales
  fix p i r
  assume idx: "jwks_indexed p"
  show "\<exists>y. jwt_Authenticate env p i r = Done y"
  proof (cases "\<exists>a. ri_Auth (Request i) = Some a \<and> equal_fold (Kind a) (authKind p)")
    case True
    then show ?thesis using jwt_Authenticate_decide [OF idx] by blast
  next
    case False
    then show ?thesis by (auto simp: jwt_Authenticate_def split: option.splits)
  qed
qed (auto simp: jwt_Authenticate_def IsAuthenticationError_def
    split: option.splits if_splits outcome.splits sum.splits)

lemma try_audiences_Inr:
  "try_audiences env j token ks auds e = Inr claims \<Longrightarrow>
    \<exists>aud tok. aud \<in> set auds \<and> jwt_Parse env token (parse_options j ks aud) = Inr tok \<and> claims = AsMap env tok"
  by (induction env j token ks auds e rule: try_audiences.induct) (auto split: sum.splits)

lemma try_issuers_Inr:
  "try_issuers env j token i wcs e = Done (Inr claims) \<Longrightarrow>
    \<exists>n ks aud tok. n < length wcs \<and> issuer_keys env j (i + n) (wcs ! n) = Done (Inr ks) \<and>
      aud \<in> set (audiences j) \<and> jwt_Parse env token (parse_options j ks aud) = Inr tok \<and>
      claims = AsMap env tok"
proof (induction wcs arbitrary: i e)
  case (Cons wc wcs)
  have later: ?case if "try_issuers env j token (Suc i) wcs e' = Done (Inr claims)" for e'
    using Cons.IH [OF that] by (metis Suc_less_eq add_Suc add_Suc_right length_Cons nth_Cons_Suc)
  show ?case
  proof (cases "issuer_keys env j i wc")
    case (Done x)
    show ?thesis
    proof (cases x)
      case (Inl err)
      with Cons.prems Done show ?thesis by (intro later) simp
    next
      case (Inr ks)
      show ?thesis
      proof (cases "try_audiences env j token ks (audiences j) e")
        case (Inl err)
        with Cons.prems Done Inr show ?thesis by (intro later) simp
      next
        case claims: (Inr c)
        with Cons.prems Done Inr have "c = claims" by simp
        with try_audiences_Inr [OF claims] Done Inr show ?thesis by (intro exI [of _ 0]) auto
      qed
    qed
  qed (use Cons.prems in simp)
qed simp

lemma parse_options_demands:
  "{WithValidate True, WithVerify True,
    if audienceKey j = ''aud'' then WithAudience aud else WithClaimValue (audienceKey j) aud}
     \<subseteq> set (parse_options j ks aud)"
  by (auto simp: parse_options_def)

text \<open>\<^verbatim>\<open>Authenticate\<close> in one expression, without loops.\<close>

definition jwt_spec :: "'tok jwt_env \<Rightarrow> JWTSupport \<Rightarrow> Info \<Rightarrow> Info \<times> goerror option" where
  "jwt_spec env j i =
     (case ri_Auth (Request i) of
        None \<Rightarrow> (i, None)
      | Some a \<Rightarrow>
          if \<not> equal_fold (Kind a) (authKind j)
          then (i, if jwt_permissive j then None else Some ErrAuthenticationFailed)
          else (case decide (jwt_permissive j) (attempts env j (Token a)) of
              Inr tok \<Rightarrow> (i\<lparr>JWT := VMap (AsMap env tok)\<rparr>, None)
            | Inl e \<Rightarrow> (i, e)))"

section \<open>Sample data\<close>

text \<open>
  Two issuers with file URLs. The first key set cannot be read when \<open>broken\<close> is set; every token is
  refused but \<^verbatim>\<open>good\<close>.
\<close>

definition sample_document :: "string \<Rightarrow> string" where
  "sample_document uri = json_print (JObj [(''issuer'', JStr ''me''), (''jwks_uri'', JStr uri),
     (''id_token_signing_alg_values_supported'', JArr [JStr ''RS256''])])"

definition sample_jwt_env :: "bool \<Rightarrow> unit jwt_env" where
  "sample_jwt_env broken =
     \<lparr>ip_literal_ok = (\<lambda>_. True),
      ReadFile = (\<lambda>p. if broken \<and> p = ''/ka'' then Inl (ErrText ''no such file'')
        else if p = ''/a'' then Inr (sample_document ''file:/ka'') else if p = ''/b'' then Inr (sample_document ''file:/kb'')
        else Inr []),
      http_wellknown = (\<lambda>u. Inl (ErrText ''not found'')),
      jwk_Parse = (\<lambda>d. Inr ([1], [])), jwk_Register = (\<lambda>u. None), jwk_Fetch = (\<lambda>u. Inr ([1], [])),
      KeyAlgorithmFrom = (\<lambda>n. n), AddKey = (\<lambda>s a. if a \<in> set s then s else s @ [a]),
      jwt_Parse = (\<lambda>t opts. if t = ''good'' then Inr () else Inl (ErrText ''bad signature'')),
      AsMap = (\<lambda>t. [(''sub'', VString ''bob'')])\<rparr>"

definition sample_bearer :: "string \<Rightarrow> Info" where
  "sample_bearer token =
     \<lparr>Request = \<lparr>ri_Method = ''GET'', ri_Path = [], ri_Headers = [], ri_BlockedHeaders = None,
        ri_Auth = Some (parse_auth (''Bearer '' @ token)), ri_Size = 0, ri_ID = []\<rparr>,
      JWT = VNil, User = VNil, Result = VNil, URL = ''/''\<rparr>"

definition plain_request :: request where
  "plain_request = \<lparr>r_Method = ''GET'', r_Path = ''/'', r_RawQuery = [], r_ContentLength = 0, r_RemoteIP = None,
     r_Header = [], r_ctxInfo = None, r_ctxBlocked = None\<rparr>"

definition sample_jwt :: JWTSupport where
  "sample_jwt =
     \<lparr>audiences = [''x''], audienceKey = ''aud'', authKind = ''bearer'', wellKnowns = [''file:/a''],
      wellknownList = [\<lparr>JwksURI = ''file:/ka'', SupportedAlgorithms = [''RS256''], sourceURL = ''file:/a'',
        isLocalFile = True\<rparr>], jwk_cache = [],
      JWKS = [StaticSet [(1, ''RS256'')]], jwt_permissive = False\<rparr>"

section \<open>Properties\<close>

text \<open>
  C14. The decision on a bearer token. When every file issuer has its entry of \<^verbatim>\<open>JWKS\<close>, the loops over
  issuers and audiences return, and the first attempt that succeeds decides; without one the last failure
  does, 503 for a transport failure and 401 otherwise, nothing in permissive mode, and unavailable when
  there was no attempt at all. Requests without credentials pass as anonymous, credentials of another
  kind fail in strict mode.
\<close>

theorem jwt_decision:
  assumes "jwks_indexed j"
  shows "jwt_Authenticate env j i r = Done (j, jwt_spec env j i)"
proof (cases "\<exists>a. ri_Auth (Request i) = Some a \<and> equal_fold (Kind a) (authKind j)")
  case True
  then obtain a where a: "ri_Auth (Request i) = Some a" "equal_fold (Kind a) (authKind j)" by blast
  show ?thesis
    unfolding jwt_Authenticate_decide [OF assms a] by (simp add: jwt_spec_def a split: sum.splits)
next
  case False
  then show ?thesis by (auto simp: jwt_Authenticate_def jwt_spec_def split: option.splits)
qed

theorem jwt_decision_witness:
  "jwt_Authenticate (sample_jwt_env False) sample_jwt (sample_bearer ''good'') plain_request =
    Done (sample_jwt, jwt_spec (sample_jwt_env False) sample_jwt (sample_bearer ''good'')) \<and>
   snd (jwt_spec (sample_jwt_env False) sample_jwt (sample_bearer ''good'')) = None"
proof
  have "jwks_indexed sample_jwt" by (simp add: jwks_indexed_def sample_jwt_def)
  then show "jwt_Authenticate (sample_jwt_env False) sample_jwt (sample_bearer ''good'') plain_request =
      Done (sample_jwt, jwt_spec (sample_jwt_env False) sample_jwt (sample_bearer ''good''))"
    by (rule jwt_decision)
  show "snd (jwt_spec (sample_jwt_env False) sample_jwt (sample_bearer ''good'')) = None" by code_simp
qed

text \<open>
  C15. Claims come only from a verified token. When \<^verbatim>\<open>Authenticate\<close> sets claims, the token parser accepted
  the token of the request in a call that asks for validation and signature verification and demands one
  of the configured audiences, with the keys of one of the configured issuers, and the claims are those
  of that token.
\<close>

theorem claims_from_verified_token:
  assumes "jwt_Authenticate env j i r = Done (j', i', e)" and "JWT i' \<noteq> JWT i"
  shows "\<exists>a n ks aud tok. ri_Auth (Request i) = Some a \<and> n < length (wellknownList j) \<and>
    issuer_keys env j n (wellknownList j ! n) = Done (Inr ks) \<and> aud \<in> set (audiences j) \<and>
    jwt_Parse env (Token a) (parse_options j ks aud) = Inr tok \<and> JWT i' = VMap (AsMap env tok) \<and>
    {WithValidate True, WithVerify True,
     if audienceKey j = ''aud'' then WithAudience aud else WithClaimValue (audienceKey j) aud}
      \<subseteq> set (parse_options j ks aud) \<and> e = None"
proof -
  obtain a claims where a: "ri_Auth (Request i) = Some a"
    "try_issuers env j (Token a) 0 (wellknownList j) None = Done (Inr claims)"
    "JWT i' = VMap claims" "e = None"
    using assms by (auto simp: jwt_Authenticate_def split: option.splits if_splits outcome.splits sum.splits)
  from try_issuers_Inr [OF a(2)] a(1,3,4) parse_options_demands [of j] show ?thesis
    unfolding add_0 by metis
qed

theorem claims_from_verified_token_witness:
  "\<exists>ks aud. aud \<in> set (audiences sample_jwt) \<and>
     jwt_Parse (sample_jwt_env False) ''good'' (parse_options sample_jwt ks aud) = Inr ()"
proof -
  obtain j' i' e where run:
    "jwt_Authenticate (sample_jwt_env False) sample_jwt (sample_bearer ''good'') plain_request = Done (j', i', e)"
    "JWT i' = VMap [(''sub'', VString ''bob'')]"
  proof -
    have "case jwt_Authenticate (sample_jwt_env False) sample_jwt (sample_bearer ''good'') plain_request of
        Done (j', i', e) \<Rightarrow> JWT i' = VMap [(''sub'', VString ''bob'')] | Panic _ \<Rightarrow> False" by code_simp
    then show ?thesis using that by (auto split: outcome.splits)
  qed
  have "Token (parse_auth (''Bearer '' @ ''good'')) = ''good''" by code_simp
  with claims_from_verified_token [OF run(1)] run(2) show ?thesis
    by (fastforce simp: sample_bearer_def)
qed


text \<open>An issuer over HTTP whose key has no algorithm of its own.\<close>

definition http_jwt_env :: "unit jwt_env" where
  "http_jwt_env = (sample_jwt_env False)\<lparr>http_wellknown := (\<lambda>u. Inr (''https://k'', [''RS256'']))\<rparr>"


text \<open>
  What \<^verbatim>\<open>PostFetch\<close> does to a key set. Keys with an algorithm stay as they are; a key without one
  ends up with the last of the issuer's supported algorithms, and is dropped when the issuer lists none.
  The key is one object, so adding it once per algorithm does not leave one key per algorithm.
\<close>

theorem PostFetch_algorithms:
  assumes "adds_key Add" and "distinct keys" and "[] \<notin> K ` set (SupportedAlgorithms wkd)" and "conv_ok K conv"
    and "PostFetch K Add wkd (keys, heap) conv = (keys', heap', conv')"
  shows "set keys' = {k \<in> set keys. alg_of heap k \<noteq> [] \<or> SupportedAlgorithms wkd \<noteq> []} \<and>
    (\<forall>k \<in> set keys'. alg_of heap' k =
       (if alg_of heap k = [] then K (last (SupportedAlgorithms wkd)) else alg_of heap k)) \<and> conv_ok K conv'"
proof -
  obtain c where "conv_ok K c" "PostFetch K Add wkd (keys, heap) conv =
      (case post_fetch_spec K Add (SupportedAlgorithms wkd) keys ([], heap) of (ks, h) \<Rightarrow> (ks, h, c))"
    using assms(4) by (rule PostFetch_eq)
  with assms(5) have "post_fetch_spec K Add (SupportedAlgorithms wkd) keys ([], heap) = (keys', heap')" "conv' = c"
    by (auto split: prod.splits)
  with post_fetch_spec_result [OF assms(1) this(1) assms(3,2)] \<open>conv_ok K c\<close> show ?thesis by auto
qed

theorem PostFetch_algorithms_witness:
  "\<exists>keys' heap' conv'. PostFetch (\<lambda>n. n) (\<lambda>s a. if a \<in> set s then s else s @ [a])
      \<lparr>JwksURI = [], SupportedAlgorithms = [''RS256'', ''ES256''], sourceURL = [], isLocalFile = True\<rparr>
      ([1, 2], [(2, ''RS512'')]) [] = (keys', heap', conv') \<and> set keys' = {1, 2} \<and> alg_of heap' 1 = ''ES256''"
proof -
  let ?add = "\<lambda>s a. if a \<in> set s then s else s @ [a :: addr]"
    and ?w = "\<lparr>JwksURI = [], SupportedAlgorithms = [''RS256'', ''ES256''], sourceURL = [], isLocalFile = True\<rparr>"
  obtain ks h c where run: "PostFetch (\<lambda>n. n) ?add ?w ([1, 2], [(2, ''RS512'')]) [] = (ks, h, c)" by (rule prod_cases3)
  have "adds_key ?add" by (auto simp: adds_key_def)
  from PostFetch_algorithms [OF this _ _ _ run] run show ?thesis by (auto simp: alg_of_def)
qed

text \<open>
  C34. A well-known document is loaded as it was written. A file that holds a JSON object of ASCII text, in
  which the members for the key set and the algorithms are a string and an array of strings, among any other
  members, in any letter case of the names and with repetitions that agree, is loaded as an issuer with
  exactly that key set address and these algorithms.
\<close>

theorem wellknown_document_roundtrip:
  assumes "isFileURL w" and "readFileURL (ip_literal_ok env) (ReadFile env) w = Inr (json_print (JObj ms))"
    and "ascii_json (JObj ms)" and "fits maxNestingDepth (JObj ms)"
    and "(''jwks_uri'', JStr uri) \<in> set ms"
    and "(''id_token_signing_alg_values_supported'', JArr (map JStr algs)) \<in> set ms"
    and "\<forall>(k, v) \<in> set ms. (equal_fold k ''jwks_uri'' \<longrightarrow> v = JStr uri) \<and>
      (equal_fold k ''id_token_signing_alg_values_supported'' \<longrightarrow> v = JArr (map JStr algs))"
  shows "load_wellknown env w = Some \<lparr>JwksURI = uri, SupportedAlgorithms = algs, sourceURL = w, isLocalFile = True\<rparr>"
proof -
  have "equal_fold k k" for k by (simp add: equal_fold_def)
  then have "fold decode_field ms ([], [], False) = (uri, algs, False)"
    using decode_fields [OF assms(7), of "[]" "[]"] assms(5,6) by fastforce
  then have "unmarshal_wellknown (json_print (JObj ms)) = Inr (uri, algs)"
    using json_parse_print [OF assms(3,4)] by (simp add: unmarshal_wellknown_def)
  moreover have "w \<noteq> []" using assms(1) by (auto simp: isFileURL_def has_prefix_def)
  ultimately show ?thesis using assms(1,2) by (simp add: load_wellknown_def)
qed

theorem wellknown_document_roundtrip_witness:
  "load_wellknown (sample_jwt_env False) ''file:/a'' =
    Some \<lparr>JwksURI = ''file:/ka'', SupportedAlgorithms = [''RS256''], sourceURL = ''file:/a'', isLocalFile = True\<rparr>"
proof (rule wellknown_document_roundtrip)
  let ?ms = "[(''issuer'', JStr ''me''), (''jwks_uri'', JStr ''file:/ka''),
     (''id_token_signing_alg_values_supported'', JArr (map JStr [''RS256'']))]"
  show "isFileURL ''file:/a''" by code_simp
  have "readFileURL (ip_literal_ok (sample_jwt_env False)) (ReadFile (sample_jwt_env False)) ''file:/a'' =
      Inr (sample_document ''file:/ka'')" by code_simp
  then show "readFileURL (ip_literal_ok (sample_jwt_env False)) (ReadFile (sample_jwt_env False)) ''file:/a'' =
      Inr (json_print (JObj ?ms))" by (simp add: sample_document_def)
  show "ascii_json (JObj ?ms)" by (simp add: ascii_text_def)
  show "fits maxNestingDepth (JObj ?ms)" by (simp add: maxNestingDepth_def)
  show "\<forall>(k, v) \<in> set ?ms. (equal_fold k ''jwks_uri'' \<longrightarrow> v = JStr ''file:/ka'') \<and>
      (equal_fold k ''id_token_signing_alg_values_supported'' \<longrightarrow> v = JArr (map JStr [''RS256'']))"
    by (simp add: equal_fold_def lower_byte_def)
qed simp_all

text \<open>
  When every well-known document and every key set loads, the provider starts, each issuer has its
  own key set at its index, and no later call panics.
\<close>

theorem loaded_issuers_aligned:
  assumes "wks \<noteq> []" and "audList \<noteq> []"
    and "\<forall>w \<in> set wks. \<exists>wc. load_wellknown env w = Some wc \<and> loads_as env wc \<noteq> None"
  shows "\<exists>j. jwtsupport_New env wks audKey audList kind permissive = Inr j \<and> jwks_indexed j \<and>
    map Some (JWKS j) = map (loads_as env) (wellknownList j) \<and> length (JWKS j) = length wks"
proof -
  let ?wcs = "map (\<lambda>w. the (load_wellknown env w)) wks"
  have known: "load_wellknowns env wks [] = ?wcs"
    using assms(3) by (subst load_wellknowns_eq, subst map_filter_all_Some) fastforce+
  have ok: "\<forall>wc \<in> set ?wcs. loads_as env wc \<noteq> None" using assms(3) by fastforce
  obtain c r where all: "load_jwks_all env ?wcs ([], []) [] = (map (\<lambda>wc. the (loads_as env wc)) ?wcs, c, r)"
    using load_jwks_all_eq [OF conv_ok_Nil, of env ?wcs "[]" "[]"] map_filter_all_Some [OF ok] by auto
  have "map Some (map (\<lambda>wc. the (loads_as env wc)) ?wcs) = map (loads_as env) ?wcs"
    using ok by (simp add: comp_def)
  with known all show ?thesis
    using assms(1,2)
    by (auto simp: jwtsupport_New_def LoadWellKnowns_def LoadJWKS_def jwks_indexed_def Let_def)
qed

theorem loaded_issuers_aligned_witness:
  "\<exists>j. jwtsupport_New (sample_jwt_env False) [''file:/a'', ''file:/b''] ''aud'' [''x''] ''bearer'' False = Inr j \<and>
    jwks_indexed j \<and> length (JWKS j) = 2"
proof -
  have "list_all (\<lambda>w. case load_wellknown (sample_jwt_env False) w of
      None \<Rightarrow> False | Some wc \<Rightarrow> loads_as (sample_jwt_env False) wc \<noteq> None) [''file:/a'', ''file:/b'']"
    by code_simp
  then have "\<forall>w \<in> set [''file:/a'', ''file:/b'']. \<exists>wc. load_wellknown (sample_jwt_env False) w = Some wc \<and>
      loads_as (sample_jwt_env False) wc \<noteq> None"
    by (auto simp: list_all_iff split: option.splits)
  from loaded_issuers_aligned [OF _ _ this, of "[''x'']" "''aud''" "''bearer''" False] show ?thesis by auto
qed

text \<open>
  When a key set fails to load, the indices of \<^verbatim>\<open>JWKS\<close> and of the issuers no longer agree: with two
  file issuers of which the first has no readable key set, the program starts, checks tokens of the first
  issuer against the keys of the second, and panics on a token that those keys do not accept.
\<close>

theorem failed_key_set_panics:
  "\<exists>j m. jwtsupport_New (sample_jwt_env True) [''file:/a'', ''file:/b''] ''aud'' [''x''] ''bearer'' False = Inr j \<and>
    length (wellknownList j) = 2 \<and> length (JWKS j) = 1 \<and>
    jwt_Authenticate (sample_jwt_env True) j (sample_bearer ''bad'') plain_request = Panic m"
proof -
  have "case jwtsupport_New (sample_jwt_env True) [''file:/a'', ''file:/b''] ''aud'' [''x''] ''bearer'' False of
      Inl _ \<Rightarrow> False
    | Inr j \<Rightarrow> length (wellknownList j) = 2 \<and> length (JWKS j) = 1 \<and>
        (case jwt_Authenticate (sample_jwt_env True) j (sample_bearer ''bad'') plain_request of
           Panic _ \<Rightarrow> True | Done _ \<Rightarrow> False)"
    by code_simp
  then show ?thesis by (auto split: sum.splits outcome.splits)
qed

end
