(* ===== verification/Azure_Auth.thy ===== *)
theory Azure_Auth
  imports Auth_Provider
begin

text \<open>
  \<^verbatim>\<open>internal/azure\<close>: the provider that reads the application id from the bearer token and asks
  Microsoft Graph for the application with that token. The token parser, the HTTP client and the
  expiring cache of applications are the fields of \<open>azure_env\<close>; the cache is the provider's state.
\<close>

section \<open>Data\<close>

type_synonym app = "(string, string) gomap"

record ('tok, 'resp, 'c) azure_env =
  jwt_Parse_unverified :: "string \<Rightarrow> goerror + 'tok"
  token_Get :: "'tok \<Rightarrow> string \<Rightarrow> goval option"
  graph_Get :: "string \<Rightarrow> goerror option"
  graph_Do :: "string \<Rightarrow> (string \<times> string) list \<Rightarrow> (string \<times> string) list \<Rightarrow> goerror + 'resp"
  ParseJSON :: "'resp \<Rightarrow> goerror + app"
  userCache_Get :: "'c \<Rightarrow> string \<Rightarrow> app option"
  userCache_SetDefault :: "'c \<Rightarrow> string \<Rightarrow> app \<Rightarrow> 'c"

record AzureAuthProvider =
  az_tenant :: string
  az_header :: string
  az_permissive :: bool

text \<open>What the program relies on of the cache: a lookup gives only what was stored under the key.\<close>

definition app_cache :: "('tok, 'resp, 'c) azure_env \<Rightarrow> bool" where
  "app_cache env \<longleftrightarrow>
     (\<forall>c k m k' m'. userCache_Get env (userCache_SetDefault env c k m) k' = Some m' \<longrightarrow>
        (if k' = k then m' = m else userCache_Get env c k' = Some m'))"

text \<open>
  What it relies on of Graph: an application is returned only for an application id and an access token
  that hold no colon (the ids are GUIDs, the tokens signed tokens in compact form).
\<close>

definition graph_identifiers :: "('tok, 'resp, 'c) azure_env \<Rightarrow> bool" where
  "graph_identifiers env \<longleftrightarrow>
     (\<forall>a t q resp m. graph_Do env (''servicePrincipals(appId='' @ [CHR 0x27] @ a @ [CHR 0x27] @ '')'')
          [(''Authorization'', ''Bearer '' @ t)] q = Inr resp \<and> ParseJSON env resp = Inr m \<longrightarrow>
        CHR '':'' \<notin> set a \<and> CHR '':'' \<notin> set t)"

section \<open>Operations\<close>

definition azure_New :: "string \<Rightarrow> string \<Rightarrow> bool \<Rightarrow> AzureAuthProvider" where
  "azure_New tenant authHeader permissive =
     \<lparr>az_tenant = tenant, az_header = authHeader, az_permissive = permissive\<rparr>"

definition getTokenString :: "('tok \<Rightarrow> string \<Rightarrow> goval option) \<Rightarrow> 'tok \<Rightarrow> string \<Rightarrow> string" where
  "getTokenString Get token field =
     (case Get token field of Some (VString s) \<Rightarrow> s | _ \<Rightarrow> [])"

definition app_path :: "string \<Rightarrow> string" where
  "app_path appId = ''servicePrincipals(appId='' @ [CHR 0x27] @ appId @ [CHR 0x27] @ '')''"

definition app_key :: "string \<Rightarrow> string \<Rightarrow> string" where
  "app_key appId token = appId @ '':'' @ token"

text \<open>Removing the annotation keys that Graph adds, in two loops as the code has them.\<close>

definition annotation_keys :: "app \<Rightarrow> string list" where
  "annotation_keys m = filter (\<lambda>k. has_prefix k ''@'') (map fst m)"

definition strip_annotations :: "app \<Rightarrow> app" where
  "strip_annotations m = fold map_del (annotation_keys m) m"

definition graph_fetch :: "('tok, 'resp, 'c) azure_env \<Rightarrow> string \<Rightarrow> string \<Rightarrow> app option" where
  "graph_fetch env appId token =
     (case graph_Get env (app_path appId) of
        Some _ \<Rightarrow> None
      | None \<Rightarrow>
          (case graph_Do env (app_path appId) [(''Authorization'', ''Bearer '' @ token)]
             [(''$select'', ''id,displayName,appId,appOwnerOrganizationId,servicePrincipalType'')] of
             Inl _ \<Rightarrow> None
           | Inr resp \<Rightarrow>
               (case ParseJSON env resp of Inl _ \<Rightarrow> None | Inr result \<Rightarrow> Some (strip_annotations result))))"

definition getApp :: "('tok, 'resp, 'c) azure_env \<Rightarrow> 'c \<Rightarrow> string \<Rightarrow> string \<Rightarrow> 'c \<times> app option" where
  "getApp env c appId token =
     (case userCache_Get env c (app_key appId token) of
        Some x \<Rightarrow> (c, Some x)
      | None \<Rightarrow>
          (case graph_fetch env appId token of
             None \<Rightarrow> (c, None)
           | Some result \<Rightarrow> (userCache_SetDefault env c (app_key appId token) result, Some result)))"

definition app_value :: "app \<Rightarrow> goval" where
  "app_value m = VMap (map (\<lambda>(k, v). (k, VString v)) m)"

definition az_failure :: "AzureAuthProvider \<Rightarrow> goerror option" where
  "az_failure az = (if \<not> az_permissive az then Some ErrAuthenticationFailed else None)"

definition azure_Authenticate ::
  "('tok, 'resp, 'c) azure_env \<Rightarrow> AzureAuthProvider \<Rightarrow> 'c authenticator" where
  "azure_Authenticate env az c info r =
     (case GetBearerToken r (az_header az) of
        None \<Rightarrow> Done (c, info, None)
      | Some bearerToken \<Rightarrow>
          if bearerToken = [] then Done (c, info, None)
          else (case jwt_Parse_unverified env bearerToken of
              Inl _ \<Rightarrow> Done (c, info, az_failure az)
            | Inr token \<Rightarrow>
                (let appid = getTokenString (token_Get env) token ''appid'';
                     tid = getTokenString (token_Get env) token ''tid'' in
                 if appid = [] then Done (c, info, az_failure az)
                 else if \<not> equal_fold tid (az_tenant az) then Done (c, info, az_failure az)
                 else
                  (let info1 = info\<lparr>Request := (Request info)\<lparr>ri_ID := appid\<rparr>\<rparr> in
                   case getApp env c appid bearerToken of
                     (c', None) \<Rightarrow> Done (c', info1, Some ErrAuthenticationUnavailable)
                   | (c', Some user) \<Rightarrow> Done (c', info1\<lparr>User := app_value user\<rparr>, None)))))"

text \<open>
  The caches that a sequence of calls leaves: each call may change the cache, and entries expire between
  the calls.
\<close>

inductive azure_run :: "('tok, 'resp, 'c) azure_env \<Rightarrow> AzureAuthProvider \<Rightarrow> 'c \<Rightarrow> 'c \<Rightarrow> bool" for env az c0 where
  start: "azure_run env az c0 c0"
| call: "azure_run env az c0 c \<Longrightarrow> azure_Authenticate env az c i r = Done (c', i', e) \<Longrightarrow> azure_run env az c0 c'"
| expire: "azure_run env az c0 c \<Longrightarrow>
    (\<And>k m. userCache_Get env c' k = Some m \<Longrightarrow> userCache_Get env c k = Some m) \<Longrightarrow> azure_run env az c0 c'"

section \<open>Specifications\<close>

text \<open>What Graph itself answers for an application id with a token, without its annotations.\<close>

definition graph_answer :: "('tok, 'resp, 'c) azure_env \<Rightarrow> string \<Rightarrow> string \<Rightarrow> app \<Rightarrow> bool" where
  "graph_answer env a t m \<longleftrightarrow>
     (\<exists>resp result.
        graph_Do env (''servicePrincipals(appId='' @ [CHR 0x27] @ a @ [CHR 0x27] @ '')'')
          [(''Authorization'', ''Bearer '' @ t)]
          [(''$select'', ''id,displayName,appId,appOwnerOrganizationId,servicePrincipalType'')] = Inr resp \<and>
        ParseJSON env resp = Inr result \<and> m = filter (\<lambda>p. \<not> has_prefix (fst p) ''@'') result)"

text \<open>Every cached application is one that Graph returned for the id and the token that its key is made of.\<close>

definition cache_origin :: "('tok, 'resp, 'c) azure_env \<Rightarrow> 'c \<Rightarrow> bool" where
  "cache_origin env c \<longleftrightarrow>
     (\<forall>k m. userCache_Get env c k = Some m \<longrightarrow> (\<exists>a t. k = a @ '':'' @ t \<and> graph_answer env a t m))"

section \<open>Lemmas\<close>

lemma fold_map_del: "fold map_del ks m = filter (\<lambda>p. fst p \<notin> set ks) m"
proof (induction ks arbitrary: m)
  case (Cons k ks)
  have "map_del k m = filter (\<lambda>p. fst p \<noteq> k) m" by (auto simp: AList.delete_eq intro: filter_cong)
  with Cons show ?case by (simp add: conj_commute)
qed simp

lemma strip_annotations_filter: "strip_annotations m = filter (\<lambda>p. \<not> has_prefix (fst p) ''@'') m"
  by (auto simp: strip_annotations_def annotation_keys_def fold_map_del intro!: filter_cong)

lemma az_failure_Some: "az_failure az = Some e \<Longrightarrow> e = ErrAuthenticationFailed"
  by (auto simp: az_failure_def split: if_splits)

lemma getApp_cases:
  "getApp env c appId token = (c', res) \<Longrightarrow>
    (userCache_Get env c (app_key appId token) = res \<and> c' = c \<and> res \<noteq> None) \<or>
    (userCache_Get env c (app_key appId token) = None \<and> graph_fetch env appId token = res \<and>
      c' = (case res of None \<Rightarrow> c | Some m \<Rightarrow> userCache_SetDefault env c (app_key appId token) m))"
  by (auto simp: getApp_def split: option.splits)

interpretation azure: auth_provider "azure_Authenticate env az" "\<lambda>_. True" for env az
  by unfold_locales
    (auto simp: azure_Authenticate_def Let_def IsAuthenticationError_def same_request_def
      dest: az_failure_Some split: option.splits if_splits sum.splits prod.splits)

lemma graph_fetch_answer: "graph_fetch env a t = Some m \<Longrightarrow> graph_answer env a t m"
  by (auto simp: graph_fetch_def graph_answer_def app_path_def strip_annotations_filter split: option.splits sum.splits)

text \<open>Where no part holds a colon, the key tells the id and the token apart.\<close>

lemma key_parts:
  assumes "a @ '':'' @ t = a' @ '':'' @ t'" and "CHR '':'' \<notin> set a" and "CHR '':'' \<notin> set t"
  shows "a' = a \<and> t' = t"
proof -
  have "count_list (a' @ '':'' @ t') (CHR '':'') = 1"
    using assms(2,3) unfolding assms(1) [symmetric] by simp
  then have "CHR '':'' \<notin> set a'" by (auto simp: count_list_0_iff)
  then have "takeWhile (\<lambda>c. c \<noteq> CHR '':'') (a @ '':'' @ t) = a" "takeWhile (\<lambda>c. c \<noteq> CHR '':'') (a' @ '':'' @ t') = a'"
    using assms(2) by (auto simp: takeWhile_append)
  with assms(1) show ?thesis by simp
qed

lemma getApp_origin:
  assumes "app_cache env" and "cache_origin env c" and "getApp env c a t = (c', res)"
  shows "cache_origin env c' \<and>
    (case res of None \<Rightarrow> True | Some m \<Rightarrow> \<exists>a' t'. a @ '':'' @ t = a' @ '':'' @ t' \<and> graph_answer env a' t' m)"
  using getApp_cases [OF assms(3)]
proof
  assume "userCache_Get env c (app_key a t) = res \<and> c' = c \<and> res \<noteq> None"
  with assms(2) show ?thesis by (auto simp: cache_origin_def app_key_def)
next
  assume a: "userCache_Get env c (app_key a t) = None \<and> graph_fetch env a t = res \<and>
      c' = (case res of None \<Rightarrow> c | Some m \<Rightarrow> userCache_SetDefault env c (app_key a t) m)"
  show ?thesis
  proof (cases res)
    case None
    with a assms(2) show ?thesis by simp
  next
    case (Some m)
    with a have new: "graph_answer env a t m" by (simp add: graph_fetch_answer)
    have "\<exists>a t. k = a @ '':'' @ t \<and> graph_answer env a t m'" if "userCache_Get env c' k = Some m'" for k m'
    proof -
      have "if k = app_key a t then m' = m else userCache_Get env c k = Some m'"
        using assms(1) [unfolded app_cache_def, rule_format, of c "app_key a t" m k m'] that a Some by simp
      with new assms(2) show ?thesis by (auto simp: cache_origin_def app_key_def split: if_splits)
    qed
    with new Some show ?thesis unfolding cache_origin_def by auto
  qed
qed

lemma azure_Authenticate_cases:
  assumes "azure_Authenticate env az c i r = Done (c', i', e)"
  obtains (anonymous) "c' = c" "User i' = User i"
  | (unavailable) a t where "getApp env c a t = (c', None)" "User i' = User i"
  | (found) a t m where "getApp env c a t = (c', Some m)" "User i' = app_value m"
  using assms
  by (auto simp: azure_Authenticate_def Let_def split: option.splits if_splits sum.splits prod.splits)

lemma azure_Authenticate_origin:
  assumes "app_cache env" and "cache_origin env c" and "azure_Authenticate env az c i r = Done (c', i', e)"
  shows "cache_origin env c'"
  using assms(3)
proof (cases rule: azure_Authenticate_cases)
  case (unavailable a t)
  with getApp_origin [OF assms(1,2)] show ?thesis by blast
next
  case (found a t m)
  with getApp_origin [OF assms(1,2)] show ?thesis by blast
qed (use assms(2) in simp)

lemma azure_run_origin:
  assumes "azure_run env az c0 c" and "app_cache env" and "\<And>k. userCache_Get env c0 k = None"
  shows "cache_origin env c"
  using assms(1)
proof induction
  case start
  then show ?case using assms(3) by (simp add: cache_origin_def)
next
  case (call c i r c' i' e)
  with assms(2) show ?case by (blast intro: azure_Authenticate_origin)
next
  case (expire c c')
  then show ?case unfolding cache_origin_def by blast
qed

text \<open>An application that the provider takes from a cache of that origin was returned for this id and token.\<close>

lemma getApp_answer:
  assumes "app_cache env" and "graph_identifiers env" and "cache_origin env c" and "getApp env c a t = (c', Some m)"
  shows "graph_answer env a t m"
proof -
  obtain a' t' where key: "a @ '':'' @ t = a' @ '':'' @ t'" and ans: "graph_answer env a' t' m"
    using getApp_origin [OF assms(1,3,4)] by auto
  have "CHR '':'' \<notin> set a'" "CHR '':'' \<notin> set t'"
    using ans assms(2) unfolding graph_answer_def graph_identifiers_def by blast+
  with key_parts [OF key [symmetric]] ans show ?thesis by simp
qed

section \<open>Sample data\<close>

definition sample_azure_env :: "(string, app, (string \<rightharpoonup> app)) azure_env" where
  "sample_azure_env =
     \<lparr>jwt_Parse_unverified = Inr,
      token_Get = (\<lambda>t f. Some (VString (if f = ''tid'' then ''Contoso'' else ''app1''))),
      graph_Get = (\<lambda>p. None),
      graph_Do = (\<lambda>p h q. if p = ''servicePrincipals(appId='' @ [CHR 0x27] @ ''app1'' @ [CHR 0x27] @ '')'' \<and>
          h = [(''Authorization'', ''Bearer tok'')]
        then Inr [(''@odata.context'', ''x''), (''appId'', ''app1'')] else Inl (ErrText ''not found'')),
      ParseJSON = Inr, userCache_Get = (\<lambda>c k. c k), userCache_SetDefault = (\<lambda>c k m. c(k \<mapsto> m))\<rparr>"

definition sample_azure_request :: request where
  "sample_azure_request = \<lparr>r_Method = ''GET'', r_Path = ''/'', r_RawQuery = [], r_ContentLength = 0, r_RemoteIP = None,
     r_Header = [(''Authorization'', [''Bearer tok''])], r_ctxInfo = None, r_ctxBlocked = None\<rparr>"

definition sample_azure_info :: Info where
  "sample_azure_info =
     \<lparr>Request = \<lparr>ri_Method = ''GET'', ri_Path = [], ri_Headers = [], ri_BlockedHeaders = None,
        ri_Auth = None, ri_Size = 0, ri_ID = []\<rparr>,
      JWT = VNil, User = VNil, Result = VNil, URL = ''/''\<rparr>"

lemma sample_azure_run:
  "azure_Authenticate sample_azure_env (azure_New ''contoso'' ''Authorization'' False) Map.empty
     sample_azure_info sample_azure_request =
   Done (Map.empty(''app1:tok'' \<mapsto> [(''appId'', ''app1'')]),
     sample_azure_info\<lparr>Request := (Request sample_azure_info)\<lparr>ri_ID := ''app1''\<rparr>,
       User := VMap [(''appId'', VString ''app1'')]\<rparr>, None)"
proof -
  have "GetBearerToken sample_azure_request ''Authorization'' = Some ''tok''"
    "equal_fold ''Contoso'' ''contoso''" "strip_annotations [(''@odata.context'', ''x''), (''appId'', ''app1'')] = [(''appId'', ''app1'')]"
    by code_simp+
  then show ?thesis
    by (simp add: azure_Authenticate_def azure_New_def sample_azure_env_def getTokenString_def getApp_def
        graph_fetch_def app_path_def app_key_def app_value_def Let_def)
qed

text \<open>The second request with the token is answered from the cache.\<close>

lemma sample_azure_again:
  "azure_Authenticate sample_azure_env (azure_New ''contoso'' ''Authorization'' False)
     (Map.empty(''app1:tok'' \<mapsto> [(''appId'', ''app1'')])) sample_azure_info sample_azure_request =
   Done (Map.empty(''app1:tok'' \<mapsto> [(''appId'', ''app1'')]),
     sample_azure_info\<lparr>Request := (Request sample_azure_info)\<lparr>ri_ID := ''app1''\<rparr>,
       User := VMap [(''appId'', VString ''app1'')]\<rparr>, None)"
proof -
  have "GetBearerToken sample_azure_request ''Authorization'' = Some ''tok''" "equal_fold ''Contoso'' ''contoso''" by code_simp+
  then show ?thesis
    by (simp add: azure_Authenticate_def azure_New_def sample_azure_env_def getTokenString_def getApp_def
        app_key_def app_value_def Let_def)
qed

lemma sample_azure_laws: "app_cache sample_azure_env \<and> graph_identifiers sample_azure_env"
  by (simp add: app_cache_def graph_identifiers_def sample_azure_env_def)

section \<open>Properties\<close>

text \<open>
  C16. The identity of an Azure request. After any sequence of requests and expiries from an empty cache,
  a user is set only for a bearer token that parses and names an application and the configured tenant,
  and the user is what Graph answered for that application id when asked with that very token, less its
  annotations: the cache never gives one caller the answer that another token obtained. The application id
  becomes the request id. Graph is taken to answer only for ids and tokens without a colon, the separator
  of the cache key.
\<close>

theorem azure_identity:
  assumes "app_cache env" and "graph_identifiers env" and "\<And>k. userCache_Get env c0 k = None"
    and "azure_run env az c0 c" and "azure_Authenticate env az c i r = Done (c', i', e)" and "User i' \<noteq> User i"
  shows "\<exists>bearer token m. GetBearerToken r (az_header az) = Some bearer \<and>
    jwt_Parse_unverified env bearer = Inr token \<and>
    equal_fold (getTokenString (token_Get env) token ''tid'') (az_tenant az) \<and>
    ri_ID (Request i') = getTokenString (token_Get env) token ''appid'' \<and> ri_ID (Request i') \<noteq> [] \<and>
    graph_answer env (ri_ID (Request i')) bearer m \<and> User i' = app_value m \<and> e = None"
proof -
  have origin: "cache_origin env c" using assms(4,1,3) by (rule azure_run_origin)
  have "\<exists>bearer token m. GetBearerToken r (az_header az) = Some bearer \<and>
    jwt_Parse_unverified env bearer = Inr token \<and>
    equal_fold (getTokenString (token_Get env) token ''tid'') (az_tenant az) \<and>
    ri_ID (Request i') = getTokenString (token_Get env) token ''appid'' \<and> ri_ID (Request i') \<noteq> [] \<and>
    getApp env c (ri_ID (Request i')) bearer = (c', Some m) \<and> User i' = app_value m \<and> e = None"
    using assms(5,6)
    by (auto simp: azure_Authenticate_def Let_def split: option.splits if_splits sum.splits prod.splits)
  then show ?thesis using getApp_answer [OF assms(1,2) origin] by blast
qed

theorem azure_identity_witness:
  "\<exists>c m. azure_run sample_azure_env (azure_New ''contoso'' ''Authorization'' False) Map.empty c \<and>
     c \<noteq> Map.empty \<and> graph_answer sample_azure_env ''app1'' ''tok'' m \<and> VMap [(''appId'', VString ''app1'')] = app_value m"
proof -
  let ?az = "azure_New ''contoso'' ''Authorization'' False" and ?c = "Map.empty(''app1:tok'' \<mapsto> [(''appId'', ''app1'')])"
  have run: "azure_run sample_azure_env ?az Map.empty ?c"
    using azure_run.start sample_azure_run by (rule azure_run.call)
  have bearer: "GetBearerToken sample_azure_request ''Authorization'' = Some ''tok''" by code_simp
  have "userCache_Get sample_azure_env Map.empty k = None" for k by (simp add: sample_azure_env_def)
  from azure_identity [OF _ _ this run sample_azure_again] sample_azure_laws bearer
  have "\<exists>m. graph_answer sample_azure_env ''app1'' ''tok'' m \<and> VMap [(''appId'', VString ''app1'')] = app_value m"
    by (auto simp: azure_New_def sample_azure_info_def)
  with run show ?thesis by fastforce
qed

end
