(* ===== verification/Application.thy ===== *)
theory Application
  imports Router Policy_System No_Auth Basic_Auth Jwt_Support Azure_Auth "HOL-Library.Signed_Division"
begin

text \<open>
  \<^verbatim>\<open>internal/application\<close>: choosing the authentication provider, putting the parts together, the
  settings of the servers and the handlers of the management endpoints. An interface value that holds
  a nil pointer is not nil: the interface \<^verbatim>\<open>types.AuthProvider\<close> is an option of the dynamic type with its
  pointer, so \<open>Some (BasicP None)\<close> and \<open>None\<close> are different values.
\<close>

section \<open>Data\<close>

text \<open>The dynamic values of the interface; a pointer that may be nil is an option.\<close>

datatype ('az, 'bc) provider =
    AzureP AzureAuthProvider 'az
  | JwtP JWTSupport
  | BasicP "'bc BasicAuthProvider option"
  | NoAuthP NoAuthProvider

text \<open>
  The world outside of the program: the packages it calls and what the system calls give. \<open>ae_arg_exit\<close> is
  the status with which \<^verbatim>\<open>arg.MustParse\<close> ends the process itself, for \<^verbatim>\<open>--help\<close>, \<^verbatim>\<open>--version\<close> or arguments it
  refuses.
\<close>

record ('tok, 'resp, 'az, 'jtok, 'bc, 'q) app_env =
  ae_azure :: "('tok, 'resp, 'az) azure_env"
  ae_azure_cache :: 'az
  ae_jwt :: "'jtok jwt_env"
  ae_basic :: "'bc basic_env"
  ae_open :: "string \<Rightarrow> goerror + string"
  ae_new_watcher :: bool
  ae_watch_added :: bool
  ae_new_cache :: "'bc option"
  ae_seed :: "64 word"
  ae_rego :: "'q rego_env"
  ae_folder_stat :: folder_stat
  ae_fs_watcher :: "goerror option"
  ae_fs_watcher_add :: "goerror option"
  ae_disk :: "string \<Rightarrow> fs_read"
  ae_ReadDir :: "(string \<times> bool) list option"
  ae_backend :: "string \<Rightarrow> (request \<Rightarrow> backend_reply) option"
  ae_mux :: "request \<Rightarrow> (header \<times> int \<times> string) option"
  ae_collectors :: "metric_desc list"
  ae_SetPrefix :: "char \<Rightarrow> bool"
  ae_SetWrapper :: "char \<Rightarrow> bool"
  ae_order :: "(string, int) gomap \<Rightarrow> (string, int) gomap"
  ae_arg_exit :: "int option"

record ('az, 'bc, 'q) AppData =
  app_config :: Fields
  app_regos :: "(Cache, 'q) RegoCache"
  app_router :: "(('az, 'bc) provider, (Cache, 'q) RegoCache) Proxy"
  app_auth :: "('az, 'bc) provider"
  app_metrics :: "metric_op list"

record http_server =
  hs_Addr :: string
  hs_ReadHeaderTimeout :: int
  hs_ReadTimeout :: int
  hs_WriteTimeout :: int
  hs_IdleTimeout :: int
  hs_MaxHeaderBytes :: int

section \<open>Calls through the interface\<close>

definition provider_Authenticate ::
  "('tok, 'resp, 'az, 'jtok, 'bc, 'q) app_env \<Rightarrow> ('az, 'bc) provider authenticator" where
  "provider_Authenticate env p info r =
     (case p of
        AzureP az c \<Rightarrow> bind_outcome (azure_Authenticate (ae_azure env) az c info r)
          (\<lambda>(c', i, e). Done (AzureP az c', i, e))
      | JwtP j \<Rightarrow> bind_outcome (jwt_Authenticate (ae_jwt env) j info r) (\<lambda>(j', i, e). Done (JwtP j', i, e))
      | BasicP b \<Rightarrow> bind_outcome (basic_Authenticate_ptr (ae_basic env) b info r)
          (\<lambda>(b', i, e). Done (BasicP b', i, e))
      | NoAuthP n \<Rightarrow> bind_outcome (noauth_Authenticate n info r) (\<lambda>(n', i, e). Done (NoAuthP n', i, e)))"

text \<open>The type assertion to \<^verbatim>\<open>types.AuthChallenger\<close>: only the basic provider has the method.\<close>

definition provider_challenge :: "('az, 'bc) provider \<Rightarrow> string option" where
  "provider_challenge p = (case p of BasicP _ \<Rightarrow> Some basic_WWWAuthenticate | _ \<Rightarrow> None)"

text \<open>Providers whose calls do not panic.\<close>

definition provider_ok :: "('az, 'bc) provider \<Rightarrow> bool" where
  "provider_ok p = (case p of JwtP j \<Rightarrow> jwks_indexed j | BasicP b \<Rightarrow> b \<noteq> None | _ \<Rightarrow> True)"

section \<open>Start-up\<close>

text \<open>
  The \<^verbatim>\<open>switch\<close> of \<^verbatim>\<open>application.New\<close>: the value stored in \<^verbatim>\<open>app.auth\<close>. The default case has returned
  already, so it is \<open>None\<close> of the outer option.
\<close>

definition choose_auth :: "('tok, 'resp, 'az, 'jtok, 'bc, 'q) app_env \<Rightarrow> Fields
    \<Rightarrow> ('az, 'bc) provider option option proc" where
  "choose_auth env cfg =
     (if length (AzureTenant cfg) > 0
      then Running (Some (Some (AzureP (azure_New (AzureTenant cfg) (AuthHeader cfg) (PermissiveAuth cfg))
             (ae_azure_cache env))))
      else if length (WellKnownURL cfg) > 0
      then (case jwtsupport_New (ae_jwt env) (WellKnownURL cfg) (AudienceKey cfg) (Audiences cfg)
              (AuthKind cfg) (PermissiveAuth cfg) of
          Inl code \<Rightarrow> Exited code
        | Inr j \<Rightarrow> Running (Some (Some (JwtP j))))
      else if length (BasicAuthFile cfg) > 0
      then Running (Some (Some (BasicP (basicauth_New (ae_basic env) (ae_open env) (ae_new_watcher env)
             (ae_watch_added env) (ae_new_cache env) (ae_seed env) (BasicAuthFile cfg) (PermissiveAuth cfg)))))
      else if NoAuth cfg then Running (Some (Some (NoAuthP (noauth_New (PermissiveAuth cfg)))))
      else Running None)"

text \<open>
  \<^verbatim>\<open>application.New\<close>; \<open>Running None\<close> is the return value \<^verbatim>\<open>(nil, false)\<close>. The part after the \<^verbatim>\<open>switch\<close>:
  the nil check and the router.
\<close>

definition New_router :: "('tok, 'resp, 'az, 'jtok, 'bc, 'q) app_env \<Rightarrow> Fields \<Rightarrow> metric_op list
    \<Rightarrow> (Cache, 'q) RegoCache \<Rightarrow> ('az, 'bc) provider option \<Rightarrow> ('az, 'bc, 'q) AppData option" where
  "New_router env cfg log c app_auth1 =
     (case app_auth1 of
        None \<Rightarrow> None
      | Some p \<Rightarrow>
          (case router_New (ae_backend env) (ae_mux env) (provider_Authenticate env) (provider_challenge p)
                  (Validate (ae_rego env) (filecache_Get (ae_disk env))) cfg of
             None \<Rightarrow> None
           | Some proxy \<Rightarrow> Some \<lparr>app_config = cfg, app_regos = c, app_router = proxy,
                 app_auth = p, app_metrics = log\<rparr>))"

definition application_New :: "('tok, 'resp, 'az, 'jtok, 'bc, 'q) app_env \<Rightarrow> Fields
    \<Rightarrow> ('az, 'bc, 'q) AppData option proc" where
  "application_New env parsed =
     bind_proc (config_New (ae_SetPrefix env) (ae_SetWrapper env) (ae_order env) parsed) (\<lambda>cfg.
     let log = SetBlockedHeadersExposed (ExposeBlockedHeaders cfg) [] in
     case regocache_New (filecache_New (ae_folder_stat env) (ae_fs_watcher env) (ae_fs_watcher_add env)
            (PolicyDir cfg) (FilePattern cfg)) (Debug cfg) (RequestRego cfg) of
       Inl _ \<Rightarrow> Running None
     | Inr c \<Rightarrow>
         bind_proc (choose_auth env cfg) (\<lambda>auth1.
         case auth1 of
           None \<Rightarrow> Running None
         | Some app_auth1 \<Rightarrow> Running (New_router env cfg log c app_auth1)))"

text \<open>
  \<^verbatim>\<open>regos.Watch\<close> in \<^verbatim>\<open>Run\<close>: the files of the directory are loaded before the server is started. The
  listing is \<open>None\<close> when the directory cannot be read.
\<close>

definition regos_Watch :: "'q rego_env \<Rightarrow> (string \<Rightarrow> fs_read) \<Rightarrow> (string \<times> bool) list option
    \<Rightarrow> (Cache, 'q) RegoCache \<Rightarrow> (Cache, 'q) RegoCache" where
  "regos_Watch renv disk listing r =
     (case listing of
        None \<Rightarrow> r
      | Some files \<Rightarrow>
          watch_load (AddCallback [] (Callback renv (filecache_Get disk))) (fc_pattern (rc_cache r)) files r)"

section \<open>Servers and management endpoints\<close>

definition proxy_server :: "Fields \<Rightarrow> http_server" where
  "proxy_server cfg =
     \<lparr>hs_Addr = ListenAddr cfg, hs_ReadHeaderTimeout = ReadHeaderTimeout cfg,
      hs_ReadTimeout = ReadTimeout cfg, hs_WriteTimeout = WriteTimeout cfg,
      hs_IdleTimeout = IdleTimeout cfg, hs_MaxHeaderBytes = push_bit 20 1\<rparr>"

text \<open>Integer division of Go truncates.\<close>

definition mgmt_server :: "Fields \<Rightarrow> http_server" where
  "mgmt_server cfg =
     \<lparr>hs_Addr = MgmtAddr cfg, hs_ReadHeaderTimeout = ReadHeaderTimeout cfg sdiv 2,
      hs_ReadTimeout = ReadTimeout cfg sdiv 2, hs_WriteTimeout = WriteTimeout cfg sdiv 2,
      hs_IdleTimeout = IdleTimeout cfg sdiv 2, hs_MaxHeaderBytes = push_bit 20 1\<rparr>"

definition healthzHandler :: "('c, 'q) RegoCache option \<Rightarrow> writer \<Rightarrow> writer outcome" where
  "healthzHandler regos w = (if \<not> Ready regos then WriteHeader w 424 else WriteHeader w 200)"

definition readyzHandler :: "('c, 'q) RegoCache option \<Rightarrow> writer \<Rightarrow> writer outcome" where
  "readyzHandler regos w = (if \<not> Ready regos then WriteHeader w 424 else WriteHeader w 200)"

definition versionHandler :: "string \<Rightarrow> writer \<Rightarrow> writer outcome" where
  "versionHandler embedded w = WriteHeader (fst (Write w (Version embedded))) 200"

text \<open>\<^verbatim>\<open>configHandler\<close>, with the lines that \<^verbatim>\<open>Info\<close> prints; reading the maps of a nil pointer panics.\<close>

definition regos_Info :: "('c, 'q) RegoCache option \<Rightarrow> string list outcome" where
  "regos_Info rp =
     (case rp of
        None \<Rightarrow> Panic ''nil pointer dereference''
      | Some r \<Rightarrow> Done ([''RegoCache - status''] @ map (\<lambda>(k, _). ''  - '' @ k) (rc_regos r) @ [''---'']))"

definition configHandler :: "('c, 'q) RegoCache option \<Rightarrow> writer \<Rightarrow> (string list \<times> writer) outcome" where
  "configHandler regos w =
     bind_outcome (regos_Info regos) (\<lambda>out. bind_outcome (WriteHeader w 200) (\<lambda>w'. Done (out, w')))"

section \<open>Lemmas\<close>

lemma bind_outcome_Done: "bind_outcome m f = Done b \<longleftrightarrow> (\<exists>a. m = Done a \<and> f a = Done b)"
  by (cases m) auto

lemma provider_returns:
  assumes "provider_ok p"
  shows "\<exists>y. provider_Authenticate env p i r = Done y"
proof (cases p)
  case (AzureP az c)
  have "\<exists>y. azure_Authenticate (ae_azure env) az c i r = Done y" by (rule azure.auth_returns) simp
  then obtain y where "azure_Authenticate (ae_azure env) az c i r = Done y" by blast
  with AzureP show ?thesis by (cases y) (auto simp: provider_Authenticate_def)
next
  case (JwtP j)
  with assms have "jwks_indexed j" by (simp add: provider_ok_def)
  then have "\<exists>y. jwt_Authenticate (ae_jwt env) j i r = Done y" by (rule jwt.auth_returns)
  then obtain y where "jwt_Authenticate (ae_jwt env) j i r = Done y" by blast
  with JwtP show ?thesis by (cases y) (auto simp: provider_Authenticate_def)
next
  case (BasicP b)
  with assms have "b \<noteq> None" by (simp add: provider_ok_def)
  then have "\<exists>y. basic_Authenticate_ptr (ae_basic env) b i r = Done y" by (rule basic_ptr.auth_returns)
  then obtain y where "basic_Authenticate_ptr (ae_basic env) b i r = Done y" by blast
  with BasicP show ?thesis by (cases y) (auto simp: provider_Authenticate_def)
next
  case (NoAuthP n)
  then show ?thesis by (auto simp: provider_Authenticate_def noauth_Authenticate_def)
qed

text \<open>A call through the interface that returns is a call of one of the four providers that returns.\<close>

lemma provider_Done:
  assumes "provider_Authenticate env p i r = Done (p', i', e)"
  obtains az c c' where "p = AzureP az c" "p' = AzureP az c'"
      "azure_Authenticate (ae_azure env) az c i r = Done (c', i', e)"
  | j j' where "p = JwtP j" "p' = JwtP j'" "jwt_Authenticate (ae_jwt env) j i r = Done (j', i', e)"
  | b b' where "p = BasicP b" "p' = BasicP b'"
      "basic_Authenticate_ptr (ae_basic env) b i r = Done (b', i', e)"
  | n n' where "p = NoAuthP n" "p' = NoAuthP n'" "noauth_Authenticate n i r = Done (n', i', e)"
  using assms by (cases p) (auto simp: provider_Authenticate_def bind_outcome_Done)

interpretation provider: auth_provider "provider_Authenticate env" provider_ok for env
proof (unfold_locales, rule provider_returns)
  fix p i r p' i' eo
  assume "provider_ok p" "provider_Authenticate env p i r = Done (p', i', eo)"
  from this(2,1) show "provider_ok p'"
  proof (cases rule: provider_Done)
    case (3 b b')
    with \<open>provider_ok p\<close> have "b \<noteq> None" by (simp add: provider_ok_def)
    from basic_ptr.auth_invar [OF this 3(3)] 3(2) show ?thesis by (simp add: provider_ok_def)
  qed (auto simp: provider_ok_def dest: jwt.auth_invar)
next
  fix p i r p' i' e
  assume "provider_Authenticate env p i r = Done (p', i', Some e)"
  then show "IsAuthenticationError e"
    by (cases rule: provider_Done)
      (auto dest: azure.auth_error jwt.auth_error basic_ptr.auth_error noauth.auth_error)
next
  fix p i r p' i' eo
  assume "provider_Authenticate env p i r = Done (p', i', eo)"
  then show "same_request i i'"
    by (cases rule: provider_Done)
      (auto dest: azure.auth_frame jwt.auth_frame basic_ptr.auth_frame noauth.auth_frame)
next
  fix p i r p' i' e
  assume "provider_Authenticate env p i r = Done (p', i', Some e)"
  then show "JWT i' = JWT i \<and> User i' = User i"
    by (cases rule: provider_Done)
      (auto dest: azure.auth_no_identity jwt.auth_no_identity basic_ptr.auth_no_identity
        noauth.auth_no_identity)
qed

subsection \<open>Servers\<close>

text \<open>The halved timeouts of the management server.\<close>

lemma mgmt_timeouts:
  assumes "timeouts_in_range cfg"
  shows "hs_ReadHeaderTimeout (mgmt_server cfg) = ReadHeaderTimeout cfg div 2"
    and "hs_ReadTimeout (mgmt_server cfg) = ReadTimeout cfg div 2"
    and "hs_WriteTimeout (mgmt_server cfg) = WriteTimeout cfg div 2"
    and "hs_IdleTimeout (mgmt_server cfg) = IdleTimeout cfg div 2"
proof -
  have half: "t sdiv 2 = t div 2" if "0 \<le> t" for t :: int
    using that by (cases "t = 0") (simp_all add: signed_divide_int_def)
  have "0 \<le> ReadHeaderTimeout cfg" "0 \<le> ReadTimeout cfg" "0 \<le> WriteTimeout cfg" "0 \<le> IdleTimeout cfg"
    using assms by (auto simp: timeouts_in_range_def minTimeout_def)
  then show "hs_ReadHeaderTimeout (mgmt_server cfg) = ReadHeaderTimeout cfg div 2"
    and "hs_ReadTimeout (mgmt_server cfg) = ReadTimeout cfg div 2"
    and "hs_WriteTimeout (mgmt_server cfg) = WriteTimeout cfg div 2"
    and "hs_IdleTimeout (mgmt_server cfg) = IdleTimeout cfg div 2"
    by (simp_all add: mgmt_server_def half)
qed

subsection \<open>Start-up\<close>

lemma choose_auth_not_nil: "choose_auth env cfg \<noteq> Running (Some None)"
  by (auto simp: choose_auth_def split: sum.splits)

text \<open>One callback of the initial load.\<close>

lemma Callback_keeps:
  assumes "map_of (rc_regos r) n \<noteq> None" and "cached (rc_cache r) n = Some d"
  shows "map_of (rc_regos (Callback env (filecache_Get disk) r m)) n \<noteq> None \<and>
    cached (rc_cache (Callback env (filecache_Get disk) r m)) n = Some d"
proof -
  obtain r' x where run: "GetRego env (filecache_Get disk) r m = (r', x)" by fastforce
  have cache: "rc_cache r' = fst (filecache_Get disk (rc_cache r) m)" using run by (rule GetRego_cache)
  show ?thesis
  proof (cases "m = n")
    case True
    with assms show ?thesis
      by (auto simp: Callback_def GetRego_def GetRego_locked_def filecache_Get_eq split: option.splits)
  next
    case False
    obtain c y where get: "filecache_Get disk (rc_cache r) m = (c, y)" by fastforce
    have "cached c n = cached (rc_cache r) n" using fc.get_other [OF get] False by simp
    with cache get run assms GetRego_regos_other [OF run, of n] False show ?thesis
      by (simp add: Callback_def)
  qed
qed

lemma Callback_loads:
  assumes "disk n = Content d" and "cached (rc_cache r) n = None \<or> map_of (rc_regos r) n = None"
    and "cached (rc_cache r) n \<noteq> None \<longrightarrow> cached (rc_cache r) n = Some d"
    and "compile_policy env (rc_debug r) n d = Inr q"
  shows "map_of (rc_regos (Callback env (filecache_Get disk) r n)) n = Some q \<and>
    cached (rc_cache (Callback env (filecache_Get disk) r n)) n = Some d"
  using assms
  by (auto simp: Callback_def GetRego_def GetRego_locked_def GetRego_compile_def filecache_Get_eq
      cache_read_def readFile_def cached_put split: option.splits)

lemma watch_load_keeps:
  "map_of (rc_regos r) n \<noteq> None \<Longrightarrow> cached (rc_cache r) n = Some d \<Longrightarrow>
    map_of (rc_regos (watch_load [Callback env (filecache_Get disk)] pat files r)) n \<noteq> None"
proof (induction files arbitrary: r)
  case (Cons f files)
  obtain m isDir where f: "f = (m, isDir)" by fastforce
  let ?r = "if isDir \<or> \<not> path_match pat m then r else Callback env (filecache_Get disk) r m"
  have "map_of (rc_regos ?r) n \<noteq> None" "cached (rc_cache ?r) n = Some d"
    using Cons.prems Callback_keeps [OF Cons.prems] by simp_all
  from Cons.IH [OF this] show ?case by (auto simp add: f doCallbacks_def split: if_splits)
qed simp

lemma Callback_other:
  assumes "m \<noteq> n"
  shows "cached (rc_cache (Callback env (filecache_Get disk) r m)) n = cached (rc_cache r) n"
    and "rc_debug (Callback env (filecache_Get disk) r m) = rc_debug r"
proof -
  obtain r' x where run: "GetRego env (filecache_Get disk) r m = (r', x)" by fastforce
  obtain c y where get: "filecache_Get disk (rc_cache r) m = (c, y)" by fastforce
  have "cached c n = cached (rc_cache r) n" using fc.get_other [OF get] assms by simp
  then show "cached (rc_cache (Callback env (filecache_Get disk) r m)) n = cached (rc_cache r) n"
    and "rc_debug (Callback env (filecache_Get disk) r m) = rc_debug r"
    using run get GetRego_cache [OF run] GetRego_debug [OF run] by (simp_all add: Callback_def)
qed

lemma watch_load_loads:
  assumes "(n, False) \<in> set files" and "path_match pat n" and "disk n = Content d"
    and "compile_policy env (rc_debug r) n d = Inr q" and "cached (rc_cache r) n \<in> {None, Some d}"
  shows "map_of (rc_regos (watch_load [Callback env (filecache_Get disk)] pat files r)) n \<noteq> None"
  using assms(1,4,5)
proof (induction files arbitrary: r)
  case (Cons f files)
  obtain m isDir where f: "f = (m, isDir)" by fastforce
  let ?r = "Callback env (filecache_Get disk) r m"
  show ?case
  proof (cases "(m, isDir) = (n, False)")
    case True
    have "map_of (rc_regos ?r) n \<noteq> None \<and> cached (rc_cache ?r) n = Some d"
    proof (cases "cached (rc_cache r) n = None \<or> map_of (rc_regos r) n = None")
      case loads: True
      have "cached (rc_cache r) n \<noteq> None \<longrightarrow> cached (rc_cache r) n = Some d"
        using Cons.prems(3) by auto
      with Callback_loads [of disk n d r env q] assms(3) loads Cons.prems(2) True show ?thesis by simp
    next
      case False
      with Cons.prems(3) have "map_of (rc_regos r) n \<noteq> None" "cached (rc_cache r) n = Some d" by auto
      then show ?thesis by (rule Callback_keeps)
    qed
    with True f assms(2) show ?thesis
      using watch_load_keeps [of ?r n d env disk pat files] by (simp add: doCallbacks_def)
  next
    case False
    with Cons.prems(1) f have n: "(n, False) \<in> set files" by auto
    show ?thesis
    proof (cases "isDir \<or> \<not> path_match pat m")
      case True
      with f Cons.IH [OF n Cons.prems(2,3)] show ?thesis by auto
    next
      case loaded: False
      with False have "m \<noteq> n" by auto
      with Cons.prems(2,3) have "compile_policy env (rc_debug ?r) n d = Inr q"
        "cached (rc_cache ?r) n \<in> {None, Some d}"
        by (simp_all add: Callback_other)
      from Cons.IH [OF n this] loaded f show ?thesis by (simp add: doCallbacks_def)
    qed
  qed
qed simp

lemma Callback_ready: "rc_ready (Callback env get r m) = rc_ready r"
  using GetRego_debug [of env get r m] by (cases "GetRego env get r m") (auto simp: Callback_def)

lemma watch_load_ready: "rc_ready (watch_load [Callback env get] pat files r) = rc_ready r"
  by (induction files arbitrary: r) (auto simp: doCallbacks_def Callback_ready)

section \<open>Sample data\<close>

text \<open>An installation of the samples of the components, without a readable credentials file.\<close>

definition sample_app_env ::
  "(string, app, string \<rightharpoonup> app, unit, 64 word \<Rightarrow> bool option, string) app_env" where
  "sample_app_env =
     \<lparr>ae_azure = sample_azure_env, ae_azure_cache = Map.empty, ae_jwt = sample_jwt_env False,
      ae_basic = sample_env, ae_open = (\<lambda>p. Inl (ErrText ''no such file'')), ae_new_watcher = True,
      ae_watch_added = True, ae_new_cache = Some (\<lambda>k. None), ae_seed = 0, ae_rego = sample_rego_env,
      ae_folder_stat = FolderDir, ae_fs_watcher = None, ae_fs_watcher_add = None,
      ae_disk = (\<lambda>n. if n = ''request.rego'' then Content ''package open'' else NotExist),
      ae_ReadDir = Some [(''request.rego'', False)],
      ae_backend = (\<lambda>u. Some (\<lambda>r. BackendReply [] 200 [] ''ok'')), ae_mux = (\<lambda>r. None), ae_collectors = [],
      ae_SetPrefix = (\<lambda>c. c = CHR ''$''), ae_SetWrapper = (\<lambda>c. c = CHR ''{''), ae_order = (\<lambda>m. m), ae_arg_exit = None\<rparr>"

text \<open>A sample installation without authentication.\<close>

definition sample_fields :: Fields where
  "sample_fields = default_Fields\<lparr>NoAuth := True\<rparr>"

definition sample_app :: "(string \<rightharpoonup> app, 64 word \<Rightarrow> bool option, string) AppData" where
  "sample_app =
     \<lparr>app_config = sample_fields,
      app_regos = \<lparr>rc_cache = \<lparr>fc_folder = ''./policies'', fc_pattern = ''*.rego'', fc_files = [],
          fc_queue = newDelayedCallbacks callbackDelay\<rparr>, rc_regos = [], rc_ready = ''request.rego'', rc_debug = False\<rparr>,
      app_router = \<lparr>listenAddr = '':8181'', requestName = ''request.rego'', mux = (\<lambda>r. None),
          auth = provider_Authenticate sample_app_env,
          challenger = None, validator = Validate sample_rego_env (filecache_Get (ae_disk sample_app_env)),
          backendURL = ''http://localhost:8080'', backend = (\<lambda>r. BackendReply [] 200 [] ''ok''),
          transport = backend_transport sample_fields, authKey = ''Authorization'', config = Some sample_fields\<rparr>,
      app_auth = NoAuthP (Some ()), app_metrics = [SetExposed 0]\<rparr>"

lemma sample_app_starts: "application_New sample_app_env sample_fields = Running (Some sample_app)"
proof -
  have "canonical_key ''Authorization'' = ''Authorization''" by code_simp
  moreover have "itoa 8080 = ''8080''" by (simp add: itoa_def nat_digits.simps digit_char_def) code_simp
  moreover have "ae_SetPrefix sample_app_env = (\<lambda>c. c = CHR ''$'')" "ae_SetWrapper sample_app_env = (\<lambda>c. c = CHR ''{'')"
    "ae_order sample_app_env = (\<lambda>m. m)" by (simp_all add: sample_app_env_def)
  moreover have "config_New (\<lambda>c. c = CHR ''$'') (\<lambda>c. c = CHR ''{'') (\<lambda>m. m) sample_fields = Running sample_fields"
    using calculation(1) by (subst config_New_Running)
      (simp_all add: sample_fields_def default_Fields_def timeouts_in_range_def at_most_one_method_def minTimeout_def maxTimeout_def)
  ultimately show ?thesis
    by (simp add: application_New_def Let_def regocache_New_def filecache_New_def choose_auth_def New_router_def
        router_New_def sample_app_def sample_app_env_def sample_fields_def default_Fields_def noauth_New_def
        provider_challenge_def SetBlockedHeadersExposed_def)
qed

section \<open>Properties\<close>

text \<open>
  C38. Ready before serving. When the directory lists the request policy as a regular entry that matches
  the pattern and its content compiles, the initial load, which runs before the server is started, leaves
  the program ready, and both health endpoints answer 200.
\<close>

theorem ready_after_initial_load:
  assumes "(rc_ready r, False) \<in> set files" and "path_match (fc_pattern (rc_cache r)) (rc_ready r)"
    and "disk (rc_ready r) = Content d" and "compile_policy renv (rc_debug r) (rc_ready r) d = Inr q"
    and "cached (rc_cache r) (rc_ready r) = None" and "rw_status (raw_of w) = None"
  shows "Ready (Some (regos_Watch renv disk (Some files) r)) \<and>
    (\<exists>w'. healthzHandler (Some (regos_Watch renv disk (Some files) r)) w = Done w' \<and>
      rw_status (raw_of w') = Some 200)"
proof -
  let ?r = "watch_load [Callback renv (filecache_Get disk)] (fc_pattern (rc_cache r)) files r"
  have "map_of (rc_regos ?r) (rc_ready r) \<noteq> None"
    by (rule watch_load_loads [where d = d and q = q]) (simp_all add: assms(1-5))
  moreover have "rc_ready ?r = rc_ready r" by (rule watch_load_ready)
  ultimately have ready: "Ready (Some (regos_Watch renv disk (Some files) r))"
    by (simp add: Ready_def regos_Watch_def AddCallback_def)
  obtain w' where w': "WriteHeader w 200 = Done w'" using WriteHeader_total [of w 200] by auto
  have "rw_status (raw_of w') = Some 200"
    using WriteHeader_raw [OF w'] assms(6) by (auto simp: rw_write_header_def dest: sym)
  with ready w' show ?thesis by (simp add: healthzHandler_def)
qed

theorem ready_after_initial_load_witness:
  "Ready (Some (regos_Watch sample_rego_env (\<lambda>_. Content ''package a'') (Some [(''r.rego'', False)])
     ((sample_regos ((sample_cache [])\<lparr>fc_files := []\<rparr>) [])\<lparr>rc_regos := []\<rparr>)))"
proof -
  let ?r = "(sample_regos ((sample_cache [])\<lparr>fc_files := []\<rparr>) [])\<lparr>rc_regos := []\<rparr>"
  have "path_match (fc_pattern (rc_cache ?r)) (rc_ready ?r)" "package_of ''package a'' = ''a''" by code_simp+
  then show ?thesis
    using ready_after_initial_load [of ?r "[(''r.rego'', False)]" "\<lambda>_. Content ''package a''" "''package a''"
        sample_rego_env "''package a''" "Raw new_respw"]
    by (simp add: sample_regos_def sample_cache_def cached_def compile_policy_def sample_rego_env_def new_respw_def)
qed

text \<open>
  The nil check on the provider never fires. When the credentials file cannot be loaded, the
  constructor returns a nil pointer, which as an interface value is not nil: the choice of the provider
  succeeds, the program starts, and every request with basic credentials panics.
\<close>

theorem unreadable_credentials_start_anyway:
  assumes "AzureTenant cfg = []" and "WellKnownURL cfg = []" and "BasicAuthFile cfg \<noteq> []"
    and "loadFile (bcrypt_Cost (ae_basic env)) (ae_open env (BasicAuthFile cfg)) = Inl e"
    and "ri_Auth (Request i) = Some a" and "equal_fold (Kind a) ''basic''"
  shows "\<exists>p. choose_auth env cfg = Running (Some (Some p)) \<and>
    provider_Authenticate env p i r = Panic ''nil pointer dereference''"
proof -
  have "choose_auth env cfg = Running (Some (Some (BasicP None)))"
    using assms(1-4) by (simp add: choose_auth_def basicauth_New_def)
  moreover have "provider_Authenticate env (BasicP None) i r = Panic ''nil pointer dereference''"
    using assms(5,6) by (simp add: provider_Authenticate_def basic_Authenticate_ptr_def)
  ultimately show ?thesis by blast
qed

theorem unreadable_credentials_start_anyway_witness:
  "\<exists>p. choose_auth sample_app_env (default_Fields\<lparr>BasicAuthFile := ''missing''\<rparr>) = Running (Some (Some p)) \<and>
    provider_Authenticate sample_app_env p (sample_login ''al'' ''pw'') sample_request = Panic ''nil pointer dereference''"
proof -
  let ?a = "parse_auth (''Basic '' @ b64_encode (''al'' @ '':'' @ ''pw''))"
  have "equal_fold (Kind ?a) ''basic''" by code_simp
  moreover have "ri_Auth (Request (sample_login ''al'' ''pw'')) = Some ?a" by (simp add: sample_login_def)
  moreover have "loadFile (bcrypt_Cost (ae_basic sample_app_env))
      (ae_open sample_app_env (BasicAuthFile (default_Fields\<lparr>BasicAuthFile := ''missing''\<rparr>))) =
      Inl (ErrWrap ''basicauth: cannot open file'' (ErrText ''no such file''))"
    by (simp add: loadFile_def sample_app_env_def)
  ultimately show ?thesis
    using unreadable_credentials_start_anyway [of "default_Fields\<lparr>BasicAuthFile := ''missing''\<rparr>" sample_app_env]
    by (simp add: default_Fields_def)
qed

end
