(* ===== verification/Management.thy ===== *)
theory Management
  imports Application
begin

text \<open>
  The management server of \<^verbatim>\<open>internal/application/mgmt.go\<close>: its routes and what each of them answers. The
  chi mux is an argument that picks a route or answers by itself; for routes without parameters it is
  relied on to match method and path exactly. The server is started before the policy cache exists, so the
  handlers may find a nil pointer.
\<close>

section \<open>Routes\<close>

datatype endpoint = Healthz | Readyz | VersionEp | ConfigEp | MetricsEp

definition mgmt_routes :: "((string \<times> string) \<times> endpoint) list" where
  "mgmt_routes =
     [((''GET'', ''/healthz''), Healthz), ((''GET'', ''/readyz''), Readyz), ((''GET'', ''/version''), VersionEp),
      ((''GET'', ''/config''), ConfigEp), ((''GET'', ''/metrics''), MetricsEp)]"

text \<open>The outside of the management server: the mux, the exposition of the metrics and the embedded version.\<close>

record mgmt_env =
  me_route :: "(string \<times> string) list \<Rightarrow> request \<Rightarrow> nat + (header \<times> int \<times> string)"
  me_exposition :: "metric_op list \<Rightarrow> string"
  me_version :: string

text \<open>The handlers give the lines they print and the writer.\<close>

definition mgmt_endpoint :: "mgmt_env \<Rightarrow> ('c, 'q) RegoCache option \<Rightarrow> metric_op list \<Rightarrow> endpoint \<Rightarrow> writer
    \<Rightarrow> (string list \<times> writer) outcome" where
  "mgmt_endpoint env regos log e w =
     (case e of
        Healthz \<Rightarrow> bind_outcome (healthzHandler regos w) (\<lambda>w'. Done ([], w'))
      | Readyz \<Rightarrow> bind_outcome (readyzHandler regos w) (\<lambda>w'. Done ([], w'))
      | VersionEp \<Rightarrow> bind_outcome (versionHandler (me_version env) w) (\<lambda>w'. Done ([], w'))
      | ConfigEp \<Rightarrow> configHandler regos w
      | MetricsEp \<Rightarrow> bind_outcome (metrics_Handler (me_exposition env) log w) (\<lambda>w'. Done ([], w')))"

definition mgmt_serve :: "mgmt_env \<Rightarrow> ('c, 'q) RegoCache option \<Rightarrow> metric_op list \<Rightarrow> request \<Rightarrow> writer
    \<Rightarrow> (string list \<times> writer) outcome" where
  "mgmt_serve env regos log r w =
     (case me_route env (map fst mgmt_routes) r of
        Inl i \<Rightarrow> mgmt_endpoint env regos log (snd (mgmt_routes ! i)) w
      | Inr (h, code, body) \<Rightarrow>
          bind_outcome (WriteHeader (map_header (\<lambda>dst. copyHeader dst h) w) code)
            (\<lambda>w'. Done ([], fst (Write w' body))))"

section \<open>What is relied on of the mux\<close>

text \<open>
  A pattern without wildcard and parameter matches exactly its own text; a request that matches no route is
  answered with 404, or with 405 when only the method differs.
\<close>

definition static_pattern :: "string \<Rightarrow> bool" where
  "static_pattern p \<longleftrightarrow> CHR ''*'' \<notin> set p \<and> CHR ''{'' \<notin> set p"

definition chi_static :: "((string \<times> string) list \<Rightarrow> request \<Rightarrow> nat + (header \<times> int \<times> string)) \<Rightarrow> bool" where
  "chi_static route \<longleftrightarrow>
     (\<forall>rs r. distinct rs \<and> list_all (static_pattern \<circ> snd) rs \<longrightarrow>
        (\<forall>i < length rs. rs ! i = (r_Method r, r_Path r) \<longrightarrow> route rs r = Inl i) \<and>
        ((r_Method r, r_Path r) \<notin> set rs \<longrightarrow> (\<exists>h code body. route rs r = Inr (h, code, body) \<and>
           code = (if r_Path r \<in> snd ` set rs then 405 else 404))))"

text \<open>The status that the program means to give.\<close>

definition mgmt_status :: "bool \<Rightarrow> string \<Rightarrow> string \<Rightarrow> int" where
  "mgmt_status ready method path =
     (if path \<notin> {''/healthz'', ''/readyz'', ''/version'', ''/config'', ''/metrics''} then 404
      else if method \<noteq> ''GET'' then 405
      else if path \<in> {''/healthz'', ''/readyz''} \<and> \<not> ready then 424 else 200)"

section \<open>Lemmas\<close>

lemma mgmt_routes_static:
  "distinct (map fst mgmt_routes)" "list_all (static_pattern \<circ> snd) (map fst mgmt_routes)" "length mgmt_routes = 5"
  by code_simp+

lemma WriteHeader_status:
  assumes "rw_status (raw_of w) = None" and "200 \<le> code" and "code \<le> 999"
  obtains w' where "WriteHeader w code = Done w'" and "rw_status (raw_of w') = Some code"
    and "rw_body (raw_of w') = rw_body (raw_of w)"
proof -
  obtain w' where w': "WriteHeader w code = Done w'" using WriteHeader_total [of w code] assms by auto
  from WriteHeader_raw [OF this] have "raw_of w' = (raw_of w)\<lparr>rw_status := Some code\<rparr>"
    using assms by (auto simp: rw_write_header_def split: if_splits)
  with w' that show ?thesis by simp
qed

lemma Write_status:
  "rw_status (raw_of (fst (Write w b))) = (case rw_status (raw_of w) of None \<Rightarrow> Some 200 | Some c \<Rightarrow> Some c)"
  by (auto simp: Write_raw rw_write_def Let_def split: option.splits)

lemma status_kept:
  "WriteHeader w code = Done w' \<Longrightarrow> rw_status (raw_of w) = Some c \<Longrightarrow> raw_of w' = raw_of w"
  using WriteHeader_raw [of w code w'] by (simp add: rw_write_header_def)

lemma mgmt_endpoint_answers:
  assumes "rw_status (raw_of w) = None" and "e = ConfigEp \<Longrightarrow> regos \<noteq> None"
  shows "\<exists>out w'. mgmt_endpoint env regos log e w = Done (out, w') \<and>
    rw_status (raw_of w') = Some (if e \<in> {Healthz, Readyz} \<and> \<not> Ready regos then 424 else 200)"
proof -
  obtain w1 where w1: "WriteHeader w 424 = Done w1" "rw_status (raw_of w1) = Some 424"
    by (rule WriteHeader_status [OF assms(1), of 424]) simp_all
  obtain w2 where w2: "WriteHeader w 200 = Done w2" "rw_status (raw_of w2) = Some 200"
    by (rule WriteHeader_status [OF assms(1), of 200]) simp_all
  let ?v = "fst (Write w (Version (me_version env)))"
  have v: "rw_status (raw_of ?v) = Some 200" using assms(1) by (simp add: Write_status)
  obtain w3 where w3: "WriteHeader ?v 200 = Done w3" using WriteHeader_total [of ?v 200] v by auto
  have "raw_of w3 = raw_of ?v" using w3 v by (rule status_kept)
  with v have w3s: "rw_status (raw_of w3) = Some 200" by simp
  show ?thesis
  proof (cases e)
    case ConfigEp
    with assms(2) obtain r where "regos = Some r" by auto
    with ConfigEp w2 show ?thesis by (simp add: mgmt_endpoint_def configHandler_def regos_Info_def)
  next
    case MetricsEp
    with assms(1) show ?thesis by (simp add: mgmt_endpoint_def metrics_Handler_def Write_status)
  qed (use w1 w2 w3 w3s in \<open>simp_all add: mgmt_endpoint_def healthzHandler_def readyzHandler_def versionHandler_def\<close>)
qed

lemma mgmt_route_cases:
  assumes "chi_static (me_route env)"
  obtains (route) i where "i < 5" and "fst (mgmt_routes ! i) = (r_Method r, r_Path r)"
      and "me_route env (map fst mgmt_routes) r = Inl i"
  | (own) h code body where "me_route env (map fst mgmt_routes) r = Inr (h, code, body)"
      and "(r_Method r, r_Path r) \<notin> fst ` set mgmt_routes"
      and "code = (if r_Path r \<in> snd ` fst ` set mgmt_routes then 405 else 404)"
proof (cases "(r_Method r, r_Path r) \<in> set (map fst mgmt_routes)")
  case True
  then obtain i where "i < length (map fst mgmt_routes)" "map fst mgmt_routes ! i = (r_Method r, r_Path r)"
    by (metis in_set_conv_nth)
  with assms mgmt_routes_static that(1) show ?thesis by (simp add: chi_static_def)
next
  case False
  with assms mgmt_routes_static obtain h code body where
    "me_route env (map fst mgmt_routes) r = Inr (h, code, body)"
    "code = (if r_Path r \<in> snd ` set (map fst mgmt_routes) then 405 else 404)"
    unfolding chi_static_def by metis
  with False that(2) show ?thesis by (simp add: image_image)
qed

lemma mgmt_status_route:
  assumes "i < 5" and "fst (mgmt_routes ! i) = (m, p)"
  shows "mgmt_status ready m p = (if snd (mgmt_routes ! i) \<in> {Healthz, Readyz} \<and> \<not> ready then 424 else 200)"
    and "snd (mgmt_routes ! i) = ConfigEp \<longleftrightarrow> p = ''/config''"
proof -
  have "i \<in> {0, 1, 2, 3, 4}" using assms(1) by auto
  with assms(2) show "mgmt_status ready m p = (if snd (mgmt_routes ! i) \<in> {Healthz, Readyz} \<and> \<not> ready then 424 else 200)"
    and "snd (mgmt_routes ! i) = ConfigEp \<longleftrightarrow> p = ''/config''"
    by (auto simp: mgmt_routes_def mgmt_status_def)
qed

lemma mgmt_serve_status:
  assumes "chi_static (me_route env)" and "rw_status (raw_of w) = None"
  shows "\<exists>out w'. mgmt_serve env (Some regos) log r w = Done (out, w') \<and>
    rw_status (raw_of w') = Some (mgmt_status (Ready (Some regos)) (r_Method r) (r_Path r))"
  using assms(1)
proof (cases rule: mgmt_route_cases [where r = r])
  case (route i)
  from mgmt_endpoint_answers [OF assms(2), of "snd (mgmt_routes ! i)" "Some regos"]
  obtain out w' where "mgmt_endpoint env (Some regos) log (snd (mgmt_routes ! i)) w = Done (out, w')"
    "rw_status (raw_of w') = Some (if snd (mgmt_routes ! i) \<in> {Healthz, Readyz} \<and> \<not> Ready (Some regos) then 424 else 200)"
    by blast
  with mgmt_status_route(1) [OF route(1,2), of "Ready (Some regos)"] route(3) show ?thesis
    by (simp add: mgmt_serve_def)
next
  case (own h code body)
  have code: "code = mgmt_status (Ready (Some regos)) (r_Method r) (r_Path r)"
    using own(2,3) by (auto simp: mgmt_routes_def mgmt_status_def)
  let ?w = "map_header (\<lambda>dst. copyHeader dst h) w"
  have "rw_status (raw_of ?w) = None" using assms(2) by simp
  moreover have "200 \<le> code" "code \<le> 999" using own(3) by (auto split: if_splits)
  ultimately obtain w' where "WriteHeader ?w code = Done w'" "rw_status (raw_of w') = Some code"
    by (rule WriteHeader_status)
  with own(1) code show ?thesis by (simp add: mgmt_serve_def Write_status)
qed

lemma mgmt_answers_ready:
  assumes "chi_static (me_route env)" and "rw_status (raw_of w) = None"
    and "r_Method r = ''GET''" and "r_Path r = ''/readyz''" and "Ready (Some regos)"
  shows "\<exists>out w'. mgmt_serve env (Some regos) log r w = Done (out, w') \<and> rw_status (raw_of w') = Some 200"
  using mgmt_serve_status [OF assms(1,2), of regos log r] assms(3-5) by (simp add: mgmt_status_def)

section \<open>A sample\<close>

text \<open>A mux that looks its routes up.\<close>

fun find_index :: "nat \<Rightarrow> (string \<times> string) list \<Rightarrow> string \<times> string \<Rightarrow> nat option" where
  "find_index n [] k = None"
| "find_index n (r # rs) k = (if r = k then Some n else find_index (Suc n) rs k)"

definition lookup_route :: "(string \<times> string) list \<Rightarrow> request \<Rightarrow> nat + (header \<times> int \<times> string)" where
  "lookup_route rs r =
     (case find_index 0 rs (r_Method r, r_Path r) of
        Some i \<Rightarrow> Inl i
      | None \<Rightarrow> Inr ([], if r_Path r \<in> snd ` set rs then 405 else 404, []))"

lemma find_index_None: "k \<notin> set rs \<Longrightarrow> find_index n rs k = None"
  by (induction n rs k rule: find_index.induct) auto

lemma find_index_nth: "distinct rs \<Longrightarrow> i < length rs \<Longrightarrow> find_index n rs (rs ! i) = Some (n + i)"
  by (induction n rs "rs ! i" arbitrary: i rule: find_index.induct) (auto simp: nth_Cons' split: if_splits)

lemma lookup_route_static: "chi_static lookup_route"
proof -
  have "lookup_route rs r = Inl i" if "distinct rs" "i < length rs" "rs ! i = (r_Method r, r_Path r)" for rs r i
    using find_index_nth [OF that(1,2), of 0] that(3) by (simp add: lookup_route_def)
  then show ?thesis by (auto simp: chi_static_def lookup_route_def find_index_None)
qed

definition sample_mgmt_env :: mgmt_env where
  "sample_mgmt_env = \<lparr>me_route = lookup_route, me_exposition = (\<lambda>log. ''metrics''), me_version = ''v1''\<rparr>"

section \<open>Properties\<close>

text \<open>
  The answers of the management server. Once the policy cache exists, every request to the management
  server is answered: 200 or, for the two health endpoints while the request policy is not loaded, 424;
  405 for another method than GET, 404 for any other path.
\<close>

theorem mgmt_answers:
  assumes "chi_static (me_route env)" and "rw_status (raw_of w) = None"
  shows "\<exists>out w'. mgmt_serve env (Some regos) log r w = Done (out, w') \<and>
    rw_status (raw_of w') = Some (mgmt_status (Ready (Some regos)) (r_Method r) (r_Path r))"
  using assms by (rule mgmt_serve_status)

theorem mgmt_answers_witness:
  "\<exists>out w'. mgmt_serve sample_mgmt_env (Some (sample_regos (sample_cache ''package a'') ''package a'')) []
      (plain_request\<lparr>r_Method := ''GET'', r_Path := ''/healthz''\<rparr>) (Raw new_respw) = Done (out, w') \<and>
    rw_status (raw_of w') = Some 200"
  using mgmt_answers [of sample_mgmt_env "Raw new_respw" "sample_regos (sample_cache ''package a'') ''package a''" "[]"
      "plain_request\<lparr>r_Method := ''GET'', r_Path := ''/healthz''\<rparr>"] lookup_route_static
  by (simp add: sample_mgmt_env_def new_respw_def mgmt_status_def Ready_def sample_regos_def)

text \<open>
  The management server is started before the policy cache is created. Until then the health endpoints
  answer 424, but a request for the configuration page dereferences a nil pointer and panics.
\<close>

theorem early_config_request_panics:
  assumes "chi_static (me_route env)" and "r_Method r = ''GET''" and "r_Path r = ''/config''"
  shows "mgmt_serve env (None :: ('c, 'q) RegoCache option) log r w = Panic ''nil pointer dereference''"
  using assms(1)
proof (cases rule: mgmt_route_cases [where r = r])
  case (route i)
  with mgmt_status_route(2) [OF route(1,2)] assms(3) show ?thesis
    by (simp add: mgmt_serve_def mgmt_endpoint_def configHandler_def regos_Info_def)
next
  case (own h code body)
  with assms(2,3) show ?thesis by (simp add: mgmt_routes_def)
qed

theorem early_config_request_panics_witness:
  "mgmt_serve sample_mgmt_env (None :: (Cache, string) RegoCache option) []
     (plain_request\<lparr>r_Method := ''GET'', r_Path := ''/config''\<rparr>) (Raw new_respw) = Panic ''nil pointer dereference''"
  by (rule early_config_request_panics) (simp_all add: sample_mgmt_env_def lookup_route_static)

end
