(* ===== verification/Policy_Quiescence.thy ===== *)
theory Policy_Quiescence
  imports Policy_System
begin

text \<open>
  The policy system comes to rest. The steps of the program's own goroutines (watcher, spawned reads,
  timers, callbacks, commits) are told apart from those of its environment (changes of the directory,
  requests, time). Each event and each timer is worth a bounded number of further steps, so that the
  goroutines alone cannot run for ever, and together with the passing of time they reach a state in which
  nothing is left to do.
\<close>

section \<open>Steps of the program\<close>

fun internal :: "label \<Rightarrow> bool" where
  "internal (LDisk _ _ _ _) = False"
| "internal (LLink _ _) = False"
| "internal (LAsk _) = False"
| "internal (LTick _) = False"
| "internal _ = True"

fun internal_or_time :: "label \<Rightarrow> bool" where
  "internal_or_time (LTick _) = True"
| "internal_or_time l = internal l"

text \<open>
  The number of steps that a state can still give rise to: a timer expires, has its function run and its
  callback read and commit, which is four steps; a turn of the watcher starts at most one new timer and
  two reads.
\<close>

definition work :: "'q policy_sys \<Rightarrow> nat" where
  "work s = 7 * length (ps_events s) + length (ps_spawned s) + 4 * length (timers (fc_queue (ps_cache s))) +
     3 * length (ps_fired s) + 2 * length (ps_callbacks s) + length (ps_inflight s)"

section \<open>Lemmas\<close>

lemma execs_append: "execs env (ls1 @ ls2) s = Option.bind (execs env ls1 s) (execs env ls2)"
  by (induction ls1 arbitrary: s) (auto split: option.splits)

lemma length_queue_add: "length (timers (queue_add q now n)) \<le> Suc (length (timers q))"
  by (simp add: queue_add_def Let_def length_remove1 split: option.splits)

text \<open>A second event on the same file stops the timer of the first, unless that one was not in the map.\<close>

lemma length_queue_add_again:
  "length (timers (queue_add (queue_add q now n) now n)) = length (timers (queue_add q now n))"
  by (simp add: queue_add_def Let_def length_remove1)

lemma invalidate_queue:
  assumes "invalidate c now n op = (c', g)"
  shows "fc_queue c' \<in> {fc_queue c, queue_add (fc_queue c) now n}" and "length g \<le> 1"
  using assms by (auto simp: invalidate_def Let_def split: option.splits if_splits)

lemma watch_event_queue:
  assumes "watch_event c Lstat now ops p = (c', g)"
  shows "length (timers (fc_queue c')) \<le> Suc (length (timers (fc_queue c)))" and "length g \<le> 2"
proof -
  let ?q = "fc_queue c" and ?n = "path_base p"
  have add: "length (timers q) \<le> Suc (length (timers ?q))"
    if "q \<in> {?q, queue_add ?q now ?n, queue_add (queue_add ?q now ?n) now ?n}" for q
    using that length_queue_add [of ?q now ?n] by (auto simp: length_queue_add_again)
  have "fc_queue c' \<in> {?q, queue_add ?q now ?n, queue_add (queue_add ?q now ?n) now ?n} \<and> length g \<le> 2"
  proof -
    obtain c1 g1 where c1: "invalidate c now ?n OpWrite = (c1, g1)" by fastforce
    obtain c2 g2 where c2: "invalidate c now ?n OpRemove = (c2, g2)" by fastforce
    obtain c3 g3 where c3: "invalidate c1 now ?n OpRemove = (c3, g3)" by fastforce
    show ?thesis
      using assms c1 c2 c3 invalidate_queue [OF c1] invalidate_queue [OF c2] invalidate_queue [OF c3]
      by (auto simp: watch_event_def Let_def split: if_splits prod.splits)
  qed
  with add show "length (timers (fc_queue c')) \<le> Suc (length (timers (fc_queue c)))" and "length g \<le> 2"
    by blast+
qed

lemma length_remove1_Suc: "x \<in> set xs \<Longrightarrow> length xs = Suc (length (remove1 x xs))"
  by (induction xs) auto

lemma carried_length: "length (carried n res) \<le> 1"
  by (auto simp: carried_def split: sum.splits prod.splits)

text \<open>Every step of the program uses up some of the work.\<close>

lemma internal_decreases:
  assumes "exec env l s = Some s'" and "internal l"
  shows "work s' < work s"
proof (cases l)
  case LWatch
  then obtain ops p evs c g where ev: "ps_events s = (ops, p) # evs"
    "watch_event (ps_cache s) (sys_lstat s) (ps_now s) ops p = (c, g)"
    "s' = (with_cache c s)\<lparr>ps_events := evs, ps_spawned := ps_spawned s @ g\<rparr>"
    using assms(1) by (auto split: list.splits prod.splits)
  from watch_event_queue [OF ev(2)] show ?thesis by (simp add: work_def ev(1,3))
next
  case (LRead n)
  then obtain c res where "n \<in> set (ps_spawned s)" and get: "filecache_Get (ps_disk s) (ps_cache s) n = (c, res)"
    and "s' = (with_cache c s)\<lparr>ps_spawned := remove1 n (ps_spawned s)\<rparr>"
    using assms(1) by (auto split: if_splits prod.splits)
  then show ?thesis
    using length_remove1_Suc [of n "ps_spawned s"] filecache_Get_frame(3) [OF get] by (simp add: work_def)
next
  case (LExpire n t)
  with assms(1) have "(n, t) \<in> set (timers (fc_queue (ps_cache s)))"
    and s': "s' = (with_cache ((ps_cache s)\<lparr>fc_queue := timer_expire (fc_queue (ps_cache s)) (n, t)\<rparr>) s)
      \<lparr>ps_fired := ps_fired s @ [n]\<rparr>"
    by (auto simp: due_def split: if_splits)
  then show ?thesis
    using length_remove1_Suc [of "(n, t)" "timers (fc_queue (ps_cache s))"]
    by (simp add: work_def timer_expire_def)
next
  case (LTimer n)
  with assms(1) have "n \<in> set (ps_fired s)"
    and s': "s' = (with_cache ((ps_cache s)\<lparr>fc_queue := timer_fire (fc_queue (ps_cache s)) n\<rparr>) s)
      \<lparr>ps_fired := remove1 n (ps_fired s), ps_callbacks := ps_callbacks s @ [n]\<rparr>"
    by (auto split: if_splits)
  then show ?thesis
    using length_remove1_Suc [of n "ps_fired s"] by (simp add: work_def timer_fire_def)
next
  case (LCallback n)
  then obtain c res where "n \<in> set (ps_callbacks s)" and get: "filecache_Get (ps_disk s) (ps_cache s) n = (c, res)"
    and "s' = (with_cache c s)\<lparr>ps_callbacks := remove1 n (ps_callbacks s), ps_inflight := ps_inflight s @ carried n res\<rparr>"
    using assms(1) by (auto split: if_splits prod.splits)
  then show ?thesis
    using length_remove1_Suc [of n "ps_callbacks s"] filecache_Get_frame(3) [OF get] carried_length [of n res]
    by (simp add: work_def)
next
  case (LCommit n dat u)
  with assms(1) have "(n, dat, u) \<in> set (ps_inflight s)"
    and "s' = s\<lparr>ps_rc := fst (GetRego_locked env (ps_rc s) n dat u), ps_inflight := remove1 (n, dat, u) (ps_inflight s)\<rparr>"
    by (auto split: if_splits)
  then show ?thesis
    using length_remove1_Suc [of "(n, dat, u)" "ps_inflight s"] by (simp add: work_def)
qed (use assms(2) in simp_all)

lemma work_tick [simp]: "work (s\<lparr>ps_now := t\<rparr>) = work s"
  by (simp add: work_def)

lemma internal_internal_or_time: "internal l \<Longrightarrow> internal_or_time l"
  by (cases l) auto

text \<open>Time adds no work, so it does not lengthen what the program does in a run.\<close>

lemma exec_work:
  assumes "exec env l s = Some s'" and "internal_or_time l"
  shows "length (filter internal [l]) + work s' \<le> work s"
proof (cases "internal l")
  case True
  with internal_decreases [OF assms(1)] show ?thesis by simp
next
  case False
  with assms show ?thesis by (cases l) auto
qed

lemma run_bound:
  "execs env ls s = Some s' \<Longrightarrow> list_all internal_or_time ls \<Longrightarrow> length (filter internal ls) + work s' \<le> work s"
proof (induction ls arbitrary: s)
  case (Cons l ls)
  then obtain t where t: "exec env l s = Some t" "execs env ls t = Some s'" by (auto split: option.splits)
  have "length (filter internal [l]) + work t \<le> work s" using t(1) Cons.prems(2) by (intro exec_work) auto
  moreover have "length (filter internal ls) + work s' \<le> work t" using Cons.IH [OF t(2)] Cons.prems(2) by simp
  ultimately show ?case by (auto split: if_splits)
qed simp

lemma internal_run_bound:
  assumes "execs env ls s = Some s'" and "list_all internal ls"
  shows "length ls + work s' \<le> work s"
proof -
  have "list_all internal_or_time ls" using assms(2) by (auto simp: list_all_iff internal_internal_or_time)
  moreover have "filter internal ls = ls" using assms(2) by (simp add: list_all_iff)
  ultimately show ?thesis using run_bound [OF assms(1)] by simp
qed

text \<open>A state that is not at rest can make a step once the timers are due.\<close>

lemma progress:
  assumes "\<not> quiescent s"
  obtains t l where "execs env [LTick t, l] s \<noteq> None" and "internal l"
proof -
  consider "ps_events s \<noteq> []" | n where "n \<in> set (ps_spawned s)" | n where "n \<in> set (ps_fired s)"
    | n where "n \<in> set (ps_callbacks s)" | n dat u where "(n, dat, u) \<in> set (ps_inflight s)"
    | n t where "(n, t) \<in> set (timers (fc_queue (ps_cache s)))"
    using assms unfolding quiescent_def by (metis list.set_intros(1) neq_Nil_conv prod_cases3 surj_pair)
  then show ?thesis
  proof cases
    case 1
    then show ?thesis by (intro that [of 0 LWatch]) (auto split: list.splits prod.splits)
  next
    case (2 n)
    then show ?thesis by (intro that [of 0 "LRead n"]) (auto split: prod.splits)
  next
    case (3 n)
    then show ?thesis by (intro that [of 0 "LTimer n"]) auto
  next
    case (4 n)
    then show ?thesis by (intro that [of 0 "LCallback n"]) (auto split: prod.splits)
  next
    case (5 n dat u)
    then show ?thesis by (intro that [of 0 "LCommit n dat u"]) auto
  next
    case (6 n t)
    then show ?thesis by (intro that [of t "LExpire n t"]) (auto simp: due_def)
  qed
qed

lemma exec_keeps_disk:
  "exec env l s = Some s' \<Longrightarrow> internal_or_time l \<Longrightarrow> ps_disk s' = ps_disk s \<and> ps_link s' = ps_link s"
  by (cases l) (auto split: if_splits list.splits prod.splits)

lemma execs_keep_disk:
  "execs env ls s = Some s' \<Longrightarrow> list_all internal_or_time ls \<Longrightarrow> ps_disk s' = ps_disk s \<and> ps_link s' = ps_link s"
proof (induction ls arbitrary: s)
  case (Cons l ls)
  then obtain t where t: "exec env l s = Some t" "execs env ls t = Some s'" by (auto split: option.splits)
  with Cons.IH [OF t(2)] Cons.prems(2) exec_keeps_disk [OF t(1)] show ?case by simp
qed simp

lemma rest_reached: "\<exists>ls s'. execs env ls s = Some s' \<and> list_all internal_or_time ls \<and> quiescent s'"
proof (induction "work s" arbitrary: s rule: less_induct)
  case less
  show ?case
  proof (cases "quiescent s")
    case True
    then show ?thesis by (intro exI [of _ "[]"]) simp
  next
    case False
    then obtain t l where tl: "execs env [LTick t, l] s \<noteq> None" "internal l" by (rule progress)
    then obtain s1 where s1: "execs env [LTick t, l] s = Some s1" "internal l" by blast
    then have "exec env l (s\<lparr>ps_now := ps_now s + t\<rparr>) = Some s1" by (auto split: option.splits)
    from internal_decreases [OF this s1(2)] have "work s1 < work s" by simp
    from less [OF this] obtain ls s' where
      "execs env ls s1 = Some s'" "list_all internal_or_time ls" "quiescent s'" by blast
    with s1 show ?thesis
      by (intro exI [of _ "[LTick t, l] @ ls"] exI [of _ s'])
        (simp only: execs_append bind.simps, simp add: internal_internal_or_time)
  qed
qed

text \<open>At rest the program can do nothing more by itself.\<close>

lemma rest_is_final:
  assumes "quiescent s" and "internal l"
  shows "execs env [LTick t, l] s = None"
  using assms by (cases l) (auto simp: quiescent_def due_def)

section \<open>Properties\<close>

text \<open>
  C20. The goroutines of the policy cache do not run for ever. From any state, a run of steps of the
  watcher, the spawned reads, the timers, their callbacks and the commits is at most as long as the work
  of that state: seven steps for each queued event, four for each timer, and what is already under way.
\<close>

theorem internal_steps_terminate:
  assumes "execs env ls s = Some s'" and "list_all internal ls"
  shows "length ls \<le> 7 * length (ps_events s) + 4 * length (timers (fc_queue (ps_cache s))) +
    length (ps_spawned s) + 3 * length (ps_fired s) + 2 * length (ps_callbacks s) + length (ps_inflight s)"
  using internal_run_bound [OF assms] by (simp add: work_def)

theorem internal_steps_terminate_witness:
  "\<exists>s s'. execs sample_rego_env [LWatch, LWatch, LRead ''r.rego''] s = Some s' \<and>
     length [LWatch, LWatch, LRead ''r.rego''] \<le> 7 * length (ps_events s) + 4 * length (timers (fc_queue (ps_cache s))) +
       length (ps_spawned s) + 3 * length (ps_fired s) + 2 * length (ps_callbacks s) + length (ps_inflight s)"
proof -
  have "case execs sample_rego_env (take 2 replaced) sample_start of None \<Rightarrow> False
      | Some s \<Rightarrow> (case execs sample_rego_env [LWatch, LWatch, LRead ''r.rego''] s of None \<Rightarrow> False | Some _ \<Rightarrow> True)"
    by code_simp
  then obtain s s' where "execs sample_rego_env [LWatch, LWatch, LRead ''r.rego''] s = Some s'"
    by (auto simp del: execs.simps split: option.splits)
  with internal_steps_terminate [OF this] show ?thesis by auto
qed

text \<open>
  C21. The system comes to rest on the current files. Take any state that a run has reached from one whose
  cache is current up to the queued events. However the steps of the program and the passing of time go on
  from there, the program makes at most so many steps as the events, timers and calls under way are worth;
  as long as anything is queued, running or pending it can make another step, if need be after waiting, so
  that a run which goes on until it cannot ends with nothing left to do; and there the directory is as it
  was and every watched regular file that the cache takes to be current has the content on disk.
\<close>

theorem comes_to_rest:
  assumes "policy_run env P s0 s" and "cache_current s0" and "execs env ls s = Some s'" and "list_all internal_or_time ls"
  shows "length (filter internal ls) \<le> 7 * length (ps_events s) + 4 * length (timers (fc_queue (ps_cache s))) +
      length (ps_spawned s) + 3 * length (ps_fired s) + 2 * length (ps_callbacks s) + length (ps_inflight s) \<and>
    ((\<exists>t l. internal l \<and> execs env [LTick t, l] s' \<noteq> None) \<or>
     quiescent s' \<and> ps_disk s' = ps_disk s \<and>
     (\<forall>n d. watched (ps_cache s') n \<and> \<not> ps_link s n \<and> cached (ps_cache s') n = Some d \<longrightarrow> ps_disk s n = Content d))"
proof
  show "length (filter internal ls) \<le> 7 * length (ps_events s) + 4 * length (timers (fc_queue (ps_cache s))) +
      length (ps_spawned s) + 3 * length (ps_fired s) + 2 * length (ps_callbacks s) + length (ps_inflight s)"
    using run_bound [OF assms(3,4)] by (simp add: work_def)
  have "policy_run env (\<lambda>_. True) s s'" using assms(3) policy_run.start by (rule execs_run) simp
  then have "cache_current s'" using policy_run_cache_current [OF assms(1,2)] by (rule policy_run_cache_current)
  then have "\<forall>n d. watched (ps_cache s') n \<and> \<not> ps_link s n \<and> cached (ps_cache s') n = Some d \<longrightarrow> ps_disk s n = Content d"
    if "quiescent s'"
    using that execs_keep_disk [OF assms(3,4)] by (auto simp: cache_current_def quiescent_def)
  moreover have "\<exists>t l. internal l \<and> execs env [LTick t, l] s' \<noteq> None" if "\<not> quiescent s'"
    using progress [OF that, of env] by blast
  ultimately show "(\<exists>t l. internal l \<and> execs env [LTick t, l] s' \<noteq> None) \<or>
     quiescent s' \<and> ps_disk s' = ps_disk s \<and>
     (\<forall>n d. watched (ps_cache s') n \<and> \<not> ps_link s n \<and> cached (ps_cache s') n = Some d \<longrightarrow> ps_disk s n = Content d)"
    using execs_keep_disk [OF assms(3,4)] by blast
qed

text \<open>After a write, six steps of the program use up the work of the one event, and the system is at rest.\<close>

theorem comes_to_rest_witness:
  "\<exists>s s'. policy_run sample_rego_env (\<lambda>_. True) sample_start s \<and> ps_events s \<noteq> [] \<and>
     execs sample_rego_env (tl rewritten) s = Some s' \<and>
     length (filter internal (tl rewritten)) \<le> 7 \<and> quiescent s' \<and>
     ps_disk s' ''r.rego'' = Content ''package b'' \<and> cached (ps_cache s') ''r.rego'' = Some ''package b''"
proof -
  have "case execs sample_rego_env (take 1 rewritten) sample_start of None \<Rightarrow> False
      | Some s \<Rightarrow> ps_events s \<noteq> [] \<and> length (ps_events s) = 1 \<and> timers (fc_queue (ps_cache s)) = [] \<and>
          ps_spawned s = [] \<and> ps_fired s = [] \<and> ps_callbacks s = [] \<and> ps_inflight s = [] \<and>
          \<not> ps_link s ''r.rego'' \<and>
          (case execs sample_rego_env (tl rewritten) s of None \<Rightarrow> False
           | Some s' \<Rightarrow> quiescent s' \<and> watched (ps_cache s') ''r.rego'' \<and> cached (ps_cache s') ''r.rego'' = Some ''package b'')"
    by code_simp
  then obtain s s' where s: "execs sample_rego_env (take 1 rewritten) sample_start = Some s" "ps_events s \<noteq> []"
    "length (ps_events s) = 1" "timers (fc_queue (ps_cache s)) = []" "ps_spawned s = []" "ps_fired s = []"
    "ps_callbacks s = []" "ps_inflight s = []" "\<not> ps_link s ''r.rego''"
    and s': "execs sample_rego_env (tl rewritten) s = Some s'" "quiescent s'" "watched (ps_cache s') ''r.rego''"
    "cached (ps_cache s') ''r.rego'' = Some ''package b''"
    by (auto simp del: execs.simps split: option.splits)
  have run: "policy_run sample_rego_env (\<lambda>_. True) sample_start s"
    using s(1) policy_run.start by (rule execs_run) simp
  have "list_all internal_or_time (tl rewritten)" by (simp add: rewritten_def)
  note rest = comes_to_rest [OF run sample_start_current s'(1) this]
  moreover have "\<not> (\<exists>t l. internal l \<and> execs sample_rego_env [LTick t, l] s' \<noteq> None)"
    using rest_is_final [OF s'(2)] by (auto simp del: execs.simps)
  ultimately have "ps_disk s' = ps_disk s"
    "watched (ps_cache s') ''r.rego'' \<and> \<not> ps_link s ''r.rego'' \<and> cached (ps_cache s') ''r.rego'' = Some ''package b'' \<longrightarrow>
      ps_disk s ''r.rego'' = Content ''package b''"
    by blast+
  with run s s' rest show ?thesis
    by (intro exI [of _ s] exI [of _ s']) simp
qed

end
