(* ===== verification/Lifecycle.thy ===== *)
theory Lifecycle
  imports Management Policy_Quiescence
begin

text \<open>
  The process of \<^verbatim>\<open>cmd/main.go\<close> from start to exit: \<^verbatim>\<open>application.New\<close>, \<^verbatim>\<open>Run\<close> and \<^verbatim>\<open>Close\<close> as the steps of
  the main goroutine, interleaved with the goroutines of the servers, the requests they accept, the steps of
  the policy system and the signal. Servers are those of \<^verbatim>\<open>net/http\<close>: \<^verbatim>\<open>ListenAndServe\<close> may fail at any time,
  \<^verbatim>\<open>Shutdown\<close> closes the listeners at once, also of a server that is only about to listen, and then waits for
  the requests under way until its context expires.
\<close>

section \<open>State\<close>

datatype server_state = NotStarted | Starting | Listening | Failed | ShutDown

text \<open>
  Where the main goroutine is; or how the process ended: by its own exit, by a panic or fatal error of the
  runtime, or killed by a signal that it does not handle.
\<close>

datatype pc =
    PcNew | PcSetup | PcRun | PcWatch | PcListen | PcWait | PcCloseMgmt | PcCloseRouter | PcDrain | PcCloseRegos
  | PcExit int | PcCrash string | PcKilled

text \<open>
  The policy system exists once the cache has been created. \<open>pr_active\<close> is the number of requests that the
  proxy is serving, \<open>pr_expired\<close> says that the minute of the router's \<^verbatim>\<open>Close\<close> is over.
\<close>

record 'q process =
  pr_pc :: pc
  pr_mgmt :: server_state
  pr_proxy :: server_state
  pr_pprof :: server_state
  pr_sys :: "'q policy_sys option"
  pr_watching :: bool
  pr_watcher_open :: bool
  pr_signal :: bool
  pr_active :: nat
  pr_expired :: bool

definition start_process :: "'q process" where
  "start_process = \<lparr>pr_pc = PcNew, pr_mgmt = NotStarted, pr_proxy = NotStarted, pr_pprof = NotStarted, pr_sys = None,
     pr_watching = False, pr_watcher_open = False, pr_signal = False, pr_active = 0, pr_expired = False\<rparr>"

section \<open>Operations\<close>

text \<open>
  \<^verbatim>\<open>startMgmt\<close>: the metrics are registered, the server is created and a goroutine starts to listen. The gauge
  is set in \<open>application_New\<close>.
\<close>

definition startMgmt :: "metric_desc list \<Rightarrow> 'q process \<Rightarrow> 'q process outcome" where
  "startMgmt collectors s = bind_outcome (metrics_New collectors) (\<lambda>_. Done (s\<lparr>pr_mgmt := Starting\<rparr>))"

text \<open>\<^verbatim>\<open>startPprof\<close>: nothing in the normal build, a third server in the profiling build.\<close>

definition startPprof :: "bool \<Rightarrow> 'q process \<Rightarrow> 'q process" where
  "startPprof pprof_build s = (if pprof_build then s\<lparr>pr_pprof := Starting\<rparr> else s)"

text \<open>The policy system as \<^verbatim>\<open>application.New\<close> leaves it.\<close>

definition new_sys :: "(string \<Rightarrow> fs_read) \<Rightarrow> (string \<Rightarrow> bool) \<Rightarrow> (Cache, 'q) RegoCache \<Rightarrow> 'q policy_sys" where
  "new_sys disk links c = \<lparr>ps_disk = disk, ps_link = links, ps_events = [], ps_rc = c, ps_spawned = [], ps_fired = [], ps_callbacks = [],
     ps_inflight = [], ps_now = 0\<rparr>"

text \<open>
  \<^verbatim>\<open>app.regos.Watch\<close> in \<^verbatim>\<open>Run\<close>: the initial load, then the goroutine of the watcher; when the directory cannot
  be listed, \<^verbatim>\<open>Watch\<close> returns before it starts the goroutine.
\<close>

definition Run_Watch :: "'q rego_env \<Rightarrow> (string \<times> bool) list option \<Rightarrow> 'q process \<Rightarrow> 'q process" where
  "Run_Watch renv listing s =
     s\<lparr>pr_sys := map_option (\<lambda>p. p\<lparr>ps_rc := regos_Watch renv (ps_disk p) listing (ps_rc p)\<rparr>) (pr_sys s),
       pr_watching := (listing \<noteq> None)\<rparr>"

text \<open>\<^verbatim>\<open>ListenAndServe\<close> of the router: the server is created and a goroutine starts to listen.\<close>

definition proxy_ListenAndServe :: "'q process \<Rightarrow> 'q process" where
  "proxy_ListenAndServe s = s\<lparr>pr_proxy := Starting\<rparr>"

text \<open>The end of \<^verbatim>\<open>Run\<close> and of \<^verbatim>\<open>main\<close>: \<^verbatim>\<open>os.Exit\<close> does not run the deferred \<^verbatim>\<open>Close\<close>.\<close>

definition after_Run :: "bool \<Rightarrow> pc" where
  "after_Run ok = (if \<not> ok then PcExit 1 else PcCloseMgmt)"

text \<open>The parts of \<^verbatim>\<open>Close\<close>; a server that was never created is left alone.\<close>

definition shut_down :: "server_state \<Rightarrow> server_state" where
  "shut_down v = (if v = NotStarted then NotStarted else ShutDown)"

definition Close_mgmt :: "'q process \<Rightarrow> 'q process" where
  "Close_mgmt s = s\<lparr>pr_mgmt := shut_down (pr_mgmt s)\<rparr>"

definition router_Close :: "'q process \<Rightarrow> 'q process" where
  "router_Close s = s\<lparr>pr_proxy := shut_down (pr_proxy s)\<rparr>"

text \<open>\<^verbatim>\<open>Close\<close> of the file cache closes the watcher, whose goroutine ends with its channel; the rego cache's calls it.\<close>

definition filecache_Close :: "'q process \<Rightarrow> 'q process" where
  "filecache_Close s = s\<lparr>pr_watcher_open := False, pr_watching := False\<rparr>"

definition regocache_Close :: "'q process \<Rightarrow> 'q process" where
  "regocache_Close s = filecache_Close s"

section \<open>Steps\<close>

definition alive :: "'q process \<Rightarrow> bool" where
  "alive s = (case pr_pc s of PcExit _ \<Rightarrow> False | PcCrash _ \<Rightarrow> False | PcKilled \<Rightarrow> False | _ \<Rightarrow> True)"

text \<open>
  The steps. \<^verbatim>\<open>Run\<close> starts with \<^verbatim>\<open>signal.Notify\<close>: a SIGTERM or SIGINT that comes before it kills the process,
  as other signals do at any time (\<open>killed\<close>); after it, it is waited for (\<open>signal\<close>). The endpoint \<^verbatim>\<open>/config\<close> ranges
  over the map of the compiled policies without their mutex; when a reload writes it meanwhile, the runtime
  ends the process (\<open>map_race\<close>).
\<close>

inductive process_step :: "('tok, 'resp, 'az, 'jtok, 'bc, 'q) app_env \<Rightarrow> bool \<Rightarrow> Fields \<Rightarrow> 'q process \<Rightarrow> 'q process \<Rightarrow> bool"
  for env pprof_build parsed where
  parse_exit:
    "pr_pc s = PcNew \<Longrightarrow> ae_arg_exit env = Some n \<Longrightarrow> process_step env pprof_build parsed s (s\<lparr>pr_pc := PcExit n\<rparr>)"
| config_exit:
    "pr_pc s = PcNew \<Longrightarrow> ae_arg_exit env = None \<Longrightarrow>
     config_New (ae_SetPrefix env) (ae_SetWrapper env) (ae_order env) parsed = Exited n \<Longrightarrow>
     process_step env pprof_build parsed s (s\<lparr>pr_pc := PcExit n\<rparr>)"
| config_crash:
    "pr_pc s = PcNew \<Longrightarrow> ae_arg_exit env = None \<Longrightarrow>
     config_New (ae_SetPrefix env) (ae_SetWrapper env) (ae_order env) parsed = Crashed m \<Longrightarrow>
     process_step env pprof_build parsed s (s\<lparr>pr_pc := PcCrash m\<rparr>)"
| start_mgmt:
    "pr_pc s = PcNew \<Longrightarrow> ae_arg_exit env = None \<Longrightarrow>
     config_New (ae_SetPrefix env) (ae_SetWrapper env) (ae_order env) parsed = Running cfg \<Longrightarrow>
     startMgmt (ae_collectors env) s = Done s' \<Longrightarrow>
     process_step env pprof_build parsed s ((startPprof pprof_build s')\<lparr>pr_pc := PcSetup\<rparr>)"
| mgmt_crash:
    "pr_pc s = PcNew \<Longrightarrow> ae_arg_exit env = None \<Longrightarrow>
     config_New (ae_SetPrefix env) (ae_SetWrapper env) (ae_order env) parsed = Running cfg \<Longrightarrow>
     startMgmt (ae_collectors env) s = Panic m \<Longrightarrow> process_step env pprof_build parsed s (s\<lparr>pr_pc := PcCrash m\<rparr>)"
| setup_done:
    "pr_pc s = PcSetup \<Longrightarrow> application_New env parsed = Running (Some app) \<Longrightarrow>
     process_step env pprof_build parsed s
       (s\<lparr>pr_pc := PcRun, pr_sys := Some (new_sys (ae_disk env) links (app_regos app)), pr_watcher_open := True\<rparr>)"
| setup_fail:
    "pr_pc s = PcSetup \<Longrightarrow> application_New env parsed = Running None \<Longrightarrow>
     process_step env pprof_build parsed s (s\<lparr>pr_pc := PcExit 1\<rparr>)"
| setup_exit:
    "pr_pc s = PcSetup \<Longrightarrow> application_New env parsed = Exited n \<Longrightarrow>
     process_step env pprof_build parsed s (s\<lparr>pr_pc := PcExit n\<rparr>)"
| run_notify:
    "pr_pc s = PcRun \<Longrightarrow> process_step env pprof_build parsed s (s\<lparr>pr_pc := PcWatch\<rparr>)"
| run_watch:
    "pr_pc s = PcWatch \<Longrightarrow>
     process_step env pprof_build parsed s ((Run_Watch (ae_rego env) (ae_ReadDir env) s)\<lparr>pr_pc := PcListen\<rparr>)"
| run_listen:
    "pr_pc s = PcListen \<Longrightarrow> process_step env pprof_build parsed s ((proxy_ListenAndServe s)\<lparr>pr_pc := PcWait\<rparr>)"
| run_signal:
    "pr_pc s = PcWait \<Longrightarrow> pr_signal s \<Longrightarrow> pr_sys s = Some p \<Longrightarrow>
     process_step env pprof_build parsed s (s\<lparr>pr_pc := after_Run (Ready (Some (ps_rc p)))\<rparr>)"
| close_mgmt:
    "pr_pc s = PcCloseMgmt \<Longrightarrow> process_step env pprof_build parsed s ((Close_mgmt s)\<lparr>pr_pc := PcCloseRouter\<rparr>)"
| close_router:
    "pr_pc s = PcCloseRouter \<Longrightarrow> process_step env pprof_build parsed s ((router_Close s)\<lparr>pr_pc := PcDrain\<rparr>)"
| drained:
    "pr_pc s = PcDrain \<Longrightarrow> pr_active s = 0 \<or> pr_expired s \<Longrightarrow>
     process_step env pprof_build parsed s (s\<lparr>pr_pc := PcCloseRegos\<rparr>)"
| close_regos:
    "pr_pc s = PcCloseRegos \<Longrightarrow> process_step env pprof_build parsed s ((regocache_Close s)\<lparr>pr_pc := PcExit 0\<rparr>)"
| mgmt_up:
    "alive s \<Longrightarrow> pr_mgmt s = Starting \<Longrightarrow> process_step env pprof_build parsed s (s\<lparr>pr_mgmt := Listening\<rparr>)"
| mgmt_down:
    "alive s \<Longrightarrow> pr_mgmt s \<in> {Starting, Listening} \<Longrightarrow> process_step env pprof_build parsed s (s\<lparr>pr_mgmt := Failed\<rparr>)"
| proxy_up:
    "alive s \<Longrightarrow> pr_proxy s = Starting \<Longrightarrow> process_step env pprof_build parsed s (s\<lparr>pr_proxy := Listening\<rparr>)"
| proxy_down:
    "alive s \<Longrightarrow> pr_proxy s \<in> {Starting, Listening} \<Longrightarrow> process_step env pprof_build parsed s (s\<lparr>pr_proxy := Failed\<rparr>)"
| accept:
    "alive s \<Longrightarrow> pr_proxy s = Listening \<Longrightarrow> process_step env pprof_build parsed s (s\<lparr>pr_active := Suc (pr_active s)\<rparr>)"
| finish:
    "alive s \<Longrightarrow> pr_active s = Suc n \<Longrightarrow> process_step env pprof_build parsed s (s\<lparr>pr_active := n\<rparr>)"
| policies:
    "alive s \<Longrightarrow> pr_sys s = Some p \<Longrightarrow> exec (ae_rego env) l p = Some p' \<Longrightarrow> (l = LWatch \<Longrightarrow> pr_watching s) \<Longrightarrow>
     process_step env pprof_build parsed s (s\<lparr>pr_sys := Some p'\<rparr>)"
| map_race:
    "alive s \<Longrightarrow> pr_mgmt s = Listening \<Longrightarrow> pr_sys s = Some p \<Longrightarrow> ps_inflight p \<noteq> [] \<or> pr_pc s = PcWatch \<Longrightarrow>
     process_step env pprof_build parsed s (s\<lparr>pr_pc := PcCrash ''concurrent map iteration and map write''\<rparr>)"
| killed:
    "alive s \<Longrightarrow> process_step env pprof_build parsed s (s\<lparr>pr_pc := PcKilled\<rparr>)"
| signal:
    "alive s \<Longrightarrow> pr_pc s \<notin> {PcNew, PcSetup, PcRun} \<Longrightarrow> process_step env pprof_build parsed s (s\<lparr>pr_signal := True\<rparr>)"
| expire:
    "pr_pc s = PcDrain \<Longrightarrow> process_step env pprof_build parsed s (s\<lparr>pr_expired := True\<rparr>)"

inductive process_run :: "('tok, 'resp, 'az, 'jtok, 'bc, 'q) app_env \<Rightarrow> bool \<Rightarrow> Fields \<Rightarrow> 'q process \<Rightarrow> 'q process \<Rightarrow> bool"
  for env pprof_build parsed s0 where
  here: "process_run env pprof_build parsed s0 s0"
| more: "process_run env pprof_build parsed s0 s \<Longrightarrow> process_step env pprof_build parsed s s' \<Longrightarrow>
    process_run env pprof_build parsed s0 s'"

abbreviation reachable :: "('tok, 'resp, 'az, 'jtok, 'bc, 'q) app_env \<Rightarrow> bool \<Rightarrow> Fields \<Rightarrow> 'q process \<Rightarrow> bool" where
  "reachable env pprof_build parsed \<equiv> process_run env pprof_build parsed start_process"

section \<open>Invariants\<close>

lemmas process_ops = startPprof_def Run_Watch_def proxy_ListenAndServe_def after_Run_def shut_down_def Close_mgmt_def
  router_Close_def filecache_Close_def regocache_Close_def

definition before_listen :: "pc list" where
  "before_listen = [PcNew, PcSetup, PcRun, PcWatch, PcListen]"

definition closing :: "pc list" where
  "closing = [PcCloseMgmt, PcCloseRouter, PcDrain, PcCloseRegos, PcExit 0]"

text \<open>What the main goroutine has done, by where it is.\<close>

definition process_inv :: "'q process \<Rightarrow> bool" where
  "process_inv s \<longleftrightarrow>
     (pr_pc s \<in> set before_listen \<longrightarrow> pr_proxy s = NotStarted \<and> pr_active s = 0) \<and>
     (pr_pc s \<notin> {PcNew, PcSetup} \<and> alive s \<longrightarrow> pr_sys s \<noteq> None) \<and>
     (pr_pc s \<in> {PcWait} \<union> set closing \<longrightarrow> pr_proxy s \<noteq> NotStarted) \<and>
     (pr_pc s = PcNew \<longrightarrow> pr_mgmt s = NotStarted) \<and>
     (pr_pc s \<notin> {PcNew} \<and> alive s \<longrightarrow> pr_mgmt s \<noteq> NotStarted) \<and>
     (pr_pc s \<in> set closing \<longrightarrow> pr_signal s) \<and>
     (pr_pc s \<in> set (drop 1 closing) \<longrightarrow> pr_mgmt s = ShutDown) \<and>
     (pr_pc s \<in> set (drop 2 closing) \<longrightarrow> pr_proxy s = ShutDown) \<and>
     (pr_pc s \<in> set (drop 3 closing) \<longrightarrow> pr_active s = 0 \<or> pr_expired s) \<and>
     (pr_pc s = PcExit 0 \<longrightarrow> \<not> pr_watcher_open s \<and> \<not> pr_watching s)"

lemma config_New_Exited: "config_New P W ord f = Exited n \<Longrightarrow> n = 1"
proof -
  have "check_timeouts m \<noteq> Exited n" if "n \<noteq> 1" for m using that by (induction m rule: check_timeouts.induct) auto
  moreover have "check_timeouts m \<noteq> Crashed e" for m e by (induction m rule: check_timeouts.induct) auto
  ultimately show "config_New P W ord f = Exited n \<Longrightarrow> n = 1"
    by (auto simp: config_New_def validateEnvsubst_def validateTimeouts_def EnvsubstPrefixRune_def
        EnvsubstWrapperRune_def elim!: bind_proc.elims split: list.splits if_splits)
qed

lemma application_New_Exited: "application_New env f = Exited n \<Longrightarrow> n = 1"
  using config_New_Exited
  by (fastforce simp: application_New_def choose_auth_def jwtsupport_New_def Let_def
      elim!: bind_proc.elims split: sum.splits option.splits if_splits)

lemma process_inv_start: "process_inv start_process"
  by (simp add: process_inv_def start_process_def before_listen_def closing_def)

lemma alive_simps [simp]:
  "alive (s\<lparr>pr_mgmt := v\<rparr>) = alive s" "alive (s\<lparr>pr_proxy := v\<rparr>) = alive s" "alive (s\<lparr>pr_active := k\<rparr>) = alive s"
  "alive (s\<lparr>pr_sys := y\<rparr>) = alive s" "alive (s\<lparr>pr_signal := b\<rparr>) = alive s" "alive (s\<lparr>pr_expired := b\<rparr>) = alive s"
  by (simp_all add: alive_def)

lemma alive_pc: "alive s \<Longrightarrow> pr_pc s \<noteq> PcExit n"
  by (auto simp: alive_def)

lemma startMgmt_Done: "startMgmt cs s = Done s' \<Longrightarrow> s' = s\<lparr>pr_mgmt := Starting\<rparr>"
  by (cases "metrics_New cs") (auto simp: startMgmt_def)

lemma process_inv_step:
  assumes "process_step env b f s s'" and "process_inv s" and "ae_arg_exit env = None"
  shows "process_inv s'"
  using assms(1)
proof cases
  case (parse_exit n)
  with assms(3) show ?thesis by simp
next
  case (config_exit n)
  then have "n = 1" using config_New_Exited by blast
  with config_exit show ?thesis by (simp add: process_inv_def before_listen_def closing_def alive_def)
next
  case (start_mgmt cfg t)
  from startMgmt_Done [OF start_mgmt(5)] start_mgmt assms(2) show ?thesis
    by (simp add: process_inv_def before_listen_def closing_def alive_def process_ops)
next
  case (setup_exit n)
  then have "n = 1" using application_New_Exited by blast
  with setup_exit show ?thesis by (simp add: process_inv_def before_listen_def closing_def alive_def)
next
  case (run_signal p)
  with assms(2) show ?thesis
    by (simp add: process_inv_def before_listen_def closing_def alive_def process_ops)
qed (use assms(2) in \<open>auto simp: process_inv_def before_listen_def closing_def alive_def process_ops
    split: pc.splits\<close>)

lemma reachable_inv: "reachable env b f s \<Longrightarrow> ae_arg_exit env = None \<Longrightarrow> process_inv s"
  by (induction rule: process_run.induct) (auto intro: process_inv_start process_inv_step)

text \<open>When the arguments end the process, nothing has been started.\<close>

lemma reachable_parse_exit:
  assumes "reachable env b f s" and "ae_arg_exit env = Some k"
  shows "\<exists>c. s = start_process\<lparr>pr_pc := c\<rparr> \<and> c \<in> {PcNew, PcExit k, PcKilled}"
  using assms(1)
proof (induction rule: process_run.induct)
  case here
  show ?case by (intro exI [of _ PcNew]) (simp add: start_process_def)
next
  case (more s s')
  then obtain c where c: "s = start_process\<lparr>pr_pc := c\<rparr>" "c \<in> {PcNew, PcExit k, PcKilled}" by blast
  from more(2) c assms(2) have "s' = s\<lparr>pr_pc := PcExit k\<rparr> \<or> s' = s\<lparr>pr_pc := PcKilled\<rparr>"
    by cases (auto simp: start_process_def alive_def)
  with c(1) show ?case by (auto simp: start_process_def)
qed

lemma not_watching_step:
  assumes "process_step env b f s s'" and "ae_ReadDir env = None" and "\<not> pr_watching s"
  shows "\<not> pr_watching s'"
  using assms(1)
  by cases (use assms(2,3) in \<open>auto simp: process_ops dest!: startMgmt_Done\<close>)

lemma exit_step:
  "process_step env b f t t' \<Longrightarrow> ae_arg_exit env = None \<Longrightarrow> pr_pc t' = PcExit m \<Longrightarrow>
    pr_pc t = PcExit m \<or> m = 0 \<or> m = 1"
  by (induction rule: process_step.induct)
    (auto simp: process_ops dest: config_New_Exited application_New_Exited startMgmt_Done split: if_splits)

subsection \<open>Runs\<close>

lemma process_run_trans:
  "process_run env b f s1 s2 \<Longrightarrow> process_run env b f s0 s1 \<Longrightarrow> process_run env b f s0 s2"
  by (induction rule: process_run.induct) (auto intro: process_run.more)

text \<open>A run that has completed the initial load.\<close>

definition loaded_run :: "('tok, 'resp, 'az, 'jtok, 'bc, 'q) app_env \<Rightarrow> bool \<Rightarrow> Fields \<Rightarrow> 'q process \<Rightarrow> bool" where
  "loaded_run env b f s \<longleftrightarrow> (\<exists>s1. reachable env b f s1 \<and> pr_pc s1 = PcWatch \<and>
     process_run env b f ((Run_Watch (ae_rego env) (ae_ReadDir env) s1)\<lparr>pr_pc := PcListen\<rparr>) s)"

lemma loaded_run_more: "loaded_run env b f s \<Longrightarrow> process_step env b f s s' \<Longrightarrow> loaded_run env b f s'"
  unfolding loaded_run_def by (blast intro: process_run.more)

definition past_load :: "'q process \<Rightarrow> bool" where
  "past_load s \<longleftrightarrow> pr_pc s \<in> {PcListen, PcWait} \<union> set closing \<or> pr_active s > 0"

lemma past_load_step:
  assumes "process_step env b f s s'" and "process_inv s" and "past_load s'" and "pr_pc s \<noteq> PcWatch"
    and "ae_arg_exit env = None"
  shows "past_load s"
  using assms(1)
proof cases
  case (parse_exit n)
  with assms(5) show ?thesis by simp
next
  case (config_exit n)
  then have "n = 1" using config_New_Exited by blast
  with config_exit assms(2,3) show ?thesis by (simp add: past_load_def closing_def)
next
  case (start_mgmt cfg t)
  from startMgmt_Done [OF start_mgmt(5)] start_mgmt assms(2,3) show ?thesis
    by (simp add: past_load_def closing_def process_ops split: if_splits)
next
  case (setup_exit n)
  then have "n = 1" using application_New_Exited by blast
  with setup_exit assms(2,3) show ?thesis by (simp add: past_load_def closing_def)
next
  case accept
  with assms(2) show ?thesis
    by (cases "pr_pc s") (auto simp: past_load_def closing_def process_inv_def before_listen_def alive_def)
qed (use assms(2,3,4) in \<open>auto simp: past_load_def closing_def process_ops\<close>)

lemma reachable_loaded:
  assumes "reachable env b f s" and "ae_arg_exit env = None"
  shows "past_load s \<longrightarrow> loaded_run env b f s"
  using assms(1)
proof (induction rule: process_run.induct)
  case here
  then show ?case by (simp add: past_load_def start_process_def closing_def)
next
  case (more s s')
  note inv = reachable_inv [OF more(1) assms(2)]
  show ?case
  proof (cases "pr_pc s = PcWatch")
    case False
    with more inv show ?thesis using past_load_step [OF _ _ _ _ assms(2)] loaded_run_more by blast
  next
    case True
    show ?thesis
    proof
      assume past: "past_load s'"
      from more(2) past True inv have "s' = (Run_Watch (ae_rego env) (ae_ReadDir env) s)\<lparr>pr_pc := PcListen\<rparr>"
        by cases (auto simp: past_load_def closing_def process_inv_def before_listen_def)
      with more(1) True show "loaded_run env b f s'"
        unfolding loaded_run_def by (blast intro: process_run.here)
    qed
  qed
qed

text \<open>The start of every application that starts, up to the wait for the signal.\<close>

definition waiting :: "('tok, 'resp, 'az, 'jtok, 'bc, 'q) app_env \<Rightarrow> bool \<Rightarrow> (Cache, 'q) RegoCache \<Rightarrow> 'q process" where
  "waiting env pprof_build c =
     \<lparr>pr_pc = PcWait, pr_mgmt = Starting, pr_proxy = Starting, pr_pprof = (if pprof_build then Starting else NotStarted),
      pr_sys = Some (new_sys (ae_disk env) (\<lambda>_. False) (regos_Watch (ae_rego env) (ae_disk env) (ae_ReadDir env) c)),
      pr_watching = (ae_ReadDir env \<noteq> None), pr_watcher_open = True, pr_signal = False, pr_active = 0,
      pr_expired = False\<rparr>"

lemma waiting_reachable:
  assumes "application_New env f = Running (Some app)" and "metrics_New (ae_collectors env) = Done reg"
    and "ae_arg_exit env = None"
  shows "reachable env b f (waiting env b (app_regos app))"
proof -
  obtain cfg where cfg: "config_New (ae_SetPrefix env) (ae_SetWrapper env) (ae_order env) f = Running cfg"
    using assms(1) unfolding application_New_def bind_proc_Running by blast
  let ?s1 = "(startPprof b (start_process\<lparr>pr_mgmt := Starting\<rparr>))\<lparr>pr_pc := PcSetup\<rparr>"
  let ?s1a = "?s1\<lparr>pr_pc := PcRun, pr_sys := Some (new_sys (ae_disk env) (\<lambda>_. False) (app_regos app)), pr_watcher_open := True\<rparr>"
  let ?s2 = "?s1a\<lparr>pr_pc := PcWatch\<rparr>"
  let ?s3 = "(Run_Watch (ae_rego env) (ae_ReadDir env) ?s2)\<lparr>pr_pc := PcListen\<rparr>"
  let ?s4 = "(proxy_ListenAndServe ?s3)\<lparr>pr_pc := PcWait\<rparr>"
  have "startMgmt (ae_collectors env) start_process = Done (start_process\<lparr>pr_mgmt := Starting\<rparr>)"
    using assms(2) by (simp add: startMgmt_def)
  then have "process_step env b f start_process ?s1"
    by (intro process_step.start_mgmt [OF _ assms(3) cfg]) (simp_all add: start_process_def)
  moreover have "process_step env b f ?s1 ?s1a"
    by (rule process_step.setup_done [OF _ assms(1)]) simp
  moreover have "process_step env b f ?s1a ?s2" by (rule process_step.run_notify) simp
  moreover have "process_step env b f ?s2 ?s3" by (rule process_step.run_watch) simp
  moreover have "process_step env b f ?s3 ?s4" by (rule process_step.run_listen) simp
  ultimately have "reachable env b f ?s4" by (meson process_run.intros)
  moreover have "?s4 = waiting env b (app_regos app)"
    by (simp add: waiting_def start_process_def process_ops new_sys_def)
  ultimately show ?thesis by simp
qed

lemma accept_steps:
  assumes "alive s" and "pr_proxy s = Listening"
  shows "process_run env b f s (s\<lparr>pr_active := pr_active s + n\<rparr>)"
proof (induction n)
  case 0
  show ?case by (simp add: process_run.here)
next
  case (Suc n)
  let ?s = "s\<lparr>pr_active := pr_active s + n\<rparr>"
  have "process_step env b f ?s (?s\<lparr>pr_active := Suc (pr_active ?s)\<rparr>)"
    by (rule process_step.accept) (use assms in simp_all)
  with Suc show ?case by (auto intro: process_run.more)
qed

lemma close_run:
  assumes "pr_pc s = PcWait" and "pr_signal s" and "pr_sys s = Some p" and "Ready (Some (ps_rc p))"
  shows "\<exists>s'. process_run env pprof_build parsed s s' \<and> pr_pc s' = PcExit 0"
proof -
  let ?s1 = "s\<lparr>pr_pc := PcCloseMgmt\<rparr>"
  let ?s2 = "(Close_mgmt ?s1)\<lparr>pr_pc := PcCloseRouter\<rparr>"
  let ?s3 = "(router_Close ?s2)\<lparr>pr_pc := PcDrain\<rparr>"
  let ?s4 = "?s3\<lparr>pr_expired := True\<rparr>"
  let ?s5 = "?s4\<lparr>pr_pc := PcCloseRegos\<rparr>"
  let ?s6 = "(regocache_Close ?s5)\<lparr>pr_pc := PcExit 0\<rparr>"
  have "process_step env pprof_build parsed s ?s1"
    using process_step.run_signal [OF assms(1-3), of env] assms(4) by (simp add: after_Run_def)
  moreover have "process_step env pprof_build parsed ?s1 ?s2" by (rule process_step.close_mgmt) simp
  moreover have "process_step env pprof_build parsed ?s2 ?s3" by (rule process_step.close_router) simp
  moreover have "process_step env pprof_build parsed ?s3 ?s4" by (rule process_step.expire) simp
  moreover have "process_step env pprof_build parsed ?s4 ?s5" by (rule process_step.drained) simp_all
  moreover have "process_step env pprof_build parsed ?s5 ?s6" by (rule process_step.close_regos) simp
  ultimately have "process_run env pprof_build parsed s ?s6" by (meson process_run.intros)
  then show ?thesis by (intro exI [of _ ?s6]) simp
qed

text \<open>The sample installation, ready or with a directory that cannot be listed.\<close>

lemma sample_metrics: "metrics_New (ae_collectors sample_app_env) = Done metrics_descs"
  using metrics_New_Done [of "[]"] by (simp add: sample_app_env_def)

lemma sample_ready:
  "Ready (Some (regos_Watch (ae_rego sample_app_env) (ae_disk sample_app_env) (ae_ReadDir sample_app_env) (app_regos sample_app)))"
  by code_simp

definition blind_env where
  "blind_env = sample_app_env\<lparr>ae_ReadDir := None\<rparr>"

lemma blind_starts: "application_New blind_env sample_fields = Running (Some sample_app)"
proof -
  have "provider_Authenticate blind_env = provider_Authenticate sample_app_env"
    by (intro ext) (simp add: provider_Authenticate_def blind_env_def split: provider.splits)
  then have "choose_auth blind_env = choose_auth sample_app_env" "New_router blind_env = New_router sample_app_env"
    by (intro ext, simp add: choose_auth_def New_router_def blind_env_def split: option.splits)+
  moreover have "ae_SetPrefix blind_env = ae_SetPrefix sample_app_env" "ae_SetWrapper blind_env = ae_SetWrapper sample_app_env"
    "ae_order blind_env = ae_order sample_app_env" "ae_folder_stat blind_env = ae_folder_stat sample_app_env"
    "ae_fs_watcher blind_env = ae_fs_watcher sample_app_env" "ae_fs_watcher_add blind_env = ae_fs_watcher_add sample_app_env"
    by (simp_all add: blind_env_def)
  ultimately show ?thesis using sample_app_starts by (simp only: application_New_def)
qed

section \<open>Properties\<close>

text \<open>
  C23. How the process exits by itself. When the command line ends it (help, version or arguments that are
  refused), it exits with the status of the argument parser before it has started anything. Otherwise it
  exits only with status 0 or 1; with 0 only after a signal, and then both servers have been shut down, the
  watcher is closed and its goroutine has ended, and no request of the proxy is cut off unless the minute of
  the shutdown has passed. A process that panics, meets a fatal error of the runtime or is killed does not
  exit by itself; those are different ends.
\<close>

theorem graceful_exit:
  assumes "reachable env pprof_build parsed s" and "pr_pc s = PcExit n"
  shows "case ae_arg_exit env of
      Some k \<Rightarrow> n = k \<and> pr_mgmt s = NotStarted \<and> pr_proxy s = NotStarted \<and> pr_pprof s = NotStarted \<and> pr_sys s = None
    | None \<Rightarrow> n \<in> {0, 1} \<and> (n = 0 \<longrightarrow> pr_signal s \<and> pr_mgmt s = ShutDown \<and> pr_proxy s = ShutDown \<and>
        \<not> pr_watcher_open s \<and> \<not> pr_watching s \<and> (pr_active s = 0 \<or> pr_expired s))"
proof (cases "ae_arg_exit env")
  case None
  have "n \<in> {0, 1}"
    using assms by (induction arbitrary: n rule: process_run.induct) (auto simp: start_process_def dest: exit_step [OF _ None])
  moreover have "n = 0 \<longrightarrow> pr_signal s \<and> pr_mgmt s = ShutDown \<and> pr_proxy s = ShutDown \<and>
    \<not> pr_watcher_open s \<and> \<not> pr_watching s \<and> (pr_active s = 0 \<or> pr_expired s)"
    using reachable_inv [OF assms(1) None] assms(2) by (simp add: process_inv_def closing_def)
  ultimately show ?thesis using None by simp
next
  case (Some k)
  with reachable_parse_exit [OF assms(1) Some] assms(2) show ?thesis by (auto simp: start_process_def)
qed

text \<open>
  C24. No request before the initial load. Whenever the proxy is serving a request, the run has been through
  the end of the initial load of the policies; before it the server does not even exist.
\<close>

theorem no_request_before_load:
  assumes "reachable env pprof_build parsed s" and "pr_active s > 0"
  shows "\<exists>s1 p. reachable env pprof_build parsed s1 \<and> pr_sys s1 = Some p \<and> pr_active s1 = 0 \<and> pr_proxy s1 = NotStarted \<and>
    process_run env pprof_build parsed (s1\<lparr>pr_pc := PcListen,
      pr_sys := Some (p\<lparr>ps_rc := regos_Watch (ae_rego env) (ps_disk p) (ae_ReadDir env) (ps_rc p)\<rparr>),
      pr_watching := (ae_ReadDir env \<noteq> None)\<rparr>) s"
proof -
  have args: "ae_arg_exit env = None"
    using reachable_parse_exit [OF assms(1)] assms(2) by (cases "ae_arg_exit env") (auto simp: start_process_def)
  have "past_load s" using assms(2) by (simp add: past_load_def)
  then obtain s1 where s1: "reachable env pprof_build parsed s1" "pr_pc s1 = PcWatch"
    "process_run env pprof_build parsed ((Run_Watch (ae_rego env) (ae_ReadDir env) s1)\<lparr>pr_pc := PcListen\<rparr>) s"
    using reachable_loaded [OF assms(1) args] unfolding loaded_run_def by blast
  from reachable_inv [OF s1(1) args] s1(2) obtain p where p: "pr_sys s1 = Some p" "pr_active s1 = 0" "pr_proxy s1 = NotStarted"
    by (auto simp: process_inv_def before_listen_def alive_def)
  moreover have "(Run_Watch (ae_rego env) (ae_ReadDir env) s1)\<lparr>pr_pc := PcListen\<rparr> = s1\<lparr>pr_pc := PcListen,
      pr_sys := Some (p\<lparr>ps_rc := regos_Watch (ae_rego env) (ps_disk p) (ae_ReadDir env) (ps_rc p)\<rparr>),
      pr_watching := (ae_ReadDir env \<noteq> None)\<rparr>"
    using p(1) by (simp add: Run_Watch_def)
  ultimately show ?thesis using s1(1,3) by metis
qed

text \<open>
  A shutdown completes. From every reachable state in which the process has got a signal while it is
  ready, the steps of \<^verbatim>\<open>Close\<close> lead to an exit with status 0.
\<close>

theorem shutdown_completes:
  assumes "reachable env pprof_build parsed s" and "pr_pc s = PcWait" and "pr_signal s" and "pr_sys s = Some p"
    and "Ready (Some (ps_rc p))"
  shows "\<exists>s'. reachable env pprof_build parsed s' \<and> process_run env pprof_build parsed s s' \<and> pr_pc s' = PcExit 0 \<and>
    pr_mgmt s' = ShutDown \<and> pr_proxy s' = ShutDown"
proof -
  have args: "ae_arg_exit env = None"
    using reachable_parse_exit [OF assms(1)] assms(2) by (cases "ae_arg_exit env") (auto simp: start_process_def)
  obtain s' where s': "process_run env pprof_build parsed s s'" "pr_pc s' = PcExit 0"
    using close_run [OF assms(2-5)] by blast
  have "reachable env pprof_build parsed s'" using s'(1) assms(1) by (rule process_run_trans)
  with reachable_inv [OF this args] s' show ?thesis by (auto simp: process_inv_def closing_def)
qed

text \<open>
  A process that is not ready is not shut down but cut off. When the request policy is not loaded, any
  number of requests can be under way when the signal comes: \<^verbatim>\<open>main\<close> calls \<^verbatim>\<open>os.Exit\<close>, which does not run the
  deferred \<^verbatim>\<open>Close\<close>, and the process ends with them and with its servers and its watcher open.
\<close>

theorem unready_exit_cuts_requests:
  assumes "application_New env parsed = Running (Some app)" and "metrics_New (ae_collectors env) = Done reg"
    and "\<not> Ready (Some (regos_Watch (ae_rego env) (ae_disk env) (ae_ReadDir env) (app_regos app)))"
    and "ae_arg_exit env = None"
  shows "\<exists>s. reachable env pprof_build parsed s \<and> pr_pc s = PcExit 1 \<and> pr_active s = n \<and> pr_proxy s = Listening \<and>
    pr_watcher_open s"
proof -
  let ?s0 = "waiting env pprof_build (app_regos app)"
  let ?s1 = "?s0\<lparr>pr_proxy := Listening\<rparr>"
  let ?s2 = "?s1\<lparr>pr_active := pr_active ?s1 + n\<rparr>"
  let ?s3 = "?s2\<lparr>pr_signal := True\<rparr>"
  let ?s4 = "?s3\<lparr>pr_pc := PcExit 1\<rparr>"
  have alive: "alive ?s0" by (simp add: waiting_def alive_def)
  have "reachable env pprof_build parsed ?s0" using assms(1,2,4) by (rule waiting_reachable)
  moreover have "process_step env pprof_build parsed ?s0 ?s1"
    by (rule process_step.proxy_up [OF alive]) (simp add: waiting_def)
  moreover have "process_run env pprof_build parsed ?s1 ?s2" by (rule accept_steps) (use alive in simp_all)
  moreover have "process_step env pprof_build parsed ?s2 ?s3" by (rule process_step.signal) (simp_all add: waiting_def alive_def)
  moreover have "process_step env pprof_build parsed ?s3 ?s4"
    using process_step.run_signal [of ?s3 _ env pprof_build parsed] assms(3)
    by (simp add: waiting_def after_Run_def new_sys_def)
  ultimately have "reachable env pprof_build parsed ?s4" by (meson process_run.intros process_run_trans)
  then show ?thesis by (intro exI [of _ ?s4]) (simp add: waiting_def)
qed

text \<open>
  A proxy that cannot listen goes unnoticed. When the port of the proxy is taken, the error is logged in the
  goroutine of the server, the process keeps waiting for a signal, and the health endpoints answer 200.
\<close>

theorem bind_failure_unnoticed:
  assumes "application_New env parsed = Running (Some app)" and "metrics_New (ae_collectors env) = Done reg"
    and "Ready (Some (regos_Watch (ae_rego env) (ae_disk env) (ae_ReadDir env) (app_regos app)))"
    and "chi_static (me_route menv)" and "r_Method r = ''GET''" and "r_Path r = ''/readyz''" and "rw_status (raw_of w) = None"
    and "ae_arg_exit env = None"
  shows "\<exists>s p. reachable env pprof_build parsed s \<and> pr_pc s = PcWait \<and> pr_proxy s = Failed \<and> pr_mgmt s = Listening \<and>
    pr_sys s = Some p \<and> (\<exists>out w'. mgmt_serve menv (Some (ps_rc p)) log r w = Done (out, w') \<and> rw_status (raw_of w') = Some 200)"
proof -
  let ?c = "regos_Watch (ae_rego env) (ae_disk env) (ae_ReadDir env) (app_regos app)"
  let ?s0 = "waiting env pprof_build (app_regos app)"
  let ?s1 = "?s0\<lparr>pr_proxy := Failed\<rparr>"
  let ?s2 = "?s1\<lparr>pr_mgmt := Listening\<rparr>"
  have alive: "alive ?s0" by (simp add: waiting_def alive_def)
  have "reachable env pprof_build parsed ?s0" using assms(1,2,8) by (rule waiting_reachable)
  moreover have "process_step env pprof_build parsed ?s0 ?s1"
    by (rule process_step.proxy_down [OF alive]) (simp add: waiting_def)
  moreover have "process_step env pprof_build parsed ?s1 ?s2"
  proof (rule process_step.mgmt_up)
    show "alive ?s1" using alive by simp
    show "pr_mgmt ?s1 = Starting" by (simp add: waiting_def)
  qed
  ultimately have "reachable env pprof_build parsed ?s2" by (meson process_run.intros)
  moreover from mgmt_answers_ready [OF assms(4,7,5,6) assms(3)] obtain out w' where
    "mgmt_serve menv (Some ?c) log r w = Done (out, w')" "rw_status (raw_of w') = Some 200" by blast
  ultimately show ?thesis by (intro exI [of _ ?s2]) (simp add: waiting_def new_sys_def)
qed

text \<open>
  A directory that cannot be listed is never watched. \<^verbatim>\<open>Watch\<close> then returns before it starts its goroutine;
  the process serves requests, but no event of the directory is ever processed.
\<close>

theorem unlisted_directory_not_watched:
  assumes "reachable env pprof_build parsed s" and "ae_ReadDir env = None"
  shows "\<not> pr_watching s"
  using assms by (induction rule: process_run.induct) (auto simp: start_process_def dest: not_watching_step)

section \<open>Witnesses\<close>

lemma sample_args: "ae_arg_exit sample_app_env = None" "ae_arg_exit blind_env = None"
  by (simp_all add: sample_app_env_def blind_env_def)

text \<open>A process that is asked for its version.\<close>

definition version_env where
  "version_env = sample_app_env\<lparr>ae_arg_exit := Some 0\<rparr>"

lemma sample_signalled:
  "reachable sample_app_env False sample_fields ((waiting sample_app_env False (app_regos sample_app))\<lparr>pr_signal := True\<rparr>)"
  by (rule process_run.more [OF waiting_reachable [OF sample_app_starts sample_metrics sample_args(1)]], rule process_step.signal)
    (simp_all add: waiting_def alive_def)

lemma sample_signalled_ready:
  "\<exists>p. pr_sys ((waiting sample_app_env False (app_regos sample_app))\<lparr>pr_signal := True\<rparr>) = Some p \<and> Ready (Some (ps_rc p))"
  using sample_ready by (simp add: waiting_def new_sys_def)

theorem shutdown_completes_witness:
  "\<exists>s s'. process_run sample_app_env False sample_fields s s' \<and> pr_pc s = PcWait \<and> pr_pc s' = PcExit 0"
proof -
  let ?s = "(waiting sample_app_env False (app_regos sample_app))\<lparr>pr_signal := True\<rparr>"
  have pc: "pr_pc ?s = PcWait" "pr_signal ?s" by (simp_all add: waiting_def)
  obtain p where "pr_sys ?s = Some p" "Ready (Some (ps_rc p))" using sample_signalled_ready by blast
  from shutdown_completes [OF sample_signalled pc this] pc show ?thesis by blast
qed

theorem graceful_exit_witness:
  "(\<exists>s. reachable sample_app_env False sample_fields s \<and> pr_pc s = PcExit 0 \<and> pr_proxy s = ShutDown) \<and>
   (\<exists>s. reachable version_env False sample_fields s \<and> pr_pc s = PcExit 0 \<and> pr_proxy s = NotStarted)"
proof
  let ?s0 = "(waiting sample_app_env False (app_regos sample_app))\<lparr>pr_signal := True\<rparr>"
  have pc: "pr_pc ?s0 = PcWait" "pr_signal ?s0" by (simp_all add: waiting_def)
  obtain p where "pr_sys ?s0 = Some p" "Ready (Some (ps_rc p))" using sample_signalled_ready by blast
  from close_run [OF pc this] obtain s' where
    s': "process_run sample_app_env False sample_fields ?s0 s'" "pr_pc s' = PcExit 0" by blast
  have "reachable sample_app_env False sample_fields s'" using s'(1) sample_signalled by (rule process_run_trans)
  with graceful_exit [OF this s'(2)] s'(2) sample_args(1)
  show "\<exists>s. reachable sample_app_env False sample_fields s \<and> pr_pc s = PcExit 0 \<and> pr_proxy s = ShutDown" by auto
next
  let ?s = "start_process\<lparr>pr_pc := PcExit 0\<rparr>"
  have args: "ae_arg_exit version_env = Some 0" by (simp add: version_env_def)
  have "process_step version_env False sample_fields start_process ?s"
    by (rule process_step.parse_exit) (simp_all add: start_process_def args)
  then have "reachable version_env False sample_fields ?s" by (rule process_run.more [OF process_run.here])
  with graceful_exit [OF this, of 0] args
  show "\<exists>s. reachable version_env False sample_fields s \<and> pr_pc s = PcExit 0 \<and> pr_proxy s = NotStarted" by fastforce
qed

theorem unready_exit_cuts_requests_witness:
  "\<exists>s. reachable blind_env False sample_fields s \<and> pr_pc s = PcExit 1 \<and> pr_active s = 3 \<and> pr_proxy s = Listening"
proof -
  have "metrics_New (ae_collectors blind_env) = Done metrics_descs" using sample_metrics by (simp add: blind_env_def)
  moreover have "\<not> Ready (Some (regos_Watch (ae_rego blind_env) (ae_disk blind_env) (ae_ReadDir blind_env) (app_regos sample_app)))"
    by (simp add: blind_env_def regos_Watch_def Ready_def sample_app_def)
  ultimately show ?thesis using unready_exit_cuts_requests [OF blind_starts] sample_args(2) by blast
qed

theorem no_request_before_load_witness:
  "\<exists>s1 s. reachable sample_app_env False sample_fields s \<and> pr_active s = 1 \<and>
    reachable sample_app_env False sample_fields s1 \<and> pr_proxy s1 = NotStarted"
proof -
  let ?s0 = "waiting sample_app_env False (app_regos sample_app)"
  let ?s1 = "?s0\<lparr>pr_proxy := Listening\<rparr>"
  have alive: "alive ?s0" by (simp add: waiting_def alive_def)
  have "process_step sample_app_env False sample_fields ?s0 ?s1"
    by (rule process_step.proxy_up [OF alive]) (simp add: waiting_def)
  moreover have "process_run sample_app_env False sample_fields ?s1 (?s1\<lparr>pr_active := pr_active ?s1 + 1\<rparr>)"
    by (rule accept_steps) (use alive in simp_all)
  ultimately have s: "reachable sample_app_env False sample_fields (?s1\<lparr>pr_active := pr_active ?s1 + 1\<rparr>)"
    using waiting_reachable [OF sample_app_starts sample_metrics sample_args(1)] by (meson process_run.intros process_run_trans)
  have act: "pr_active (?s1\<lparr>pr_active := pr_active ?s1 + 1\<rparr>) = 1" by (simp add: waiting_def)
  then have "pr_active (?s1\<lparr>pr_active := pr_active ?s1 + 1\<rparr>) > 0" by (simp only: zero_less_one)
  from no_request_before_load [OF s this] s act show ?thesis by blast
qed

theorem bind_failure_unnoticed_witness:
  "\<exists>s. reachable sample_app_env False sample_fields s \<and> pr_pc s = PcWait \<and> pr_proxy s = Failed"
  using bind_failure_unnoticed [OF sample_app_starts sample_metrics sample_ready, of sample_mgmt_env
      "plain_request\<lparr>r_Method := ''GET'', r_Path := ''/readyz''\<rparr>" "Raw new_respw"] lookup_route_static sample_args(1)
  by (auto simp: sample_mgmt_env_def new_respw_def)

theorem unlisted_directory_not_watched_witness:
  "reachable blind_env False sample_fields (waiting blind_env False (app_regos sample_app)) \<and>
    \<not> pr_watching (waiting blind_env False (app_regos sample_app))"
proof -
  have "metrics_New (ae_collectors blind_env) = Done metrics_descs" using sample_metrics by (simp add: blind_env_def)
  then have r: "reachable blind_env False sample_fields (waiting blind_env False (app_regos sample_app))"
    by (rule waiting_reachable [OF blind_starts _ sample_args(2)])
  have "ae_ReadDir blind_env = None" by (simp add: blind_env_def)
  with unlisted_directory_not_watched [OF r] r show ?thesis by blast
qed

end
