(* ===== verification/Router_Properties.thy ===== *)
theory Router_Properties
  imports Router
begin

text \<open>
  What the middleware chain of \<^verbatim>\<open>internal/router\<close> guarantees: which requests reach the backend and with
  which headers, what a rejected client receives, what is recorded in the metrics, and where the
  behaviour depends on the order of a map or on a header of the client.
\<close>

section \<open>A sample proxy\<close>

text \<open>
  A proxy with the default configuration, a provider that accepts everybody, a validator that gives one
  result, and a backend that answers 200; a request with given headers. The witnesses evaluate on them.
\<close>

definition sample_proxy :: "goval \<Rightarrow> (unit, unit) Proxy" where
  "sample_proxy result =
     \<lparr>listenAddr = '':8181'', requestName = ''request.rego'', mux = (\<lambda>r. None),
      auth = (\<lambda>p i r. Done (p, i, None)),
      challenger = None, validator = (\<lambda>v n i. Done (v, Inr result)), backendURL = ''http://localhost:8080'',
      backend = (\<lambda>r. BackendReply [] 200 [] ''ok''), transport = backend_transport default_Fields, authKey = ''Authorization'',
      config = Some default_Fields\<rparr>"

definition sample_exchange :: "header \<Rightarrow> (unit, unit) exchange" where
  "sample_exchange h =
     \<lparr>req = \<lparr>r_Method = ''GET'', r_Path = ''/a'', r_RawQuery = [], r_ContentLength = 0, r_RemoteIP = None, r_Header = h,
        r_ctxInfo = None, r_ctxBlocked = None\<rparr>,
      wr = Raw \<lparr>rw_header = [], rw_status = None, rw_informational = [], rw_body = [], rw_head = False\<rparr>, auth_st = (), val_st = (),
      metric_log = [], forwarded = [], label_values_ok = (\<lambda>_. True)\<rparr>"

definition allow_user :: goval where
  "allow_user = VMap [(''allow'', VBool True), (''user'', VString ''bob'')]"

text \<open>The run of a request that tries to set a header of the program.\<close>

definition spoofing :: "(unit, unit) exchange" where
  "spoofing = sample_exchange [(''X-Restrego-User'', [''root'']), (''Connection'', [''close''])]"

lemma spoofing_simps:
  "forwarded spoofing = []" "val_st spoofing = ()" "auth_st spoofing = ()" "metric_log spoofing = []"
  "r_Header (req spoofing) = [(''X-Restrego-User'', [''root'']), (''Connection'', [''close''])]"
  "r_Path (req spoofing) = ''/a''" "r_Method (req spoofing) = ''GET''"
  by (simp_all add: spoofing_def sample_exchange_def)

lemma spoofing_wf: "header_wf (r_Header (req spoofing))"
  by code_simp

lemma spoofing_run:
  obtains fr where "forwarded (state_of (serve (sample_proxy allow_user) spoofing)) = [fr]"
    and "map_of (r_Header fr) ''X-Restrego-User'' = Some [''bob'']"
proof -
  have "map (\<lambda>fr. map_of (r_Header fr) ''X-Restrego-User'')
      (forwarded (state_of (serve (sample_proxy allow_user) spoofing))) = [Some [''bob'']]"
    by code_simp
  then show ?thesis using that by (auto simp: map_eq_Cons_conv)
qed

section \<open>What is forwarded\<close>

lemma serve_forwards_admit:
  "forwarded (state_of (serve proxy x)) = forwarded x @
    (case admit proxy x of
       None \<Rightarrow> []
     | Some y \<Rightarrow> if sendable (injected y) then [outgoing (injected y)] else [])"
proof (cases "admit proxy x")
  case (Some y)
  then have "forwarded y = forwarded x" by (rule admit_Some)
  with Some show ?thesis by (simp add: serve_forwarded ServeHTTP_forwarded)
qed (simp add: serve_forwarded)

section \<open>Properties\<close>

text \<open>
  Fail closed. A request is handed to the backend only if the authentication provider returned no
  error for it and the policy validator returned, for the policy input as authentication left it, a map
  in which \<^verbatim>\<open>allow\<close> is the boolean true. At most one request is handed on per exchange.
\<close>

theorem forwarded_only_when_allowed:
  assumes "forwarded x = []" and "fr \<in> set (forwarded (state_of (serve proxy x)))"
  shows "forwarded (state_of (serve proxy x)) = [fr] \<and>
    (\<exists>cfg info p info' v m. config proxy = Some cfg \<and>
      NewInfo (req (cleaned proxy x)) (authKey proxy) (URLMetricsLevel cfg) = Done info \<and>
      auth proxy (auth_st x) info (RequestWithInfo info (req (cleaned proxy x))) = Done (p, info', None) \<and>
      validator proxy (val_st x) (requestName proxy) info' = Done (v, Inr (VMap m)) \<and>
      map_of m ''allow'' = Some (VBool True))"
proof -
  obtain y where y: "admit proxy x = Some y"
    using assms by (auto simp: serve_forwarded split: option.splits)
  then have "forwarded y = []" using assms(1) by (auto elim: admit_Some)
  with assms y have "forwarded (state_of (serve proxy x)) = [fr]"
    by (auto simp: serve_forwarded ServeHTTP_forwarded split: if_splits)
  then show ?thesis
    using y by (elim admit_Some) (fastforce simp: allows_def split: goval.splits)
qed

theorem forwarded_only_when_allowed_witness:
  "\<exists>fr. forwarded (state_of (serve (sample_proxy allow_user) spoofing)) = [fr]"
proof -
  obtain fr where "forwarded (state_of (serve (sample_proxy allow_user) spoofing)) = [fr]"
    by (rule spoofing_run)
  then have "fr \<in> set (forwarded (state_of (serve (sample_proxy allow_user) spoofing)))" by simp
  from forwarded_only_when_allowed [OF spoofing_simps(1) this] show ?thesis by blast
qed

text \<open>
  C3. What is forwarded, exactly. An exchange that passes all the gates hands on one request, the
  outgoing form of the request with the headers of the policy result, unless the transport cannot send
  it; any other exchange hands on none.
\<close>

theorem serve_forwards:
  "forwarded (state_of (serve proxy x)) = forwarded x @
    (case admit proxy x of
       None \<Rightarrow> []
     | Some y \<Rightarrow> if sendable (injected y) then [outgoing (injected y)] else [])"
  by (rule serve_forwards_admit)

text \<open>
  C4. No spoofing. Every header of a forwarded request that carries the program's prefix was put there
  from an entry of the policy result, with the text of its value; what the client sent under such a name
  does not reach the backend.
\<close>

theorem proxy_headers_from_policy:
  assumes "header_wf (r_Header (req x))" and "forwarded x = []"
    and "fr \<in> set (forwarded (state_of (serve proxy x)))"
    and "map_of (r_Header fr) k = Some vs" and "has_prefix k ''X-Restrego-''"
  shows "\<exists>info v m key o1. validator proxy (val_st x) (requestName proxy) info = Done (v, Inr (VMap m)) \<and>
    (key, o1) \<in> set m \<and> k = canonical_key (result_key key) \<and> vs = [header_text o1] \<and> header_text o1 \<noteq> []"
proof -
  have pre: "has_prefix k headerPrefix" using assms(5) by (simp add: headerPrefix_def)
  obtain y where y: "admit proxy x = Some y"
    using assms(2,3) by (auto simp: serve_forwarded split: option.splits)
  from y show ?thesis
  proof (rule admit_Some)
    fix cfg info p info' v result
    assume a: "validator proxy (val_st x) (requestName proxy) info' = Done (v, Inr result)" "allows result"
      "GetInfo (req y) = Some (rewritten result info')" "r_Header (req y) = r_Header (req (cleaned proxy x))"
      "forwarded y = forwarded x"
    obtain m where m: "result = VMap m" using a(2) by (auto simp: allows_def split: goval.splits)
    have "fr = outgoing (injected y)"
      using assms(2,3) y a(5) by (auto simp: serve_forwarded ServeHTTP_forwarded split: if_splits)
    with assms(4) have "map_of (r_Header (injected y)) k = Some vs"
      by (simp add: outgoing_ours [OF pre] split: if_splits)
    moreover have "r_Header (injected y) = inject_headers m (r_Header (req (cleaned proxy x)))"
      using a(3,4) m by (simp add: injected_def)
    moreover have "map_of (r_Header (req (cleaned proxy x))) k = None"
      using pre by (simp add: map_of_cleaned [OF assms(1)])
    ultimately obtain key o1 where "(key, o1) \<in> set m" "k = canonical_key (result_key key)"
      "vs = [header_text o1]" "header_text o1 \<noteq> []"
      using inject_headers_origin [of m "r_Header (req (cleaned proxy x))" k vs] by auto
    with a(1) m show ?thesis by blast
  qed
qed

theorem proxy_headers_from_policy_witness:
  "\<exists>info v m key o1.
    validator (sample_proxy allow_user) () ''request.rego'' info = Done (v, Inr (VMap m)) \<and>
    (key, o1) \<in> set m \<and> ''X-Restrego-User'' = canonical_key (result_key key) \<and> [''bob''] = [header_text o1]"
proof -
  obtain fr where fr: "forwarded (state_of (serve (sample_proxy allow_user) spoofing)) = [fr]"
    "map_of (r_Header fr) ''X-Restrego-User'' = Some [''bob'']" by (rule spoofing_run)
  then have "fr \<in> set (forwarded (state_of (serve (sample_proxy allow_user) spoofing)))" by simp
  from proxy_headers_from_policy [OF spoofing_wf spoofing_simps(1) this fr(2)]
  obtain info v m key o1 where
    "validator (sample_proxy allow_user) () ''request.rego'' info = Done (v, Inr (VMap m))"
    "(key, o1) \<in> set m" "''X-Restrego-User'' = canonical_key (result_key key)" "[''bob''] = [header_text o1]"
    by (auto simp: sample_proxy_def spoofing_simps has_prefix_def)
  then show ?thesis by blast
qed

end
