(* ===== verification/Router_Headers.thy ===== *)
theory Router_Headers
  imports Router_Properties
begin

text \<open>
  The headers on both sides of the policy: what the policy input contains of the client's headers after
  the cleanup, and what the policy result puts into the forwarded request, with the cases in which a
  client or the order of a map decides what arrives.
\<close>

section \<open>Lemmas\<close>

lemma map_of_capture:
  "map_of (fst (capture h keys (b, log))) k =
    (if k \<in> set keys \<and> header_values h k \<noteq> [] then Some (header_value (header_values h k)) else map_of b k)"
proof (induction h keys "(b, log)" arbitrary: b log rule: capture.induct)
  case (2 h key keys b log)
  let ?vs = "header_values h key"
  have "length ?vs \<noteq> 1 \<Longrightarrow> length ?vs > 1 \<or> ?vs = []" by (cases ?vs) auto
  then show ?case
    using 2 [OF refl refl] by (cases "k = key") (auto simp: Let_def header_value_def)
qed simp

lemma header_values_wf: "header_wf h \<Longrightarrow> map_of h k = Some vs \<Longrightarrow> header_values h k = vs"
proof -
  assume h: "header_wf h" "map_of h k = Some vs"
  then have "canonical_key k = k" using map_of_SomeD by (fastforce simp: header_wf_def)
  with h show "header_values h k = vs" by (simp add: header_values_def)
qed

text \<open>The blocked headers of a policy input, as a partial function.\<close>

definition blocked_view :: "Info \<Rightarrow> string \<Rightarrow> goval option" where
  "blocked_view i k = (case ri_BlockedHeaders (Request i) of None \<Rightarrow> None | Some b \<Rightarrow> map_of b k)"

lemma NewInfo_blocked:
  "NewInfo r key lvl = Done i \<Longrightarrow>
    blocked_view i k = (case r_ctxBlocked r of None \<Rightarrow> None | Some b \<Rightarrow> map_of b k)"
  by (auto simp: NewInfo_def Let_def blocked_view_def GetBlockedHeaders_def
      split: option.splits goval.splits if_splits)

lemma cleaned_blocked:
  assumes "header_wf (r_Header (req x))" and "r_ctxBlocked (req x) = None"
  shows "(case r_ctxBlocked (req (cleaned proxy x)) of None \<Rightarrow> None | Some b \<Rightarrow> map_of b k) =
    (if exposes proxy \<and> has_prefix k headerPrefix
     then (case map_of (r_Header (req x)) k of Some (v # vs) \<Rightarrow> Some (header_value (v # vs)) | _ \<Rightarrow> None)
     else None)"
proof -
  let ?h = "r_Header (req x)"
  have clean: "k \<in> set (toClean ?h) \<longleftrightarrow> map_of ?h k \<noteq> None \<and> has_prefix k headerPrefix"
    by (auto simp: toClean_def headerPrefix_def map_of_eq_None_iff image_iff)
  have vals: "header_values ?h k = vs" if "map_of ?h k = Some vs" for vs
    using assms(1) that by (rule header_values_wf)
  show ?thesis
  proof (cases "exposes proxy \<and> length (toClean ?h) > 0")
    case True
    then have "r_ctxBlocked (req (cleaned proxy x)) = Some (fst (capture ?h (toClean ?h) ([], metric_log x)))"
      by (simp add: cleaned_def Let_def split: prod.splits)
    with True clean vals show ?thesis
      by (auto simp: map_of_capture split: option.splits list.splits)
  next
    case False
    then have "r_ctxBlocked (req (cleaned proxy x)) = None"
      using assms(2) by (simp add: cleaned_def Let_def)
    moreover have "exposes proxy \<Longrightarrow> \<not> (map_of ?h k \<noteq> None \<and> has_prefix k headerPrefix)"
      using False clean by auto
    ultimately show ?thesis by (auto split: option.splits list.splits)
  qed
qed


text \<open>The headers that a policy result sets, in the order in which its entries are met.\<close>

definition injections :: "(string, goval) gomap \<Rightarrow> header" where
  "injections m = map (\<lambda>(key, o1). (canonical_key (result_key key), [header_text o1]))
     (filter (\<lambda>(key, o1). header_text o1 \<noteq> []) m)"

lemma inject_headers_fold: "inject_headers m h = fold (\<lambda>(k, v). map_put k v) (injections m) h"
  by (induction m h rule: inject_headers.induct) (auto simp: injections_def Let_def header_set_def)

lemma map_of_inject_headers: "map_of (inject_headers m h) = map_of h ++ map_of (rev (injections m))"
  unfolding inject_headers_fold by (rule map_of_fold_put)

lemma injections_distinct:
  assumes "distinct (map (\<lambda>(key, _). canonical_key (result_key key)) m)"
  shows "map_wf (injections m)"
  using assms unfolding injections_def map_wf_def
  by (induction m) (auto simp: image_iff)

section \<open>Properties\<close>

text \<open>
  C28. The headers of the policy input. A header with the program's prefix is never among them; any
  other header is there with its value, a string when it was sent once and the list of its values
  otherwise. The headers with the prefix are in \<^verbatim>\<open>blocked_headers\<close> when the feature is enabled, and nowhere
  otherwise.
\<close>

theorem policy_input_headers:
  assumes "header_wf (r_Header (req x))" and "r_ctxBlocked (req x) = None"
    and "NewInfo (req (cleaned proxy x)) key lvl = Done info"
  shows "map_of (ri_Headers (Request info)) k =
      (if has_prefix k ''X-Restrego-'' then None else map_option header_value (map_of (r_Header (req x)) k)) \<and>
    blocked_view info k =
      (if exposes proxy \<and> has_prefix k ''X-Restrego-''
       then (case map_of (r_Header (req x)) k of Some (v # vs) \<Rightarrow> Some (header_value (v # vs)) | _ \<Rightarrow> None)
       else None)"
proof
  have "map_wf (r_Header (req (cleaned proxy x)))"
    using header_wf_remove [OF assms(1)] by (simp add: header_wf_def)
  then show "map_of (ri_Headers (Request info)) k =
      (if has_prefix k ''X-Restrego-'' then None else map_option header_value (map_of (r_Header (req x)) k))"
    using NewInfo_fields(3) [OF assms(3)] map_of_cleaned [OF assms(1), of k]
    by (simp add: info_headers_lookup headerPrefix_def)
  show "blocked_view info k =
      (if exposes proxy \<and> has_prefix k ''X-Restrego-''
       then (case map_of (r_Header (req x)) k of Some (v # vs) \<Rightarrow> Some (header_value (v # vs)) | _ \<Rightarrow> None)
       else None)"
    using NewInfo_blocked [OF assms(3), of k] cleaned_blocked [OF assms(1,2), of k proxy]
    by (simp add: headerPrefix_def)
qed

theorem policy_input_headers_witness:
  "\<exists>info. NewInfo (req (cleaned ((sample_proxy VNil)\<lparr>config := Some (default_Fields\<lparr>ExposeBlockedHeaders := True\<rparr>)\<rparr>)
       spoofing)) ''Authorization'' 0 = Done info \<and>
     map_of (ri_Headers (Request info)) ''X-Restrego-User'' = None \<and>
     blocked_view info ''X-Restrego-User'' = Some (VString ''root'')"
proof -
  let ?p = "(sample_proxy VNil)\<lparr>config := Some (default_Fields\<lparr>ExposeBlockedHeaders := True\<rparr>)\<rparr>"
  have "map_wf (r_Header (req (cleaned ?p spoofing)))" "map_of (r_Header (req (cleaned ?p spoofing))) ''Authorization'' = None"
    by code_simp+
  then obtain info where info: "NewInfo (req (cleaned ?p spoofing)) ''Authorization'' 0 = Done info"
    using NewInfo_cases [of "req (cleaned ?p spoofing)" "''Authorization''" 0] by auto
  have "r_ctxBlocked (req spoofing) = None" "exposes ?p"
    by (simp_all add: spoofing_def sample_exchange_def exposes_def)
  with policy_input_headers [OF spoofing_wf _ info, of "''X-Restrego-User''"] info show ?thesis
    by (auto simp: spoofing_simps has_prefix_def header_value_def)
qed

text \<open>
  The policy decides whether a request is forwarded, not where to: a forwarded request has the
  method, the path and the query of the client's request. The \<^verbatim>\<open>url\<close> of a policy result, which the handler describes
  as a rewrite, changes only the label of the metrics.
\<close>

theorem forwarded_target:
  assumes "forwarded x = []" and "fr \<in> set (forwarded (state_of (serve proxy x)))"
    and "has_prefix (r_Path (req x)) ''/''"
  shows "r_Method fr = r_Method (req x) \<and> r_Path fr = r_Path (req x) \<and> r_RawQuery fr = r_RawQuery (req x)"
proof -
  obtain y where y: "admit proxy x = Some y"
    using assms(1,2) by (auto simp: serve_forwarded split: option.splits)
  then have same: "r_Path (req y) = r_Path (req x)" "r_Method (req y) = r_Method (req x)" "forwarded y = forwarded x"
    "r_RawQuery (req y) = r_RawQuery (req x)"
    by (auto elim: admit_Some)
  have "fr = outgoing (injected y)"
    using assms(1,2) y same(3) by (auto simp: serve_forwarded ServeHTTP_forwarded split: if_splits)
  moreover have "r_Path (injected y) = r_Path (req y)" "r_Method (injected y) = r_Method (req y)"
    "r_RawQuery (injected y) = r_RawQuery (req y)"
    by (auto simp: injected_def split: option.splits goval.splits)
  ultimately show ?thesis using same assms(3) by (simp add: outgoing_def)
qed

theorem forwarded_target_witness:
  "\<exists>fr. forwarded (state_of (serve (sample_proxy allow_user) spoofing)) = [fr] \<and>
    r_Method fr = ''GET'' \<and> r_Path fr = ''/a''"
proof -
  obtain fr where fr: "forwarded (state_of (serve (sample_proxy allow_user) spoofing)) = [fr]"
    by (rule spoofing_run)
  then have "fr \<in> set (forwarded (state_of (serve (sample_proxy allow_user) spoofing)))" by simp
  from forwarded_target [OF spoofing_simps(1) this] fr show ?thesis
    by (auto simp: spoofing_simps has_prefix_def)
qed

text \<open>
  The order in which Go ranges over the policy result does not matter, as long as no two of its keys
  name the same header: the headers of the forwarded request are the same for every order.
\<close>

theorem inject_order_independent:
  assumes "mset m' = mset m" and "distinct (map (\<lambda>(key, _). canonical_key (result_key key)) m)"
  shows "map_of (inject_headers m' h) = map_of (inject_headers m h)"
proof -
  have "mset (injections m') = mset (injections m)"
    using assms(1) by (simp add: injections_def mset_filter)
  then have "map_of (rev (injections m')) = map_of (rev (injections m))"
    using injections_distinct [OF assms(2)] by (intro map_of_perm) (simp_all add: map_wf_def rev_map [symmetric])
  then show ?thesis by (simp add: map_of_inject_headers)
qed

theorem inject_order_independent_witness:
  "map_of (inject_headers [(''b'', VBool True), (''a'', VString ''x'')] []) =
   map_of (inject_headers [(''a'', VString ''x''), (''b'', VBool True)] [])"
proof (rule inject_order_independent)
  show "distinct (map (\<lambda>(key, _). canonical_key (result_key key)) [(''a'', VString ''x''), (''b'', VBool True)])"
    by code_simp
qed simp

text \<open>
  Two keys of a policy result that differ only in underscore and hyphen name the same header, and
  then the order of the iteration decides its value.
\<close>

theorem inject_order_matters_on_collision:
  "map_of (inject_headers [(''a_b'', VString ''1''), (''a-b'', VString ''2'')] []) ''X-Restrego-A-B'' = Some [''2''] \<and>
   map_of (inject_headers [(''a-b'', VString ''2''), (''a_b'', VString ''1'')] []) ''X-Restrego-A-B'' = Some [''1'']"
  by code_simp

text \<open>
  A client can take the policy's headers off the forwarded request: a header that its
  \<^verbatim>\<open>Connection\<close> header names is removed after the policy's headers are set.
\<close>

theorem connection_strips_policy_headers:
  assumes "has_prefix k ''X-Restrego-''" and "k \<in> canonical_key ` set (connection_fields (r_Header (injected y)))"
  shows "map_of (r_Header (outgoing (injected y))) k = None"
  using assms outgoing_ours [of k "injected y"] by (simp add: headerPrefix_def)

theorem connection_strips_policy_headers_witness:
  "map_of (r_Header (outgoing (injected
     ((sample_exchange [])\<lparr>req := \<lparr>r_Method = ''GET'', r_Path = ''/'', r_RawQuery = [], r_ContentLength = 0, r_RemoteIP = None,
        r_Header = [(''Connection'', [''X-Restrego-User'']), (''X-Restrego-User'', [''bob''])],
        r_ctxInfo = None, r_ctxBlocked = None\<rparr>\<rparr>)))) ''X-Restrego-User'' = None"
  by (rule connection_strips_policy_headers) code_simp+

text \<open>
  No header injection. Whatever texts the policy result holds, every header of a request that is
  handed to the backend has a non-empty name of token bytes and values without control characters other
  than the tab; a result with any other text is answered by the error handler.
\<close>

theorem forwarded_headers_valid:
  assumes "forwarded x = []" and "fr \<in> set (forwarded (state_of (serve proxy x)))"
    and "(k, vs) \<in> set (r_Header fr)"
  shows "k \<noteq> [] \<and> list_all valid_header_byte k \<and> list_all valid_header_value vs"
proof -
  obtain y where y: "admit proxy x = Some y"
    using assms(1,2) by (auto simp: serve_forwarded split: option.splits)
  then have "forwarded y = []" using assms(1) by (auto elim: admit_Some)
  then have "fr = outgoing (injected y)" "sendable (injected y)"
    using assms(1,2) y by (auto simp: serve_forwarded ServeHTTP_forwarded split: if_splits)
  then show ?thesis using assms(3) by (auto simp: sendable_def transport_accepts_def outgoing_def)
qed

theorem forwarded_headers_valid_witness:
  "\<exists>fr. forwarded (state_of (serve (sample_proxy allow_user) spoofing)) = [fr] \<and>
    list_all valid_header_value [''bob'']"
proof -
  obtain fr where fr: "forwarded (state_of (serve (sample_proxy allow_user) spoofing)) = [fr]"
    "map_of (r_Header fr) ''X-Restrego-User'' = Some [''bob'']" by (rule spoofing_run)
  then have "fr \<in> set (forwarded (state_of (serve (sample_proxy allow_user) spoofing)))" by simp
  from forwarded_headers_valid [OF spoofing_simps(1) this map_of_SomeD [OF fr(2)]] fr show ?thesis by blast
qed

end
