(* ===== verification/Concurrent_Requests.thy ===== *)
theory Concurrent_Requests
  imports Policy_System Router_Properties
begin

text \<open>
  Many requests at once. \<open>serve\<close> treats a request as if it had the program to itself; the server runs every
  request in a goroutine of its own, and the policy directory, the watcher, the timers and the credentials
  change between any two of its accesses to shared state. A request touches shared state in three places:
  the call of \<^verbatim>\<open>Authenticate\<close>, the read of the file cache in \<^verbatim>\<open>GetRego\<close>, and the part of \<^verbatim>\<open>GetRego\<close> under the
  mutex of the rego cache. Each is a step; all else works on data of the request alone. The steps inside a call
  of the basic provider are in \<open>Basic_Auth\<close>.
\<close>

section \<open>Requests as threads\<close>

type_synonym ('p, 'q) served_exchange = "('p, (Cache, 'q) RegoCache) exchange"
type_synonym ('p, 'q) served_proxy = "('p, (Cache, 'q) RegoCache) Proxy"
type_synonym 'p auth_result = "('p \<times> Info \<times> goerror option) outcome"
type_synonym 'q val_result = "((Cache, 'q) RegoCache \<times> (goerror + goval)) outcome"

text \<open>
  How far a request is: accepted; back from \<^verbatim>\<open>Authenticate\<close>; in \<^verbatim>\<open>GetRego\<close> with the content of the file read;
  back from \<^verbatim>\<open>Validate\<close>; answered.
\<close>

datatype ('p, 'q) thread =
    Accepted "('p, 'q) served_exchange"
  | Authenticated "('p, 'q) served_exchange" "'p auth_result"
  | Read "('p, 'q) served_exchange" "'p auth_result" "string option" bool
  | Validated "('p, 'q) served_exchange" "'p auth_result" "'q val_result"
  | Finished "('p, 'q) served_exchange" "('p, 'q) served_exchange result"

record ('p, 'q) server_sys =
  sv_policies :: "'q policy_sys"
  sv_auth :: 'p
  sv_threads :: "('p, 'q) thread list"

text \<open>The arguments of the call of \<^verbatim>\<open>Authenticate\<close>, if the request gets that far.\<close>

definition auth_call :: "('p, 'v) Proxy \<Rightarrow> ('p, 'v) exchange \<Rightarrow> (Info \<times> request) option" where
  "auth_call proxy x =
     Option.bind (wrap_pass proxy (cleaned proxy x)) (\<lambda>y. map_option (\<lambda>info. (info, req y)) (GetInfo (req y)))"

text \<open>The same handlers with the results of the two calls filled in.\<close>

definition with_auth :: "('p, 'v) Proxy \<Rightarrow> ('p \<times> Info \<times> goerror option) outcome \<Rightarrow> ('p, 'v) Proxy" where
  "with_auth proxy a = proxy\<lparr>auth := \<lambda>_ _ _. a\<rparr>"

definition with_results :: "('p, 'v) Proxy \<Rightarrow> ('p \<times> Info \<times> goerror option) outcome
    \<Rightarrow> ('v \<times> (goerror + goval)) outcome \<Rightarrow> ('p, 'v) Proxy" where
  "with_results proxy a v = (with_auth proxy a)\<lparr>validator := \<lambda>_ _ _. v\<rparr>"

text \<open>The end of \<^verbatim>\<open>Validate\<close>, after \<^verbatim>\<open>GetRego\<close>.\<close>

definition validated :: "'q rego_env \<Rightarrow> (Cache, 'q) RegoCache \<Rightarrow> goerror + 'q option \<Rightarrow> Info \<Rightarrow> 'q val_result" where
  "validated env r res input =
     (case res of
        Inl e \<Rightarrow> Done (r, Inl e)
      | Inr None \<Rightarrow> Panic ''nil pointer dereference''
      | Inr (Some query) \<Rightarrow> Done (r, eval_query env query input))"

definition set_thread :: "nat \<Rightarrow> ('p, 'q) thread \<Rightarrow> ('p, 'q) server_sys \<Rightarrow> ('p, 'q) server_sys" where
  "set_thread i t s = s\<lparr>sv_threads := (sv_threads s)[i := t]\<rparr>"

definition put_policies :: "'q policy_sys \<Rightarrow> ('p, 'q) server_sys \<Rightarrow> ('p, 'q) server_sys" where
  "put_policies p s = s\<lparr>sv_policies := p\<rparr>"

abbreviation thread_at :: "('p, 'q) server_sys \<Rightarrow> nat \<Rightarrow> ('p, 'q) thread \<Rightarrow> bool" where
  "thread_at s i t \<equiv> i < length (sv_threads s) \<and> sv_threads s ! i = t"

text \<open>
  The steps of thread \<open>i\<close>. A request that does not get to \<^verbatim>\<open>Authenticate\<close> or is rejected by it is answered
  without the calls that follow.
\<close>

inductive request_step :: "'q rego_env \<Rightarrow> ('p, 'q) served_proxy \<Rightarrow> nat \<Rightarrow> ('p, 'q) server_sys \<Rightarrow> ('p, 'q) server_sys \<Rightarrow> bool"
  for env proxy i where
  unwrapped:
    "thread_at s i (Accepted x) \<Longrightarrow> auth_call proxy x = None \<Longrightarrow>
     request_step env proxy i s (set_thread i (Finished x (serve proxy x)) s)"
| authenticate:
    "thread_at s i (Accepted x) \<Longrightarrow> auth_call proxy x = Some (info, r) \<Longrightarrow> auth proxy (sv_auth s) info r = a \<Longrightarrow>
     request_step env proxy i s (set_thread i (Authenticated x a)
       (s\<lparr>sv_auth := (case a of Done (p, _, _) \<Rightarrow> p | Panic _ \<Rightarrow> sv_auth s)\<rparr>))"
| rejected:
    "thread_at s i (Authenticated x a) \<Longrightarrow> (\<nexists>p info. a = Done (p, info, None)) \<Longrightarrow>
     request_step env proxy i s (set_thread i (Finished x (serve (with_auth proxy a) x)) s)"
| read_error:
    "thread_at s i (Authenticated x a) \<Longrightarrow> a = Done (p, info, None) \<Longrightarrow>
     filecache_Get (ps_disk (sv_policies s)) (ps_cache (sv_policies s)) (requestName proxy) = (c, Inl e) \<Longrightarrow>
     request_step env proxy i s (set_thread i (Validated x a (Done (ps_rc (with_cache c (sv_policies s)), Inl e)))
       (put_policies (with_cache c (sv_policies s)) s))"
| read:
    "thread_at s i (Authenticated x a) \<Longrightarrow> a = Done (p, info, None) \<Longrightarrow>
     filecache_Get (ps_disk (sv_policies s)) (ps_cache (sv_policies s)) (requestName proxy) = (c, Inr (dat, isdirty)) \<Longrightarrow>
     request_step env proxy i s (set_thread i (Read x a dat isdirty) (put_policies (with_cache c (sv_policies s)) s))"
| locked:
    "thread_at s i (Read x a dat isdirty) \<Longrightarrow> a = Done (p, info, None) \<Longrightarrow>
     GetRego_locked env (ps_rc (sv_policies s)) (requestName proxy) dat isdirty = (r, res) \<Longrightarrow>
     request_step env proxy i s (set_thread i (Validated x a (validated env r res info))
       (put_policies ((sv_policies s)\<lparr>ps_rc := r\<rparr>) s))"
| respond:
    "thread_at s i (Validated x a v) \<Longrightarrow>
     request_step env proxy i s (set_thread i (Finished x (serve (with_results proxy a v) x)) s)"

text \<open>
  The steps of the server: a request is accepted, a thread moves, the policy system moves, or the provider's
  state changes on its own, as \<open>reload\<close> says.
\<close>

inductive server_step :: "'q rego_env \<Rightarrow> ('p, 'q) served_proxy \<Rightarrow> ('p \<Rightarrow> 'p \<Rightarrow> bool)
    \<Rightarrow> ('p, 'q) server_sys \<Rightarrow> ('p, 'q) server_sys \<Rightarrow> bool" for env proxy reload where
  arrive:
    "forwarded x = [] \<Longrightarrow>
     server_step env proxy reload s (s\<lparr>sv_threads := sv_threads s @ [Accepted x]\<rparr>)"
| request:
    "request_step env proxy i s s' \<Longrightarrow> server_step env proxy reload s s'"
| policies:
    "policy_step env (sv_policies s) p \<Longrightarrow> server_step env proxy reload s (put_policies p s)"
| provider:
    "reload (sv_auth s) p \<Longrightarrow> server_step env proxy reload s (s\<lparr>sv_auth := p\<rparr>)"

text \<open>
  The runs of the server, with what was seen on the way: the contents that the policy files had on disk, and
  the states of the provider.
\<close>

definition on_disk :: "'q policy_sys \<Rightarrow> (string \<times> string) set" where
  "on_disk s = {(n, d). ps_disk s n = Content d}"

inductive server_run :: "'q rego_env \<Rightarrow> ('p, 'q) served_proxy \<Rightarrow> ('p \<Rightarrow> 'p \<Rightarrow> bool) \<Rightarrow> ('p, 'q) server_sys
    \<Rightarrow> (string \<times> string) set \<Rightarrow> 'p set \<Rightarrow> ('p, 'q) server_sys \<Rightarrow> bool" for env proxy reload s0 where
  start: "server_run env proxy reload s0 (on_disk (sv_policies s0)) {sv_auth s0} s0"
| step: "server_run env proxy reload s0 H P s \<Longrightarrow> server_step env proxy reload s s' \<Longrightarrow>
    server_run env proxy reload s0 (H \<union> on_disk (sv_policies s')) (insert (sv_auth s') P) s'"

section \<open>Invariants\<close>

text \<open>
  Everything that the policy system holds comes from contents in \<open>H\<close>: the cached files, the contents carried
  by calls of \<^verbatim>\<open>GetRego\<close>, and the compiled policies.
\<close>

definition cache_from :: "(string \<times> string) set \<Rightarrow> Cache \<Rightarrow> bool" where
  "cache_from H c \<longleftrightarrow> (\<forall>n f. map_of (fc_files c) n = Some f \<longrightarrow> (n, data f) \<in> H)"

definition compiled_from :: "'q rego_env \<Rightarrow> bool \<Rightarrow> (string \<times> string) set \<Rightarrow> string \<Rightarrow> 'q \<Rightarrow> bool" where
  "compiled_from env dbg H n q \<longleftrightarrow> (\<exists>d. (n, d) \<in> H \<and> compile_policy env dbg n d = Inr q)"

definition regos_from :: "'q rego_env \<Rightarrow> (string \<times> string) set \<Rightarrow> (Cache, 'q) RegoCache \<Rightarrow> bool" where
  "regos_from env H r \<longleftrightarrow> (\<forall>n q. map_of (rc_regos r) n = Some q \<longrightarrow> compiled_from env (rc_debug r) H n q)"

definition carried_from :: "(string \<times> string) set \<Rightarrow> string \<Rightarrow> string option \<Rightarrow> bool" where
  "carried_from H n dat \<longleftrightarrow> (\<forall>d. dat = Some d \<longrightarrow> (n, d) \<in> H)"

definition from_disk :: "'q rego_env \<Rightarrow> (string \<times> string) set \<Rightarrow> 'q policy_sys \<Rightarrow> bool" where
  "from_disk env H s \<longleftrightarrow> on_disk s \<subseteq> H \<and> cache_from H (ps_cache s) \<and> regos_from env H (ps_rc s) \<and>
     (\<forall>(n, dat, u) \<in> set (ps_inflight s). carried_from H n dat)"

text \<open>The result of a call of \<^verbatim>\<open>Authenticate\<close> for this request, on a state of the provider in \<open>P\<close>.\<close>

definition genuine :: "('p, 'q) served_proxy \<Rightarrow> 'p set \<Rightarrow> ('p, 'q) served_exchange \<Rightarrow> 'p auth_result \<Rightarrow> bool" where
  "genuine proxy P x a \<longleftrightarrow> (\<exists>info r. \<exists>p \<in> P. auth_call proxy x = Some (info, r) \<and> auth proxy p info r = a)"

text \<open>The value of the request policy, as some content in \<open>H\<close> had it, on the input that authentication left.\<close>

definition decided :: "'q rego_env \<Rightarrow> bool \<Rightarrow> (string \<times> string) set \<Rightarrow> ('p, 'q) served_proxy \<Rightarrow> 'p auth_result \<Rightarrow> goval \<Rightarrow> bool" where
  "decided env dbg H proxy a result \<longleftrightarrow>
     (\<exists>p info q. a = Done (p, info, None) \<and> compiled_from env dbg H (requestName proxy) q \<and> eval_query env q info = Inr result)"

fun thread_ok :: "'q rego_env \<Rightarrow> bool \<Rightarrow> ('p, 'q) served_proxy \<Rightarrow> (string \<times> string) set \<Rightarrow> 'p set \<Rightarrow> ('p, 'q) thread \<Rightarrow> bool" where
  "thread_ok env dbg proxy H P (Accepted x) \<longleftrightarrow> forwarded x = []"
| "thread_ok env dbg proxy H P (Authenticated x a) \<longleftrightarrow> forwarded x = [] \<and> genuine proxy P x a"
| "thread_ok env dbg proxy H P (Read x a dat u) \<longleftrightarrow> forwarded x = [] \<and> genuine proxy P x a \<and>
     (\<exists>p info. a = Done (p, info, None)) \<and> carried_from H (requestName proxy) dat"
| "thread_ok env dbg proxy H P (Validated x a v) \<longleftrightarrow> forwarded x = [] \<and> genuine proxy P x a \<and>
     (\<forall>r result. v = Done (r, Inr result) \<longrightarrow> decided env dbg H proxy a result)"
| "thread_ok env dbg proxy H P (Finished x r) \<longleftrightarrow>
     (forwarded (state_of r) \<noteq> [] \<longrightarrow>
        (\<exists>a result. genuine proxy P x a \<and> decided env dbg H proxy a result \<and> allows result))"

definition server_ok :: "'q rego_env \<Rightarrow> bool \<Rightarrow> ('p, 'q) served_proxy \<Rightarrow> (string \<times> string) set \<Rightarrow> 'p set
    \<Rightarrow> ('p, 'q) server_sys \<Rightarrow> bool" where
  "server_ok env dbg proxy H P s \<longleftrightarrow> from_disk env H (sv_policies s) \<and> sv_auth s \<in> P \<and>
     rc_debug (ps_rc (sv_policies s)) = dbg \<and> list_all (thread_ok env dbg proxy H P) (sv_threads s)"

section \<open>Lemmas on the policy system\<close>

lemma compiled_from_mono: "compiled_from env dbg H n q \<Longrightarrow> H \<subseteq> H' \<Longrightarrow> compiled_from env dbg H' n q"
  unfolding compiled_from_def by blast

lemma carried_from_mono: "carried_from H n dat \<Longrightarrow> H \<subseteq> H' \<Longrightarrow> carried_from H' n dat"
  unfolding carried_from_def by blast

lemma from_disk_mono: "from_disk env H s \<Longrightarrow> H \<subseteq> H' \<Longrightarrow> from_disk env H' s"
  using compiled_from_mono [of env _ H _ _ H'] carried_from_mono [of H _ _ H']
  by (auto simp: from_disk_def cache_from_def regos_from_def)

lemma cache_from_Get:
  assumes "cache_from H c" and "\<And>m d. disk m = Content d \<Longrightarrow> (m, d) \<in> H" and "filecache_Get disk c n = (c', res)"
  shows "cache_from H c'" and "res = Inr (dat, u) \<Longrightarrow> carried_from H n dat"
  using assms
  by (auto simp: cache_from_def carried_from_def filecache_Get_def cache_read_def readFile_def
      split: option.splits if_splits fs_read.splits)

lemma cache_from_invalidate: "cache_from H c \<Longrightarrow> invalidate c now n op = (c', g) \<Longrightarrow> cache_from H c'"
  by (auto simp: cache_from_def invalidate_def Let_def split: option.splits if_splits)

lemma cache_from_watch:
  assumes "cache_from H c" and "watch_event c Lstat now ops p = (c', g)"
  shows "cache_from H c'"
  using assms(2)
proof (cases rule: watch_event_cases)
  case (3 c1 g1 g2)
  then show ?thesis using assms(1) cache_from_invalidate by metis
qed (use assms(1) cache_from_invalidate in auto)

lemma regos_from_locked:
  assumes "regos_from env H r" and "carried_from H n dat" and "GetRego_locked env r n dat u = (r', res)"
  shows "regos_from env H r'" and "rc_debug r' = rc_debug r"
    and "res = Inr (Some q) \<Longrightarrow> compiled_from env (rc_debug r) H n q"
  using assms
  by (auto simp: regos_from_def carried_from_def compiled_from_def GetRego_locked_def GetRego_compile_def
      split: option.splits sum.splits if_splits)

lemma regos_from_cache [simp]: "regos_from env H (r\<lparr>rc_cache := c\<rparr>) = regos_from env H r"
  by (simp add: regos_from_def)

lemma with_cache_rc [simp]: "ps_rc (with_cache c s) = (ps_rc s)\<lparr>rc_cache := c\<rparr>"
  by (simp add: with_cache_def)

lemma on_disk_simps [simp]:
  "on_disk (with_cache c s) = on_disk s" "on_disk (s\<lparr>ps_rc := r\<rparr>) = on_disk s" "on_disk (s\<lparr>ps_inflight := l\<rparr>) = on_disk s"
  by (simp_all add: on_disk_def)

lemma from_disk_read:
  assumes "from_disk env H s" and "filecache_Get (ps_disk s) (ps_cache s) n = (c, res)"
  shows "from_disk env H (with_cache c s)" and "res = Inr (dat, u) \<Longrightarrow> carried_from H n dat"
proof -
  have disk: "ps_disk s m = Content d \<Longrightarrow> (m, d) \<in> H" for m d using assms(1) by (auto simp: from_disk_def on_disk_def)
  have "cache_from H (ps_cache s)" using assms(1) by (simp add: from_disk_def)
  note get = cache_from_Get [OF this disk assms(2)]
  show "from_disk env H (with_cache c s)" using get(1) assms(1) by (simp add: from_disk_def)
  show "res = Inr (dat, u) \<Longrightarrow> carried_from H n dat" by (rule get(2))
qed

lemma from_disk_step:
  assumes "policy_step env s s'" and "from_disk env H s"
  shows "from_disk env (H \<union> on_disk s') s'" and "rc_debug (ps_rc s') = rc_debug (ps_rc s)"
proof -
  have H: "from_disk env (H \<union> on_disk s') s" using assms(2) by (rule from_disk_mono) simp
  show "from_disk env (H \<union> on_disk s') s'"
    using assms(1)
  proof cases
    case (watch ops p evs c g)
    with H cache_from_watch [OF _ watch(3)] show ?thesis by (auto simp: from_disk_def)
  next
    case (read_new n c res)
    with from_disk_read(1) [OF H read_new(3)] show ?thesis by (simp add: from_disk_def)
  next
    case (callback n c res)
    with from_disk_read [OF H callback(3)] show ?thesis
      by (auto simp: from_disk_def carried_def split: sum.splits)
  next
    case (ask n c res)
    with from_disk_read [OF H ask(2)] show ?thesis
      by (auto simp: from_disk_def carried_def split: sum.splits)
  next
    case (commit n dat u)
    have "carried_from (H \<union> on_disk s') n dat" using H commit(2) by (auto simp: from_disk_def)
    moreover have "regos_from env (H \<union> on_disk s') (ps_rc s)" using H by (simp add: from_disk_def)
    ultimately have "regos_from env (H \<union> on_disk s') (fst (GetRego_locked env (ps_rc s) n dat u))"
      using regos_from_locked(1) by (metis prod.collapse)
    moreover have "set (remove1 (n, dat, u) (ps_inflight s)) \<subseteq> set (ps_inflight s)" by (rule set_remove1_subset)
    ultimately show ?thesis using H unfolding commit(1) by (auto simp: from_disk_def)
  qed (use H in \<open>auto simp: from_disk_def cache_from_def on_disk_def\<close>)
  show "rc_debug (ps_rc s') = rc_debug (ps_rc s)"
    using assms(1)
    by cases (auto simp: GetRego_locked_def GetRego_compile_def split: option.splits sum.splits)
qed

section \<open>Lemmas on the requests\<close>

lemma with_results_simps [simp]:
  "config (with_auth proxy a) = config proxy" "config (with_results proxy a v) = config proxy"
  "requestName (with_auth proxy a) = requestName proxy" "requestName (with_results proxy a v) = requestName proxy"
  "authKey (with_auth proxy a) = authKey proxy" "authKey (with_results proxy a v) = authKey proxy"
  "auth (with_auth proxy a) = (\<lambda>_ _ _. a)" "auth (with_results proxy a v) = (\<lambda>_ _ _. a)"
  "validator (with_auth proxy a) = validator proxy" "validator (with_results proxy a v) = (\<lambda>_ _ _. v)"
  by (simp_all add: with_auth_def with_results_def)

lemma cleaned_results [simp]:
  "cleaned (with_auth proxy a) x = cleaned proxy x" "cleaned (with_results proxy a v) x = cleaned proxy x"
  by (simp_all add: cleaned_def exposes_def)

text \<open>What a request forwards, it forwards through the gates.\<close>

lemma forwarded_admitted:
  assumes "forwarded (state_of (serve proxy x)) \<noteq> []" and "forwarded x = []"
  obtains info r p info' v result where "auth_call proxy x = Some (info, r)"
    and "auth proxy (auth_st x) info r = Done (p, info', None)"
    and "validator proxy (val_st x) (requestName proxy) info' = Done (v, Inr result)" and "allows result"
proof -
  obtain y where "admit proxy x = Some y"
    using assms by (auto simp: serve_forwards_admit split: option.splits)
  then obtain cfg info p info' v result where run: "config proxy = Some cfg"
    "NewInfo (req (cleaned proxy x)) (authKey proxy) (URLMetricsLevel cfg) = Done info"
    "auth proxy (auth_st x) info (RequestWithInfo info (req (cleaned proxy x))) = Done (p, info', None)"
    "validator proxy (val_st x) (requestName proxy) info' = Done (v, Inr result)" "allows result"
    by (rule admit_Some)
  then have "auth_call proxy x = Some (info, RequestWithInfo info (req (cleaned proxy x)))"
    by (simp add: auth_call_def wrap_pass_def)
  with run that show ?thesis by blast
qed

lemma genuine_mono: "genuine proxy P x a \<Longrightarrow> P \<subseteq> P' \<Longrightarrow> genuine proxy P' x a"
  unfolding genuine_def by blast

lemma decided_mono: "decided env dbg H proxy a result \<Longrightarrow> H \<subseteq> H' \<Longrightarrow> decided env dbg H' proxy a result"
  unfolding decided_def using compiled_from_mono by metis

lemma thread_ok_mono:
  assumes "thread_ok env dbg proxy H P t" and "H \<subseteq> H'" and "P \<subseteq> P'"
  shows "thread_ok env dbg proxy H' P' t"
proof (cases t)
  case (Finished x r)
  with assms show ?thesis by (simp add: genuine_mono decided_mono) (meson genuine_mono decided_mono)
qed (use assms in \<open>auto intro: genuine_mono decided_mono carried_from_mono\<close>)

lemma server_ok_mono:
  assumes "server_ok env dbg proxy H P s" and "H \<subseteq> H'" and "P \<subseteq> P'"
  shows "server_ok env dbg proxy H' P' s"
proof -
  have "list_all (thread_ok env dbg proxy H' P') (sv_threads s)"
    using assms(1) thread_ok_mono [OF _ assms(2,3)] unfolding server_ok_def by (blast intro: list.pred_mono_strong)
  then show ?thesis using assms from_disk_mono [OF _ assms(2)] by (auto simp: server_ok_def)
qed

lemma server_ok_thread:
  assumes "server_ok env dbg proxy H P s" and "thread_ok env dbg proxy H P t"
  shows "server_ok env dbg proxy H P (set_thread i t s)"
  using assms set_update_subset_insert [of "sv_threads s" i t] by (auto simp: server_ok_def set_thread_def list_all_iff)

lemma server_ok_at: "server_ok env dbg proxy H P s \<Longrightarrow> thread_at s i t \<Longrightarrow> thread_ok env dbg proxy H P t"
  by (auto simp: server_ok_def list_all_iff)

lemma server_ok_policies:
  "server_ok env dbg proxy H P s \<Longrightarrow> from_disk env H p \<Longrightarrow> rc_debug (ps_rc p) = rc_debug (ps_rc (sv_policies s)) \<Longrightarrow>
    server_ok env dbg proxy H P (put_policies p s)"
  by (simp add: server_ok_def put_policies_def)

lemma server_ok_from_disk: "server_ok env dbg proxy H P s \<Longrightarrow> from_disk env H (sv_policies s)"
  by (simp add: server_ok_def)

lemma server_ok_request:
  assumes "request_step env proxy i s s'" and "server_ok env dbg proxy H P s"
  shows "server_ok env dbg proxy H (insert (sv_auth s') P) s'"
proof -
  define P' where "P' = insert (sv_auth s') P"
  have ok: "server_ok env dbg proxy H P' s"
    using assms(2) unfolding P'_def by (rule server_ok_mono) auto
  note disk = server_ok_from_disk [OF ok] and at = server_ok_at [OF ok] and upd = server_ok_thread [OF ok]
  have "server_ok env dbg proxy H P' s'"
    using assms(1)
  proof cases
    case (unwrapped x)
    have "forwarded x = []" using at [OF unwrapped(2)] by simp
    then have "forwarded (state_of (serve proxy x)) = []"
      using unwrapped(3) forwarded_admitted [of proxy x] by force
    then show ?thesis unfolding unwrapped(1) by (intro upd) simp
  next
    case (authenticate x info r a)
    have "sv_auth s \<in> P'" using ok by (simp add: server_ok_def)
    then have "thread_ok env dbg proxy H P' (Authenticated x a)"
      using at [OF authenticate(2)] authenticate(3,4) by (auto simp: genuine_def)
    moreover have "server_ok env dbg proxy H P' (s\<lparr>sv_auth := sv_auth s'\<rparr>)"
      using ok by (simp add: server_ok_def P'_def)
    moreover have "s' = set_thread i (Authenticated x a) (s\<lparr>sv_auth := sv_auth s'\<rparr>)"
      by (simp add: authenticate(1) set_thread_def)
    ultimately show ?thesis by (metis server_ok_thread)
  next
    case (rejected x a)
    have "forwarded x = []" using at [OF rejected(2)] by simp
    then have "forwarded (state_of (serve (with_auth proxy a) x)) = []"
      using rejected(3) forwarded_admitted [of "with_auth proxy a" x] by force
    then show ?thesis unfolding rejected(1) by (intro upd) simp
  next
    case (read_error x a p info c e)
    have "server_ok env dbg proxy H P' (put_policies (with_cache c (sv_policies s)) s)"
      using ok from_disk_read(1) [OF disk read_error(4)] by (rule server_ok_policies) simp
    then show ?thesis
      unfolding read_error(1) by (rule server_ok_thread) (use at [OF read_error(2)] in simp)
  next
    case (read x a p info c dat u)
    have "server_ok env dbg proxy H P' (put_policies (with_cache c (sv_policies s)) s)"
      using ok from_disk_read(1) [OF disk read(4)] by (rule server_ok_policies) simp
    then show ?thesis
      unfolding read(1)
      by (rule server_ok_thread) (use at [OF read(2)] read(3) from_disk_read(2) [OF disk read(4)] in simp)
  next
    case (locked x a dat u p info r res)
    have regos: "regos_from env H (ps_rc (sv_policies s))" using disk by (simp add: from_disk_def)
    have carried: "carried_from H (requestName proxy) dat" using at [OF locked(2)] by simp
    note get = regos_from_locked [OF regos carried locked(4)]
    have "rc_cache r = ps_cache (sv_policies s)" using locked(4) GetRego_locked_cache by (metis fst_conv)
    then have "from_disk env H ((sv_policies s)\<lparr>ps_rc := r\<rparr>)" using disk get(1) by (simp add: from_disk_def)
    moreover have "decided env dbg H proxy a result" if "validated env r res info = Done (r', Inr result)" for r' result
      using that get(3) ok locked(3)
      by (auto simp: validated_def decided_def server_ok_def split: sum.splits option.splits)
    moreover have "server_ok env dbg proxy H P' (put_policies ((sv_policies s)\<lparr>ps_rc := r\<rparr>) s)"
      using ok calculation(1) by (rule server_ok_policies) (simp add: get(2))
    ultimately show ?thesis
      unfolding locked(1) using at [OF locked(2)] by (auto intro: server_ok_thread)
  next
    case (respond x a v)
    let ?r = "serve (with_results proxy a v) x"
    have thread: "thread_ok env dbg proxy H P' (Validated x a v)" using respond(2) by (rule at)
    have "\<exists>result. decided env dbg H proxy a result \<and> allows result" if fwd: "forwarded (state_of ?r) \<noteq> []"
    proof -
      have "forwarded x = []" using thread by simp
      with fwd obtain va result where "v = Done (va, Inr result)" "allows result"
        by (rule forwarded_admitted) simp
      with thread show ?thesis by auto
    qed
    then show ?thesis using thread unfolding respond(1) by (intro upd) auto
  qed
  then show ?thesis by (simp add: P'_def)
qed

lemma server_ok_step:
  assumes "server_step env proxy reload s s'" and "server_ok env dbg proxy H P s"
  shows "server_ok env dbg proxy (H \<union> on_disk (sv_policies s')) (insert (sv_auth s') P) s'"
proof -
  have ok: "server_ok env dbg proxy (H \<union> on_disk (sv_policies s')) (insert (sv_auth s') P) s"
    using assms(2) by (rule server_ok_mono) auto
  show ?thesis
    using assms(1)
  proof cases
    case (arrive x)
    with ok show ?thesis by (simp add: server_ok_def)
  next
    case (request i)
    show ?thesis by (rule server_ok_mono [OF server_ok_request [OF request assms(2)]]) auto
  next
    case (policies p)
    note step = from_disk_step [OF policies(2) server_ok_from_disk [OF assms(2)]]
    have "server_ok env dbg proxy (H \<union> on_disk p) (insert (sv_auth s') P) s" using ok by (simp add: policies(1) put_policies_def)
    then have "server_ok env dbg proxy (H \<union> on_disk p) (insert (sv_auth s') P) (put_policies p s)"
      using step by (rule server_ok_policies)
    then show ?thesis by (simp add: policies(1) put_policies_def)
  next
    case (provider p)
    with ok show ?thesis by (simp add: server_ok_def)
  qed
qed

lemma server_run_ok:
  assumes "server_run env proxy reload s0 H P s" and "sv_threads s0 = []"
    and "from_disk env (on_disk (sv_policies s0)) (sv_policies s0)"
  shows "server_ok env (rc_debug (ps_rc (sv_policies s0))) proxy H P s"
  using assms(1)
proof induction
  case start
  then show ?case using assms(2,3) by (simp add: server_ok_def)
qed (rule server_ok_step)

text \<open>What is known of a request that was handed on.\<close>

lemma finished_allowed:
  assumes "server_ok env dbg proxy H P s" and "thread_at s i (Finished x r)" and "fr \<in> set (forwarded (state_of r))"
  shows "\<exists>info rq p p' info' d q m. auth_call proxy x = Some (info, rq) \<and> p \<in> P \<and>
    auth proxy p info rq = Done (p', info', None) \<and> (requestName proxy, d) \<in> H \<and>
    compile_policy env dbg (requestName proxy) d = Inr q \<and>
    eval_query env q info' = Inr (VMap m) \<and> map_of m ''allow'' = Some (VBool True)"
proof -
  have "thread_ok env dbg proxy H P (Finished x r)" using assms(1,2) by (rule server_ok_at)
  then obtain a result where run: "genuine proxy P x a" "decided env dbg H proxy a result" "allows result"
    using assms(3) by fastforce
  then obtain m where "result = VMap m" "map_of m ''allow'' = Some (VBool True)"
    by (auto simp: allows_def split: goval.splits)
  with run(1,2) show ?thesis unfolding genuine_def decided_def compiled_from_def by metis
qed

end
