(* ===== verification/Concurrent_Properties.thy ===== *)
theory Concurrent_Properties
  imports Concurrent_Requests
begin

text \<open>
  What holds when many requests run at once: a request that runs alone behaves as \<open>serve\<close> says, together the
  requests are users of the policy system, so that what holds in all its runs holds while requests are
  served, and none is forwarded unless it was authenticated and allowed by a policy that was on disk.
\<close>

section \<open>Lemmas on one request alone\<close>

lemma metrics_Wrap_cong: "next x = next' x \<Longrightarrow> metrics_Wrap next x = metrics_Wrap next' x"
  by (simp add: metrics_Wrap_def split: writer.split)

lemma serve_wrapped:
  assumes "auth_call proxy x = Some (info, r)"
  obtains y where "req y = r" and "GetInfo r = Some info" and "auth_st y = auth_st x" and "val_st y = val_st x"
    and "\<And>proxy'. config proxy' = config proxy \<Longrightarrow> authKey proxy' = authKey proxy \<Longrightarrow> serve proxy' x =
      metrics_Wrap (authHandler proxy' (policyHandler proxy' (muxHandler proxy' (ServeHTTP proxy')))) y"
proof -
  obtain y where y: "wrap_pass proxy (cleaned proxy x) = Some y" "GetInfo (req y) = Some info" "req y = r"
    using assms by (auto simp: auth_call_def bind_eq_Some_conv)
  have "serve proxy' x = metrics_Wrap (authHandler proxy' (policyHandler proxy' (muxHandler proxy' (ServeHTTP proxy')))) y"
    if "config proxy' = config proxy" "authKey proxy' = authKey proxy" for proxy'
  proof -
    have "cleaned proxy' x = cleaned proxy x" using that by (simp add: cleaned_def exposes_def)
    then show ?thesis
      using that y(1)
      by (auto simp: serve_def CleanupHandler_def WrapHandler_def wrap_pass_def split: option.splits outcome.splits)
  qed
  moreover have "auth_st y = auth_st x" "val_st y = val_st x"
    using y(1) by (auto simp: wrap_pass_def split: option.splits outcome.splits)
  ultimately show ?thesis using that y by blast
qed

lemma inner_results [simp]:
  "muxHandler (with_auth proxy a) = muxHandler proxy" "muxHandler (with_results proxy a v) = muxHandler proxy"
  "ServeHTTP (with_auth proxy a) = ServeHTTP proxy" "ServeHTTP (with_results proxy a v) = ServeHTTP proxy"
  by (simp_all add: fun_eq_iff muxHandler_def ServeHTTP_def with_auth_def with_results_def)

lemma challenger_results [simp]:
  "challenger (with_auth proxy a) = challenger proxy" "challenger (with_results proxy a v) = challenger proxy"
  by (simp_all add: with_auth_def with_results_def)

lemma serve_with_auth:
  assumes "auth_call proxy x = Some (info, r)" and "auth proxy (auth_st x) info r = a"
    and "\<nexists>p info'. a = Done (p, info', None)"
  shows "serve (with_auth proxy a) x = serve proxy x"
  using assms(1)
proof (rule serve_wrapped)
  fix y
  assume y: "req y = r" "GetInfo r = Some info" "auth_st y = auth_st x"
    and serve: "\<And>proxy'. config proxy' = config proxy \<Longrightarrow> authKey proxy' = authKey proxy \<Longrightarrow> serve proxy' x =
      metrics_Wrap (authHandler proxy' (policyHandler proxy' (muxHandler proxy' (ServeHTTP proxy')))) y"
  have auth: "authHandler (with_auth proxy a) next y = authHandler proxy next' y" for "next" next'
    using y assms(2,3) by (auto simp: authHandler_def Let_def split: outcome.splits option.splits)
  show ?thesis
    unfolding serve [of "with_auth proxy a", simplified] serve [of proxy, simplified]
    by (rule metrics_Wrap_cong) (rule auth)
qed

lemma serve_with_results:
  assumes "auth_call proxy x = Some (info, r)" and "auth proxy (auth_st x) info r = Done (p, info', None)"
    and "validator proxy (val_st x) (requestName proxy) info' = v"
  shows "serve (with_results proxy (Done (p, info', None)) v) x = serve proxy x"
  using assms(1)
proof (rule serve_wrapped)
  fix y
  assume y: "req y = r" "GetInfo r = Some info" "auth_st y = auth_st x" "val_st y = val_st x"
    and serve: "\<And>proxy'. config proxy' = config proxy \<Longrightarrow> authKey proxy' = authKey proxy \<Longrightarrow> serve proxy' x =
      metrics_Wrap (authHandler proxy' (policyHandler proxy' (muxHandler proxy' (ServeHTTP proxy')))) y"
  let ?a = "Done (p, info', None)"
  have policy: "policyHandler (with_results proxy ?a v) next z = policyHandler proxy next z"
    if "GetInfo (req z) = Some info'" "val_st z = val_st x" for z "next"
    using that assms(3) by (simp add: policyHandler_def)
  have auth: "authHandler (with_results proxy ?a v) (policyHandler (with_results proxy ?a v) next) y =
      authHandler proxy (policyHandler proxy next) y" for "next"
    using y assms(2) by (simp add: authHandler_def Let_def policy)
  show ?thesis
    unfolding serve [of "with_results proxy ?a v", simplified] serve [of proxy, simplified]
    by (rule metrics_Wrap_cong) (rule auth)
qed

lemma set_thread_simps [simp]:
  "i < length (sv_threads s) \<Longrightarrow> thread_at (set_thread i t s) i t"
  "sv_policies (set_thread i t s) = sv_policies s" "sv_auth (set_thread i t s) = sv_auth s"
  "length (sv_threads (set_thread i t s)) = length (sv_threads s)"
  by (simp_all add: set_thread_def)

lemma put_policies_simps [simp]:
  "sv_policies (put_policies p s) = p" "sv_threads (put_policies p s) = sv_threads s" "sv_auth (put_policies p s) = sv_auth s"
  by (simp_all add: put_policies_def)

text \<open>The steps that a thread takes on its own, to the end.\<close>

abbreviation finishes :: "'q rego_env \<Rightarrow> ('p, 'q) served_proxy \<Rightarrow> nat \<Rightarrow> ('p, 'q) server_sys \<Rightarrow> ('p, 'q) served_exchange
    \<Rightarrow> ('p, 'q) served_exchange result \<Rightarrow> nat \<Rightarrow> bool" where
  "finishes env proxy i s x r k \<equiv> \<exists>s'. (request_step env proxy i ^^ k) s s' \<and> thread_at s' i (Finished x r)"

lemma finishes_step: "request_step env proxy i s s1 \<Longrightarrow> finishes env proxy i s1 x r k \<Longrightarrow> finishes env proxy i s x r (Suc k)"
  by (meson relpowp_Suc_I2)

lemma finishes_Finished: "thread_at s i (Finished x r) \<Longrightarrow> finishes env proxy i s x r 0"
  by simp

lemma finishes_Validated:
  assumes "thread_at s i (Validated x a v)"
  shows "finishes env proxy i s x (serve (with_results proxy a v) x) (Suc 0)"
proof -
  have "request_step env proxy i s (set_thread i (Finished x (serve (with_results proxy a v) x)) s)"
    using assms by (rule request_step.respond)
  then show ?thesis by (rule finishes_step) (rule finishes_Finished, use assms in simp)
qed

lemma finishes_Read:
  assumes "thread_at s i (Read x a dat u)" and "a = Done (p, info, None)"
    and "GetRego_locked env (ps_rc (sv_policies s)) (requestName proxy) dat u = (r, res)"
  shows "finishes env proxy i s x (serve (with_results proxy a (validated env r res info)) x) (Suc (Suc 0))"
proof -
  let ?s = "set_thread i (Validated x a (validated env r res info)) (put_policies ((sv_policies s)\<lparr>ps_rc := r\<rparr>) s)"
  have "request_step env proxy i s ?s" using assms by (rule request_step.locked)
  then show ?thesis by (rule finishes_step) (rule finishes_Validated, use assms(1) in simp)
qed

text \<open>From \<open>Authenticated\<close> on, with the policy system as it is: what \<^verbatim>\<open>Validate\<close> returns, if it is called.\<close>

lemma finishes_Authenticated:
  assumes "thread_at s i (Authenticated x a)" and "a = Done (p, info, None)"
  shows "\<exists>k \<le> 3. finishes env proxy i s x (serve (with_results proxy a
    (Validate env (filecache_Get (ps_disk (sv_policies s))) (ps_rc (sv_policies s)) (requestName proxy) info)) x) k"
proof -
  let ?get = "filecache_Get (ps_disk (sv_policies s))"
  obtain c res where get: "?get (ps_cache (sv_policies s)) (requestName proxy) = (c, res)" by fastforce
  show ?thesis
  proof (cases res)
    case (Inl e)
    let ?v = "Done (ps_rc (with_cache c (sv_policies s)), Inl e)"
    let ?s = "set_thread i (Validated x a ?v) (put_policies (with_cache c (sv_policies s)) s)"
    have "request_step env proxy i s ?s" using assms get Inl by (intro request_step.read_error) simp_all
    then have "finishes env proxy i s x (serve (with_results proxy a ?v) x) (Suc (Suc 0))"
      by (rule finishes_step) (rule finishes_Validated, use assms(1) in simp)
    moreover have "Validate env ?get (ps_rc (sv_policies s)) (requestName proxy) info = ?v"
      using get Inl by (simp add: Validate_def GetRego_def with_cache_def)
    ultimately show ?thesis by (intro exI [of _ "Suc (Suc 0)"] conjI) simp_all
  next
    case (Inr y)
    obtain dat u where y: "y = (dat, u)" by fastforce
    obtain r res' where locked: "GetRego_locked env ((ps_rc (sv_policies s))\<lparr>rc_cache := c\<rparr>) (requestName proxy) dat u = (r, res')"
      by fastforce
    let ?s = "set_thread i (Read x a dat u) (put_policies (with_cache c (sv_policies s)) s)"
    have step: "request_step env proxy i s ?s" using assms get Inr y by (intro request_step.read) simp_all
    have "thread_at ?s i (Read x a dat u)" using assms(1) by simp
    then have "finishes env proxy i ?s x (serve (with_results proxy a (validated env r res' info)) x) (Suc (Suc 0))"
      using assms(2) by (rule finishes_Read) (use locked in simp)
    moreover have "Validate env ?get (ps_rc (sv_policies s)) (requestName proxy) info = validated env r res' info"
      using get Inr y locked by (simp add: Validate_def GetRego_def validated_def split: sum.splits option.splits)
    ultimately have "finishes env proxy i s x (serve (with_results proxy a
        (Validate env ?get (ps_rc (sv_policies s)) (requestName proxy) info)) x) (Suc (Suc (Suc 0)))"
      using finishes_step [OF step] by (simp only:)
    then show ?thesis by (intro exI [of _ "Suc (Suc (Suc 0))"] conjI) simp_all
  qed
qed

lemma finishes_rejected:
  assumes "thread_at s i (Authenticated x a)" and "\<nexists>p info. a = Done (p, info, None)"
  shows "finishes env proxy i s x (serve (with_auth proxy a) x) (Suc 0)"
proof -
  have "request_step env proxy i s (set_thread i (Finished x (serve (with_auth proxy a) x)) s)"
    using assms by (rule request_step.rejected)
  then show ?thesis by (rule finishes_step) (rule finishes_Finished, use assms(1) in simp)
qed

lemma finishes_unwrapped:
  assumes "thread_at s i (Accepted x)" and "auth_call proxy x = None"
  shows "finishes env proxy i s x (serve proxy x) (Suc 0)"
  by (rule finishes_step [OF request_step.unwrapped [OF assms]]) (rule finishes_Finished, use assms(1) in simp)

text \<open>The state after the call of \<^verbatim>\<open>Authenticate\<close>.\<close>

definition after_auth :: "nat \<Rightarrow> ('p, 'q) served_exchange \<Rightarrow> 'p auth_result \<Rightarrow> ('p, 'q) server_sys \<Rightarrow> ('p, 'q) server_sys" where
  "after_auth i x a s = set_thread i (Authenticated x a)
     (s\<lparr>sv_auth := (case a of Done (p, _, _) \<Rightarrow> p | Panic _ \<Rightarrow> sv_auth s)\<rparr>)"

lemma after_auth_step:
  assumes "thread_at s i (Accepted x)" and "auth_call proxy x = Some (info, r)" and "auth proxy (sv_auth s) info r = a"
  shows "request_step env proxy i s (after_auth i x a s)" and "thread_at (after_auth i x a s) i (Authenticated x a)"
    and "sv_policies (after_auth i x a s) = sv_policies s"
  using request_step.authenticate [OF assms, of env] assms(1) by (simp_all add: after_auth_def)

lemma finishes_serve:
  assumes "thread_at s i (Accepted x)" and "auth_st x = sv_auth s" and "val_st x = ps_rc (sv_policies s)"
    and "validator proxy = Validate env (filecache_Get (ps_disk (sv_policies s)))"
  shows "\<exists>k \<le> 4. finishes env proxy i s x (serve proxy x) k"
proof (cases "auth_call proxy x")
  case None
  from finishes_unwrapped [OF assms(1) this] show ?thesis by (intro exI [of _ "Suc 0"] conjI) simp_all
next
  case (Some y)
  then obtain info r where call: "auth_call proxy x = Some (info, r)" by (cases y) simp
  define a where "a = auth proxy (sv_auth s) info r"
  note step = after_auth_step [OF assms(1) call a_def [symmetric]]
  have "\<exists>k \<le> 3. finishes env proxy i (after_auth i x a s) x (serve proxy x) k"
  proof (cases "\<exists>p info'. a = Done (p, info', None)")
    case True
    then obtain p info' where ok: "a = Done (p, info', None)" by blast
    have "serve (with_results proxy a (validator proxy (val_st x) (requestName proxy) info')) x = serve proxy x"
      using call ok a_def assms(2) by (simp add: serve_with_results)
    then show ?thesis using finishes_Authenticated [OF step(2) ok, of env proxy] assms(3,4) step(3) by simp
  next
    case False
    then have "serve (with_auth proxy a) x = serve proxy x"
      using call a_def assms(2) by (intro serve_with_auth) simp_all
    then show ?thesis
      using finishes_rejected [OF step(2) False, of env proxy] by (intro exI [of _ "Suc 0"] conjI) simp_all
  qed
  then obtain k where "k \<le> 3" "finishes env proxy i (after_auth i x a s) x (serve proxy x) k" by blast
  then show ?thesis using finishes_step [OF step(1)] by (intro exI [of _ "Suc k"] conjI) simp_all
qed

section \<open>Lemmas on the simulation\<close>

text \<open>The calls of \<^verbatim>\<open>GetRego\<close> by requests that have read the file and wait for the mutex.\<close>

definition reading :: "('p, 'q) served_proxy \<Rightarrow> ('p, 'q) thread \<Rightarrow> (string \<times> string option \<times> bool) list" where
  "reading proxy t = (case t of Read x a dat u \<Rightarrow> [(requestName proxy, dat, u)] | _ \<Rightarrow> [])"

definition waiting_calls :: "('p, 'q) served_proxy \<Rightarrow> ('p, 'q) server_sys \<Rightarrow> (string \<times> string option \<times> bool) multiset" where
  "waiting_calls proxy s = \<Sum>\<^sub># (mset (map (mset \<circ> reading proxy) (sv_threads s)))"

lemma waiting_calls_set:
  assumes "thread_at s i t"
  shows "waiting_calls proxy (set_thread i t' s) + mset (reading proxy t) = waiting_calls proxy s + mset (reading proxy t')"
proof -
  let ?m = "\<lambda>ts. \<Sum>\<^sub># (mset (map (mset \<circ> reading proxy) ts))"
  have "sv_threads s = take i (sv_threads s) @ t # drop (Suc i) (sv_threads s)"
    using assms id_take_nth_drop by metis
  from arg_cong [OF this, of ?m] have "?m (sv_threads s) = ?m (take i (sv_threads s)) + mset (reading proxy t) + ?m (drop (Suc i) (sv_threads s))"
    by (simp del: append_take_drop_id add: add.assoc)
  moreover have "?m ((sv_threads s)[i := t']) =
      ?m (take i (sv_threads s)) + mset (reading proxy t') + ?m (drop (Suc i) (sv_threads s))"
    using assms by (simp add: upd_conv_take_nth_drop)
  ultimately show ?thesis by (simp add: waiting_calls_def set_thread_def)
qed

lemma inflight_commute:
  "s\<lparr>ps_inflight := L, ps_disk := disk\<rparr> = s\<lparr>ps_disk := disk, ps_inflight := L\<rparr>"
  "s\<lparr>ps_inflight := L, ps_link := lk\<rparr> = s\<lparr>ps_link := lk, ps_inflight := L\<rparr>"
  "s\<lparr>ps_inflight := L, ps_events := evs\<rparr> = s\<lparr>ps_events := evs, ps_inflight := L\<rparr>"
  "s\<lparr>ps_inflight := L, ps_rc := r\<rparr> = s\<lparr>ps_rc := r, ps_inflight := L\<rparr>"
  "s\<lparr>ps_inflight := L, ps_spawned := sp\<rparr> = s\<lparr>ps_spawned := sp, ps_inflight := L\<rparr>"
  "s\<lparr>ps_inflight := L, ps_fired := fi\<rparr> = s\<lparr>ps_fired := fi, ps_inflight := L\<rparr>"
  "s\<lparr>ps_inflight := L, ps_callbacks := cb\<rparr> = s\<lparr>ps_callbacks := cb, ps_inflight := L\<rparr>"
  "s\<lparr>ps_inflight := L, ps_now := t\<rparr> = s\<lparr>ps_now := t, ps_inflight := L\<rparr>"
  by simp_all

text \<open>A step of the policy system is also one when more calls are under way.\<close>

lemma policy_step_frame:
  assumes "policy_step env s s'" and "mset L = mset (ps_inflight s) + M"
  shows "\<exists>L'. policy_step env (s\<lparr>ps_inflight := L\<rparr>) (s'\<lparr>ps_inflight := L'\<rparr>) \<and> mset L' = mset (ps_inflight s') + M"
proof -
  let ?s = "s\<lparr>ps_inflight := L\<rparr>"
  have [simp]: "event_path ?s n = event_path s n" for n by (simp add: event_path_def)
  have [simp]: "sys_lstat ?s = sys_lstat s" by (simp add: sys_lstat_def fun_eq_iff)
  show ?thesis
    using assms(1)
  proof cases
    case (disk_change ops n k v)
    then show ?thesis
      using policy_step.disk_change [of ops env ?s n k v] assms(2) by (intro exI [of _ L]) (simp add: inflight_commute)
  next
    case (link_change n v)
    then show ?thesis
      using policy_step.link_change [of ?s n env v] assms(2) by (intro exI [of _ L]) (simp add: inflight_commute)
  next
    case (watch ops p evs c g)
    then show ?thesis
      using policy_step.watch [of ?s ops p evs c g env] assms(2) by (intro exI [of _ L]) (simp add: with_cache_def inflight_commute)
  next
    case (read_new n c res)
    then show ?thesis
      using policy_step.read_new [of n ?s c res env] assms(2) by (intro exI [of _ L]) (simp add: with_cache_def inflight_commute)
  next
    case (expire tm)
    then show ?thesis
      using policy_step.expire [of ?s tm env] assms(2) by (intro exI [of _ L]) (simp add: with_cache_def inflight_commute)
  next
    case (timer n)
    then show ?thesis
      using policy_step.timer [of n ?s env] assms(2) by (intro exI [of _ L]) (simp add: with_cache_def inflight_commute)
  next
    case (callback n c res)
    then show ?thesis
      using policy_step.callback [of n ?s c res env] assms(2)
      by (intro exI [of _ "L @ carried n res"]) (simp add: with_cache_def inflight_commute)
  next
    case (ask n c res)
    then show ?thesis
      using policy_step.ask [of ?s n c res env] assms(2)
      by (intro exI [of _ "L @ carried n res"]) (simp add: with_cache_def inflight_commute)
  next
    case (commit n dat u)
    have "(n, dat, u) \<in> set L" using commit(2) assms(2) by (metis set_mset_mset set_mset_union UnI1)
    then show ?thesis
      using commit policy_step.commit [of n dat u ?s env] assms(2)
      by (intro exI [of _ "remove1 (n, dat, u) L"]) (simp add: inflight_commute)
  next
    case (tick t)
    then show ?thesis
      using policy_step.tick [of env ?s t] assms(2) by (intro exI [of _ L]) (simp add: inflight_commute)
  qed
qed

definition seen_as :: "('p, 'q) served_proxy \<Rightarrow> ('p, 'q) server_sys \<Rightarrow> 'q policy_sys \<Rightarrow> bool" where
  "seen_as proxy s p \<longleftrightarrow> p = (sv_policies s)\<lparr>ps_inflight := ps_inflight p\<rparr> \<and>
     mset (ps_inflight p) = mset (ps_inflight (sv_policies s)) + waiting_calls proxy s"

lemma seen_as_intro:
  "mset L = mset (ps_inflight (sv_policies s)) + waiting_calls proxy s \<Longrightarrow>
    seen_as proxy s ((sv_policies s)\<lparr>ps_inflight := L\<rparr>)"
  by (simp add: seen_as_def)

lemma waiting_calls_put [simp]: "waiting_calls proxy (put_policies p s) = waiting_calls proxy s"
  by (simp add: waiting_calls_def)

lemma waiting_calls_set_put:
  assumes "thread_at s i t"
  shows "waiting_calls proxy (set_thread i t' (put_policies p s)) + mset (reading proxy t) =
    waiting_calls proxy s + mset (reading proxy t')"
  using waiting_calls_set [of i "put_policies p s" t proxy t'] assms by simp

text \<open>A step of a request is a step of the policy system, or none: the read is \<open>ask\<close>, the part under the mutex \<open>commit\<close>.\<close>

lemma request_step_simulated:
  assumes "request_step env proxy i s s'" and "seen_as proxy s p"
  shows "\<exists>p'. (p' = p \<or> policy_step env p p') \<and> seen_as proxy s' p'"
proof -
  obtain L where p: "p = (sv_policies s)\<lparr>ps_inflight := L\<rparr>"
    and L: "mset L = mset (ps_inflight (sv_policies s)) + waiting_calls proxy s"
    using assms(2) unfolding seen_as_def by metis
  show ?thesis
    using assms(1)
  proof cases
    case (unwrapped x)
    have "waiting_calls proxy s' = waiting_calls proxy s"
      using waiting_calls_set [OF unwrapped(2)] by (simp add: unwrapped(1) reading_def)
    with L show ?thesis by (intro exI [of _ p]) (simp add: unwrapped(1) p seen_as_def)
  next
    case (authenticate x info r a)
    have "waiting_calls proxy s' = waiting_calls proxy (set_thread i (Authenticated x a) s)"
      by (simp add: waiting_calls_def authenticate(1) set_thread_def)
    then have "waiting_calls proxy s' = waiting_calls proxy s"
      using waiting_calls_set [OF authenticate(2)] by (simp add: reading_def)
    with L show ?thesis by (intro exI [of _ p]) (simp add: authenticate(1) p seen_as_def)
  next
    case (rejected x a)
    have "waiting_calls proxy s' = waiting_calls proxy s"
      using waiting_calls_set [OF rejected(2)] by (simp add: rejected(1) reading_def)
    with L show ?thesis by (intro exI [of _ p]) (simp add: rejected(1) p seen_as_def)
  next
    case (respond x a v)
    have "waiting_calls proxy s' = waiting_calls proxy s"
      using waiting_calls_set [OF respond(2)] by (simp add: respond(1) reading_def)
    with L show ?thesis by (intro exI [of _ p]) (simp add: respond(1) p seen_as_def)
  next
    case (read_error x a q info c e)
    have "waiting_calls proxy s' = waiting_calls proxy s"
      using waiting_calls_set_put [OF read_error(2)] by (simp add: read_error(1) reading_def)
    moreover have "policy_step env p ((with_cache c (sv_policies s))\<lparr>ps_inflight := L\<rparr>)"
      using policy_step.ask [of p "requestName proxy" c "Inl e" env] read_error(4)
      by (simp add: p carried_def with_cache_def inflight_commute)
    ultimately show ?thesis using L by (intro exI conjI disjI2) (auto simp: read_error(1) seen_as_def)
  next
    case (read x a q info c dat u)
    have "waiting_calls proxy s' = waiting_calls proxy s + {#(requestName proxy, dat, u)#}"
      using waiting_calls_set_put [OF read(2)] by (simp add: read(1) reading_def)
    moreover have "policy_step env p ((with_cache c (sv_policies s))\<lparr>ps_inflight := L @ [(requestName proxy, dat, u)]\<rparr>)"
      using policy_step.ask [of p "requestName proxy" c "Inr (dat, u)" env] read(4)
      by (simp add: p carried_def with_cache_def inflight_commute)
    ultimately show ?thesis using L by (intro exI conjI disjI2) (auto simp: read(1) seen_as_def)
  next
    case (locked x a dat u q info r res)
    have calls: "waiting_calls proxy s' + {#(requestName proxy, dat, u)#} = waiting_calls proxy s"
      using waiting_calls_set_put [OF locked(2)] by (simp add: locked(1) reading_def)
    then have "(requestName proxy, dat, u) \<in># mset L" using L by (metis union_iff union_single_eq_member)
    then have "policy_step env p ((sv_policies s)\<lparr>ps_rc := r, ps_inflight := remove1 (requestName proxy, dat, u) L\<rparr>)"
      using policy_step.commit [of "requestName proxy" dat u p env] locked(4) by (simp add: p inflight_commute)
    moreover have "mset (remove1 (requestName proxy, dat, u) L) =
        mset (ps_inflight (sv_policies s)) + waiting_calls proxy s'"
      using L calls [symmetric] by simp
    ultimately show ?thesis by (intro exI conjI disjI2) (auto simp: locked(1) seen_as_def)
  qed
qed

lemma server_step_simulated:
  assumes "server_step env proxy reload s s'" and "seen_as proxy s p"
  shows "\<exists>p'. (p' = p \<or> policy_step env p p') \<and> seen_as proxy s' p'"
  using assms(1)
proof cases
  case (arrive x)
  with assms(2) show ?thesis by (intro exI [of _ p]) (simp add: seen_as_def waiting_calls_def reading_def)
next
  case (request i)
  then show ?thesis using assms(2) by (rule request_step_simulated)
next
  case (policies q)
  have p: "p = (sv_policies s)\<lparr>ps_inflight := ps_inflight p\<rparr>"
    "mset (ps_inflight p) = mset (ps_inflight (sv_policies s)) + waiting_calls proxy s"
    using assms(2) by (simp_all add: seen_as_def)
  obtain L' where "policy_step env p (q\<lparr>ps_inflight := L'\<rparr>)" "mset L' = mset (ps_inflight q) + waiting_calls proxy s"
    using policy_step_frame [OF policies(2) p(2)] p(1) by metis
  then show ?thesis by (intro exI [of _ "q\<lparr>ps_inflight := L'\<rparr>"]) (simp add: policies(1) seen_as_def)
next
  case (provider q)
  with assms(2) show ?thesis by (intro exI [of _ p]) (simp add: seen_as_def waiting_calls_def)
qed

lemma server_run_requests:
  assumes "(request_step env proxy i ^^ k) s s'" and "server_run env proxy reload s0 H P s"
  shows "\<exists>H' P'. server_run env proxy reload s0 H' P' s'"
  using assms(1)
proof (induction k arbitrary: s')
  case 0
  with assms(2) show ?case by auto
next
  case (Suc k)
  from Suc.prems obtain t where t: "(request_step env proxy i ^^ k) s t" "request_step env proxy i t s'"
    by (rule relpowp_Suc_E)
  then show ?case using Suc.IH server_run.step [OF _ server_step.request [OF t(2)]] by blast
qed

text \<open>
  Concurrent requests are users of the policy system. In every run of the server, the directory, the
  caches, timers and callbacks, together with the calls of \<^verbatim>\<open>GetRego\<close> that requests have under way, form a run
  of the policy system. What holds in all runs of that system holds while requests are served.
\<close>

lemma requests_refine_policy_system:
  assumes "server_run env proxy reload s0 H P s" and "sv_threads s0 = []"
  shows "\<exists>p. policy_run env (\<lambda>_. True) (sv_policies s0) p \<and> p = (sv_policies s)\<lparr>ps_inflight := ps_inflight p\<rparr> \<and>
    mset (ps_inflight p) = mset (ps_inflight (sv_policies s)) + waiting_calls proxy s"
  using assms(1)
proof induction
  case start
  show ?case using assms(2) by (intro exI [of _ "sv_policies s0"]) (simp add: policy_run.start waiting_calls_def)
next
  case (step H P s s')
  then obtain p where p: "policy_run env (\<lambda>_. True) (sv_policies s0) p" "seen_as proxy s p"
    by (auto simp: seen_as_def)
  obtain p' where "p' = p \<or> policy_step env p p'" "seen_as proxy s' p'"
    using server_step_simulated [OF step(2) p(2)] by blast
  then have "policy_run env (\<lambda>_. True) (sv_policies s0) p'" using p(1) policy_run.step by blast
  with \<open>seen_as proxy s' p'\<close> show ?case by (auto simp: seen_as_def)
qed

section \<open>Sample data\<close>

text \<open>A proxy in front of a policy directory that allows every request, and one request.\<close>

definition open_policies :: "string policy_sys" where
  "open_policies = sample_start
     \<lparr>ps_disk := (\<lambda>n. if n = ''r.rego'' then Content ''package open'' else NotExist),
      ps_rc := (sample_regos ((sample_cache [])\<lparr>fc_files := []\<rparr>) [])\<lparr>rc_regos := []\<rparr>\<rparr>"

definition open_proxy :: "(unit, string) served_proxy" where
  "open_proxy =
     \<lparr>listenAddr = '':8181'', requestName = ''r.rego'', mux = (\<lambda>r. None), auth = (\<lambda>p i r. Done (p, i, None)),
      challenger = None, validator = Validate sample_rego_env (filecache_Get (ps_disk open_policies)),
      backendURL = ''http://localhost:8080'', backend = (\<lambda>r. BackendReply [] 200 [] ''ok''),
      transport = backend_transport default_Fields, authKey = ''Authorization'', config = Some default_Fields\<rparr>"

definition open_request :: "(unit, string) served_exchange" where
  "open_request = \<lparr>req = req (sample_exchange []), wr = wr (sample_exchange []), auth_st = (), val_st = ps_rc open_policies,
     metric_log = [], forwarded = [], label_values_ok = (\<lambda>_. True)\<rparr>"

definition idle_server :: "(unit, string) server_sys" where
  "idle_server = \<lparr>sv_policies = open_policies, sv_auth = (), sv_threads = []\<rparr>"

lemma idle_server_simps:
  "sv_threads idle_server = []" "sv_policies idle_server = open_policies"
  "from_disk sample_rego_env (on_disk open_policies) open_policies"
  by (simp_all add: idle_server_def open_policies_def sample_start_def sample_regos_def from_disk_def cache_from_def
      regos_from_def)

lemma request_arrives:
  assumes "sv_threads s0 = []" and "forwarded x = []"
  obtains H P where "server_run env proxy reload s0 H P (s0\<lparr>sv_threads := [Accepted x]\<rparr>)"
proof -
  have "server_step env proxy reload s0 (s0\<lparr>sv_threads := [Accepted x]\<rparr>)"
    using server_step.arrive [OF assms(2), of env proxy reload s0] assms(1) by simp
  from server_run.step [OF server_run.start this] show ?thesis by (rule that)
qed

lemma single_request_run:
  assumes "sv_threads s0 = []" and "forwarded x = []" and "auth_st x = sv_auth s0" and "val_st x = ps_rc (sv_policies s0)"
    and "validator proxy = Validate env (filecache_Get (ps_disk (sv_policies s0)))"
  obtains H P s where "server_run env proxy reload s0 H P s" and "thread_at s 0 (Finished x (serve proxy x))"
proof -
  obtain H P where run: "server_run env proxy reload s0 H P (s0\<lparr>sv_threads := [Accepted x]\<rparr>)"
    using assms(1,2) by (rule request_arrives)
  have "thread_at (s0\<lparr>sv_threads := [Accepted x]\<rparr>) 0 (Accepted x)" by simp
  from finishes_serve [OF this, of proxy env] assms(3-5)
  obtain k s where s: "(request_step env proxy 0 ^^ k) (s0\<lparr>sv_threads := [Accepted x]\<rparr>) s"
    "thread_at s 0 (Finished x (serve proxy x))" by auto
  then show ?thesis using run server_run_requests [OF s(1)] that by metis
qed

lemma open_request_forwards: "length (forwarded (state_of (serve open_proxy open_request))) = 1"
  by code_simp

lemma served_run:
  obtains H P s where "server_run sample_rego_env open_proxy (\<lambda>_ _. False) idle_server H P s"
    and "thread_at s 0 (Finished open_request (serve open_proxy open_request))"
proof (rule single_request_run)
  show "sv_threads idle_server = []" "forwarded open_request = []" "auth_st open_request = sv_auth idle_server"
    "val_st open_request = ps_rc (sv_policies idle_server)"
    "validator open_proxy = Validate sample_rego_env (filecache_Get (ps_disk (sv_policies idle_server)))"
    by (simp_all add: idle_server_def open_request_def open_proxy_def)
qed (rule that)

section \<open>Properties\<close>

text \<open>
  The chain fails closed under concurrency. However many requests run at once, and however their accesses
  to shared state interleave with changes of the policy directory, the watcher, timers, callbacks and reloads
  of the credentials: a request that was handed to the backend was authenticated without an error on some
  state that the provider had during the run, and it was allowed by a policy that is the compilation of some
  content that the policy file had on disk during the run, evaluated on the input that its own authentication
  left.
\<close>

theorem concurrent_forwards_only_allowed:
  assumes "server_run env proxy reload s0 H P s" and "sv_threads s0 = []"
    and "from_disk env (on_disk (sv_policies s0)) (sv_policies s0)"
    and "thread_at s i (Finished x r)" and "fr \<in> set (forwarded (state_of r))"
  shows "\<exists>info rq p p' info' d q m. auth_call proxy x = Some (info, rq) \<and> p \<in> P \<and>
    auth proxy p info rq = Done (p', info', None) \<and>
    (requestName proxy, d) \<in> H \<and>
    compile_policy env (rc_debug (ps_rc (sv_policies s0))) (requestName proxy) d = Inr q \<and>
    eval_query env q info' = Inr (VMap m) \<and> map_of m ''allow'' = Some (VBool True)"
  using finished_allowed [OF server_run_ok [OF assms(1-3)] assms(4,5)] .

theorem concurrent_forwards_only_allowed_witness:
  "\<exists>p info d q m. auth open_proxy () info p = Done ((), info, None) \<and>
    compile_policy sample_rego_env False ''r.rego'' d = Inr q \<and>
    eval_query sample_rego_env q info = Inr (VMap m) \<and> map_of m ''allow'' = Some (VBool True)"
proof -
  obtain H P s where run: "server_run sample_rego_env open_proxy (\<lambda>_ _. False) idle_server H P s"
    "thread_at s 0 (Finished open_request (serve open_proxy open_request))" by (rule served_run)
  obtain fr where "fr \<in> set (forwarded (state_of (serve open_proxy open_request)))"
    using open_request_forwards by (cases "forwarded (state_of (serve open_proxy open_request))") auto
  from concurrent_forwards_only_allowed [OF run(1) idle_server_simps(1) _ run(2) this] idle_server_simps(2,3)
  show ?thesis by (auto simp: open_proxy_def open_policies_def sample_regos_def)
qed

end
