(* ===== verification/Router_Answers.thy ===== *)
theory Router_Answers
  imports Router_Properties
begin

text \<open>
  What the client of a rejected request receives and what the metrics record: the answers of the
  authentication and policy handlers, the answer of the whole chain, the entries of the metrics log and
  the status that the response tracker reports.
\<close>

section \<open>Lemmas\<close>

lemma put_info_fresh [simp]: "fresh (put_info i x) = fresh x"
  by (simp add: fresh_def)

lemma fresh_upd [simp]:
  "fresh (x\<lparr>auth_st := p\<rparr>) = fresh x" "fresh (x\<lparr>val_st := v\<rparr>) = fresh x" "fresh (x\<lparr>req := r\<rparr>) = fresh x"
  "fresh (x\<lparr>wr := newResponseTracker w\<rparr>) = fresh (x\<lparr>wr := w\<rparr>)"
  "fresh (x\<lparr>wr := map_header f w\<rparr>) = fresh (x\<lparr>wr := w\<rparr>)"
  by (simp_all add: fresh_def newResponseTracker_def)

text \<open>An error answer, with the response header that the client receives.\<close>

lemma rw_write_header_header: "rw_write_header w code = Done w' \<Longrightarrow> rw_header w' = rw_header w"
  by (auto simp: rw_write_header_def split: if_splits)

lemma http_error_header:
  assumes "http_error w msg code = Done w'" and "k \<notin> {''Content-Length'', ''Content-Type'', ''X-Content-Type-Options''}"
  shows "map_of (rw_header (raw_of w')) k = map_of (rw_header (raw_of w)) k"
proof -
  define w1 where "w1 = map_header (\<lambda>h. header_set (header_set (header_del h ''Content-Length'')
                 ''Content-Type'' ''text/plain; charset=utf-8'') ''X-Content-Type-Options'' ''nosniff'') w"
  obtain w2 where w2: "WriteHeader w1 code = Done w2" and w': "w' = fst (Write w2 (msg @ [CHR 0x0A]))"
    using assms(1) by (cases "WriteHeader w1 code") (auto simp: http_error_def w1_def Let_def)
  have "rw_header (raw_of w2) = rw_header (raw_of w1)"
    using WriteHeader_raw [OF w2] by (rule rw_write_header_header)
  moreover have "rw_header (raw_of w') = rw_header (raw_of w2)"
    by (simp add: w' Write_raw rw_write_def Let_def)
  moreover have "canonical_key ''Content-Length'' = ''Content-Length''"
    "canonical_key ''Content-Type'' = ''Content-Type''"
    "canonical_key ''X-Content-Type-Options'' = ''X-Content-Type-Options''" by code_simp+
  ultimately show ?thesis
    using assms(2) by (simp add: w1_def header_set_def header_del_def)
qed

lemma answer_error_Served:
  assumes "answer_error msg code x = Served y"
  shows "http_error (wr x) msg code = Done (wr y)" and "y = x\<lparr>wr := wr y\<rparr>"
  using assms by (auto simp: answer_error_def split: outcome.splits)

text \<open>The answer of the policy handler: a status and a message, or none when the request goes on.\<close>

definition policy_answer :: "goerror + goval \<Rightarrow> (int \<times> string) option" where
  "policy_answer res =
     (case res of
        Inl _ \<Rightarrow> Some (500, ''policy evaluation error'')
      | Inr (VMap m) \<Rightarrow>
          (case map_of m ''allow'' of
             Some (VBool True) \<Rightarrow> None
           | Some (VBool False) \<Rightarrow> Some (403, ''access denied'')
           | _ \<Rightarrow> Some (500, ''invalid policy result''))
      | Inr _ \<Rightarrow> Some (500, ''invalid policy result''))"

definition auth_answer :: "goerror \<Rightarrow> int \<times> string" where
  "auth_answer e =
     (if errors_is e ErrAuthenticationFailed then (401, ''invalid credentials'')
      else if errors_is e ErrAuthenticationUnavailable then (503, ''authentication service unavailable'')
      else (500, ''internal error''))"

definition challenge_of :: "('p, 'v) Proxy \<Rightarrow> string" where
  "challenge_of proxy = (case challenger proxy of Some c \<Rightarrow> c | None \<Rightarrow> ''Bearer'')"

lemma answer_error_answers:
  assumes "fresh x" and "code \<in> {401, 403, 500, 502, 503}"
  obtains y where "answer_error msg code x = Served y" and "answered code msg y"
    and "forwarded y = forwarded x" and "req y = req x"
    and "map_of (rw_header (raw_of (wr y))) ''Www-Authenticate'' =
      map_of (rw_header (raw_of (wr x))) ''Www-Authenticate''"
proof -
  have "200 \<le> code" "code \<le> 999" "body_allowed code" using assms(2) by (auto simp: body_allowed_def)
  from answer_error_fresh [OF assms(1) this] obtain y where
    y: "answer_error msg code x = Served y" "answered code msg y" by blast
  have "forwarded y = forwarded x" "req y = req x"
    using answer_error_keeps(1,2) [of msg code x] y(1) by simp_all
  with y show ?thesis
    using that http_error_header [OF answer_error_Served(1) [OF y(1)], of "''Www-Authenticate''"] by simp
qed

lemma authHandler_rejects:
  assumes "fresh x" and "GetInfo (req x) = Some info"
    and "auth proxy (auth_st x) info (req x) = Done (p, info', Some e)"
  shows "\<exists>y. authHandler proxy next x = Served y \<and> forwarded y = forwarded x \<and>
    req y = req (put_info info' x) \<and>
    answered (fst (auth_answer e)) (snd (auth_answer e)) y \<and>
    map_of (rw_header (raw_of (wr y))) ''Www-Authenticate'' =
      (if errors_is e ErrAuthenticationFailed then Some [challenge_of proxy]
       else map_of (rw_header (raw_of (wr x))) ''Www-Authenticate'')"
proof -
  let ?x1 = "put_info info' (x\<lparr>auth_st := p\<rparr>)"
  let ?x2 = "?x1\<lparr>wr := map_header (\<lambda>h. header_set h ''WWW-Authenticate'' (challenge_of proxy)) (wr ?x1)\<rparr>"
  have fr: "fresh ?x1" "fresh ?x2" using assms(1) by (simp_all add: fresh_def)
  have key: "canonical_key ''WWW-Authenticate'' = ''Www-Authenticate''" by code_simp
  show ?thesis
  proof (cases "errors_is e ErrAuthenticationFailed")
    case True
    obtain y where "answer_error ''invalid credentials'' 401 ?x2 = Served y"
      "answered 401 ''invalid credentials'' y" "forwarded y = forwarded ?x2" "req y = req ?x2"
      "map_of (rw_header (raw_of (wr y))) ''Www-Authenticate'' =
        map_of (rw_header (raw_of (wr ?x2))) ''Www-Authenticate''"
      by (rule answer_error_answers [OF fr(2), of 401]) auto
    with True assms(2,3) key show ?thesis
      by (simp add: authHandler_def auth_answer_def challenge_of_def Let_def header_set_def put_info_def)
  next
    case False
    obtain y where "answer_error (snd (auth_answer e)) (fst (auth_answer e)) ?x1 = Served y"
      "answered (fst (auth_answer e)) (snd (auth_answer e)) y" "forwarded y = forwarded ?x1" "req y = req ?x1"
      "map_of (rw_header (raw_of (wr y))) ''Www-Authenticate'' =
        map_of (rw_header (raw_of (wr ?x1))) ''Www-Authenticate''"
      by (rule answer_error_answers [OF fr(1), of "fst (auth_answer e)"]) (auto simp: auth_answer_def)
    with False assms(2,3) show ?thesis
      by (auto simp: authHandler_def auth_answer_def Let_def put_info_def)
  qed
qed

lemma policyHandler_decides:
  assumes "fresh x" and "GetInfo (req x) = Some info"
    and "validator proxy (val_st x) (requestName proxy) info = Done (v, res)"
  shows "case policy_answer res of
      None \<Rightarrow> \<exists>m. res = Inr (VMap m) \<and>
        policyHandler proxy next x = next (put_info (rewritten (VMap m) info) (x\<lparr>val_st := v\<rparr>))
    | Some (code, msg) \<Rightarrow> \<exists>y. policyHandler proxy next x = Served y \<and> answered code msg y \<and>
        forwarded y = forwarded x \<and> (\<exists>i. GetInfo (req y) = Some i \<and> URL i = URL info)"
proof (cases "policy_answer res")
  case None
  then obtain m where m: "res = Inr (VMap m)" "map_of m ''allow'' = Some (VBool True)"
    by (auto simp: policy_answer_def split: sum.splits goval.splits option.splits bool.splits)
  then have "allows (VMap m)" by (simp add: allows_def)
  from policyHandler_result [OF assms(2) assms(3)[unfolded m(1)] this] m None show ?thesis by simp
next
  case (Some cm)
  then obtain code msg where cm: "policy_answer res = Some (code, msg)" by (cases cm) auto
  have fr: "fresh (x\<lparr>val_st := v\<rparr>)" "fresh (put_info i (x\<lparr>val_st := v\<rparr>))" for i
    using assms(1) by simp_all
  have code: "code \<in> {401, 403, 500, 502, 503}"
    using cm by (auto simp: policy_answer_def split: sum.splits goval.splits option.splits bool.splits)
  obtain y where y: "answer_error msg code (x\<lparr>val_st := v\<rparr>) = Served y" "answered code msg y"
    "forwarded y = forwarded (x\<lparr>val_st := v\<rparr>)"
    "req y = req (x\<lparr>val_st := v\<rparr>)" by (rule answer_error_answers [OF fr(1) code])
  obtain z where z: "answer_error msg code (put_info (info\<lparr>Result := projr res\<rparr>) (x\<lparr>val_st := v\<rparr>)) = Served z"
    "answered code msg z" "forwarded z = forwarded (put_info (info\<lparr>Result := projr res\<rparr>) (x\<lparr>val_st := v\<rparr>))"
    "req z = req (put_info (info\<lparr>Result := projr res\<rparr>) (x\<lparr>val_st := v\<rparr>))"
    by (rule answer_error_answers [OF fr(2) code])
  have "policyHandler proxy next x = answer_error msg code (x\<lparr>val_st := v\<rparr>) \<or>
      policyHandler proxy next x = answer_error msg code (put_info (info\<lparr>Result := projr res\<rparr>) (x\<lparr>val_st := v\<rparr>))"
    using assms(2,3) cm
    by (auto simp: policyHandler_def policy_answer_def Let_def
        split: sum.splits goval.splits option.splits bool.splits)
  with y z cm assms(2) show ?thesis by auto
qed

subsection \<open>The metrics log\<close>

text \<open>The handlers below the metrics middleware do not touch the log or the method.\<close>

definition keeps_log :: "('p, 'v) handler \<Rightarrow> bool" where
  "keeps_log h \<longleftrightarrow> (\<forall>x. metric_log (state_of (h x)) = metric_log x \<and>
     r_Method (req (state_of (h x))) = r_Method (req x))"

lemma keeps_log_answer [simp]: "keeps_log (answer_error msg code)"
  by (simp add: keeps_log_def)

lemma keeps_log_proxy: "keeps_log onerror \<Longrightarrow> keeps_log (reverse_proxy b onerror)"
  by (auto simp: keeps_log_def reverse_proxy_def pass_reply_def Let_def split: backend_reply.splits outcome.splits)

lemma keeps_log_ServeHTTP: "keeps_log (ServeHTTP proxy)"
proof -
  have "keeps_log (reverse_proxy (backend proxy) bad_gateway)"
    by (rule keeps_log_proxy) (simp add: keeps_log_def bad_gateway_def)
  moreover have "metric_log (y\<lparr>req := injected y\<rparr>) = metric_log y"
    "r_Method (req (y\<lparr>req := injected y\<rparr>)) = r_Method (req y)" for y :: "('a, 'b) exchange"
    by (auto simp: injected_def split: option.splits goval.splits)
  ultimately show ?thesis unfolding keeps_log_def ServeHTTP_injected by metis
qed

lemma keeps_log_policy: "keeps_log next \<Longrightarrow> keeps_log (policyHandler proxy next)"
  by (auto simp: keeps_log_def policyHandler_def Let_def
      split: option.splits outcome.splits sum.splits goval.splits)

lemma keeps_log_auth: "keeps_log next \<Longrightarrow> keeps_log (authHandler proxy next)"
  by (auto simp: keeps_log_def authHandler_def Let_def split: option.splits outcome.splits)

lemma keeps_log_mux: "keeps_log next \<Longrightarrow> keeps_log (muxHandler proxy next)"
  by (auto simp: keeps_log_def muxHandler_def split: option.splits outcome.splits)

lemmas keeps_log_inner = keeps_log_auth [OF keeps_log_policy [OF keeps_log_mux [OF keeps_log_ServeHTTP]]]

text \<open>The URL label, as long as neither the provider nor the policy result changes it.\<close>

definition url_label :: "('p, 'v) exchange \<Rightarrow> string option" where
  "url_label x = map_option URL (GetInfo (req x))"

definition keeps_url :: "('p, 'v) handler \<Rightarrow> bool" where
  "keeps_url h \<longleftrightarrow> (\<forall>x. url_label (state_of (h x)) = url_label x)"

definition url_fixed :: "('p, 'v) Proxy \<Rightarrow> bool" where
  "url_fixed proxy \<longleftrightarrow>
     (\<forall>p i r p' i' e. auth proxy p i r = Done (p', i', e) \<longrightarrow> URL i' = URL i) \<and>
     (\<forall>v i v' m. validator proxy v (requestName proxy) i = Done (v', Inr (VMap m)) \<longrightarrow> map_of m ''url'' = None)"

lemma url_label_put [simp]: "url_label (put_info i x) = Some (URL i)"
  by (simp add: url_label_def)

lemma url_label_answer [simp]: "url_label (state_of (answer_error msg code x)) = url_label x"
  by (simp add: url_label_def)

lemma keeps_url_ServeHTTP: "keeps_url (ServeHTTP proxy)"
  unfolding keeps_url_def
proof
  fix y :: "('a, 'b) exchange"
  have "GetInfo (req (state_of (reverse_proxy b bad_gateway x))) = GetInfo (req x)" for b and x :: "('a, 'b) exchange"
    by (auto simp: reverse_proxy_def pass_reply_def bad_gateway_def Let_def split: backend_reply.splits outcome.splits)
  moreover have "GetInfo (injected y) = GetInfo (req y)"
    by (auto simp: injected_def GetInfo_def split: option.splits goval.splits)
  ultimately show "url_label (state_of (ServeHTTP proxy y)) = url_label y"
    by (simp add: url_label_def ServeHTTP_injected)
qed

lemma keeps_url_mux: "keeps_url next \<Longrightarrow> keeps_url (muxHandler proxy next)"
  by (auto simp: keeps_url_def muxHandler_def url_label_def split: option.splits outcome.splits)

lemma keeps_url_policy:
  assumes "url_fixed proxy" and "keeps_url next"
  shows "keeps_url (policyHandler proxy next)"
  unfolding keeps_url_def
proof
  fix x :: "('a, 'b) exchange"
  have none: "map_of m ''url'' = None"
    if "validator proxy (val_st x) (requestName proxy) i = Done (v', Inr (VMap m))" for i v' m
    using assms(1) that by (auto simp: url_fixed_def)
  show "url_label (state_of (policyHandler proxy next x)) = url_label x"
    using assms(2) none
    by (auto simp: keeps_url_def policyHandler_def Let_def url_label_def [of x] url_label_def [of "x\<lparr>val_st := _\<rparr>"]
        split: option.splits outcome.splits sum.splits goval.splits)
qed

lemma keeps_url_auth:
  assumes "url_fixed proxy" and "keeps_url next"
  shows "keeps_url (authHandler proxy next)"
  unfolding keeps_url_def
proof
  fix x :: "('a, 'b) exchange"
  show "url_label (state_of (authHandler proxy next x)) = url_label x"
  proof (cases "GetInfo (req x)")
    case None
    then show ?thesis by (simp add: authHandler_def)
  next
    case (Some info)
    show ?thesis
    proof (cases "auth proxy (auth_st x) info (req x)")
      case (Panic m)
      with Some show ?thesis by (simp add: authHandler_def)
    next
      case (Done d)
      then obtain p i e where d: "auth proxy (auth_st x) info (req x) = Done (p, i, e)" by (cases d) auto
      with assms(1) have "URL i = URL info" unfolding url_fixed_def by blast
      then have put: "url_label (put_info i (x\<lparr>auth_st := p\<rparr>)) = url_label x" using Some by (simp add: url_label_def)
      have hdr: "url_label (y\<lparr>wr := w\<rparr>) = url_label y" for w and y :: "('a, 'b) exchange"
        by (simp add: url_label_def)
      show ?thesis
        using Some d put assms(2) by (auto simp: authHandler_def Let_def keeps_url_def hdr split: option.splits)
    qed
  qed
qed

lemma capture_log:
  "total_labels (snd (capture h keys (b, log))) = total_labels log"
  "labels_ok (snd (capture h keys (b, log))) = labels_ok log"
  by (induction h keys "(b, log)" arbitrary: b log rule: capture.induct)
    (auto simp: Let_def IncrementBlockedHeadersCaptured_def labels_ok_def)

lemma cleaned_log:
  "total_labels (metric_log (cleaned proxy x)) = total_labels (metric_log x)"
  "labels_ok (metric_log (cleaned proxy x)) = labels_ok (metric_log x)"
  using capture_log [of "r_Header (req x)" "toClean (r_Header (req x))" "[]" "metric_log x"]
  by (auto simp: cleaned_def Let_def IncrementRequestsWithBlockedHeaders_def labels_ok_def
      split: prod.splits)

text \<open>The chain below the wrapper, as the metrics middleware sees it.\<close>

lemma serve_Served:
  assumes "serve proxy x = Served y"
  obtains cfg info z info' where "config proxy = Some cfg"
    and "NewInfo (req (cleaned proxy x)) (authKey proxy) (URLMetricsLevel cfg) = Done info"
    and "authHandler proxy (policyHandler proxy (muxHandler proxy (ServeHTTP proxy)))
      ((cleaned proxy x)\<lparr>wr := newResponseTracker (wr x), req := RequestWithInfo info (req (cleaned proxy x))\<rparr>) = Served z"
    and "GetInfo (req z) = Some info'"
    and "label_values_ok x [r_Method (req z), itoa (rt_status (wr z)), URL info']"
    and "y = z\<lparr>metric_log := metric_log z @
      (let labels = [r_Method (req z), itoa (rt_status (wr z)), URL info'] in
       [ObserveDuration labels, ObserveRequestSize labels (r_ContentLength (req z)),
        ObserveResponseSize labels (rt_size (wr z)), IncRequestsTotal labels])\<rparr>"
proof -
  let ?inner = "authHandler proxy (policyHandler proxy (muxHandler proxy (ServeHTTP proxy)))"
  obtain cfg info where cfg: "config proxy = Some cfg"
    "NewInfo (req (cleaned proxy x)) (authKey proxy) (URLMetricsLevel cfg) = Done info"
    using assms by (auto simp: serve_def CleanupHandler_def WrapHandler_def split: option.splits outcome.splits)
  let ?x = "(cleaned proxy x)\<lparr>wr := newResponseTracker (wr x), req := RequestWithInfo info (req (cleaned proxy x))\<rparr>"
  have wrap: "metrics_Wrap ?inner ?x = Served y"
    using assms cfg by (simp add: serve_def CleanupHandler_def WrapHandler_def)
  obtain z where z: "?inner ?x = Served z"
    using wrap by (cases "?inner ?x") (auto simp: metrics_Wrap_def newResponseTracker_def)
  with wrap obtain info' where "GetInfo (req z) = Some info'"
    by (cases "GetInfo (req z)") (auto simp: metrics_Wrap_def newResponseTracker_def)
  with wrap z cfg that show ?thesis
    by (auto simp: metrics_Wrap_def newResponseTracker_def Let_def split: if_splits)
qed

subsection \<open>The status that the tracker reports\<close>

text \<open>The status a client sees when the handler has returned: 200 when none was written.\<close>

definition client_status :: "respw \<Rightarrow> int" where
  "client_status w = (case rw_status w of None \<Rightarrow> 200 | Some code \<Rightarrow> code)"

definition tracked :: "writer \<Rightarrow> bool" where
  "tracked w = (case w of
     Raw _ \<Rightarrow> False
   | responseTracker w' status sz wrote \<Rightarrow>
       status = client_status (raw_of w') \<and> (\<not> rw_head (raw_of w') \<longrightarrow> sz = int (length (rw_body (raw_of w')))) \<and>
       (wrote \<longleftrightarrow> rw_status (raw_of w') \<noteq> None))"

lemma tracked_new: "fresh x \<Longrightarrow> tracked (newResponseTracker (wr x))"
  by (simp add: tracked_def newResponseTracker_def fresh_def client_status_def)

lemma tracked_map_header [simp]: "tracked (map_header f w) = tracked w"
  by (cases w) (simp_all add: tracked_def client_status_def)

lemma tracked_WriteHeader:
  assumes "tracked w" and "WriteHeader w code = Done w'" and "200 \<le> code"
  shows "tracked w' \<and> rw_status (raw_of w') \<noteq> None"
proof (cases w)
  case (responseTracker v status sz wrote)
  with assms(2) obtain v' where v': "WriteHeader v code = Done v'"
    "w' = (if \<not> wrote then responseTracker v' code sz True else responseTracker v' status sz wrote)"
    by (cases "WriteHeader v code") auto
  have "rw_write_header (raw_of v) code = Done (raw_of v')" using v'(1) by (rule WriteHeader_raw)
  with v'(2) responseTracker assms(1,3) show ?thesis
    by (cases "rw_status (raw_of v)")
      (auto simp: tracked_def client_status_def rw_write_header_def split: if_splits dest!: sym [of _ "raw_of v'"])
qed (use assms(1) in \<open>simp add: tracked_def\<close>)

lemma tracked_Write:
  assumes "tracked w" and "rw_status (raw_of w) \<noteq> None"
  shows "tracked (fst (Write w b))"
proof (cases w)
  case (responseTracker v status sz wrote)
  have "raw_of (fst (Write v b)) = fst (rw_write (raw_of v) b)" "snd (Write v b) = snd (rw_write (raw_of v) b)"
    by (rule Write_raw, rule Write_count)
  with responseTracker assms show ?thesis
    by (auto simp: tracked_def client_status_def rw_write_def Let_def split: prod.splits)
qed (use assms(1) in \<open>simp add: tracked_def\<close>)

lemma tracked_http_error:
  assumes "tracked w" and "http_error w msg code = Done w'" and "200 \<le> code"
  shows "tracked w'"
proof -
  let ?w1 = "map_header (\<lambda>h. header_set (header_set (header_del h ''Content-Length'')
                 ''Content-Type'' ''text/plain; charset=utf-8'') ''X-Content-Type-Options'' ''nosniff'') w"
  obtain w2 where w2: "WriteHeader ?w1 code = Done w2" "w' = fst (Write w2 (msg @ [CHR 0x0A]))"
    using assms(2) by (cases "WriteHeader ?w1 code") (auto simp: http_error_def Let_def)
  have "tracked ?w1" using assms(1) by simp
  from tracked_WriteHeader [OF this w2(1) assms(3)] w2(2) tracked_Write show ?thesis by auto
qed

lemma tracked_write_reply:
  assumes "tracked w" and "write_reply w status h body = Done w'" and "200 \<le> status"
  shows "tracked w'"
proof -
  let ?w1 = "map_header (\<lambda>dst. copyHeader dst (removeHopByHopHeaders h)) w"
  obtain w2 where w2: "WriteHeader ?w1 status = Done w2" "w' = (if body = [] then w2 else fst (Write w2 body))"
    using assms(2) by (cases "WriteHeader ?w1 status") (auto simp: write_reply_def)
  have "tracked ?w1" using assms(1) by simp
  from tracked_WriteHeader [OF this w2(1) assms(3)] w2(2) tracked_Write show ?thesis by auto
qed

text \<open>Every handler keeps the tracker truthful, as long as the backend sends no informational reply.\<close>

definition keeps_tracked :: "('p, 'v) handler \<Rightarrow> bool" where
  "keeps_tracked h \<longleftrightarrow> (\<forall>x. tracked (wr x) \<longrightarrow> tracked (wr (state_of (h x))))"

definition final_replies :: "(request \<Rightarrow> backend_reply) \<Rightarrow> bool" where
  "final_replies b \<longleftrightarrow> (\<forall>r. case b r of
     BackendError _ \<Rightarrow> True
   | BackendReply infos status _ _ \<Rightarrow> infos = [] \<and> 200 \<le> status
   | BackendCut infos status _ _ \<Rightarrow> infos = [] \<and> 200 \<le> status)"

lemma keeps_tracked_answer: "200 \<le> code \<Longrightarrow> keeps_tracked (answer_error msg code)"
  by (auto simp: keeps_tracked_def answer_error_def split: outcome.splits intro: tracked_http_error)

lemma tracked_pass_reply:
  assumes "200 \<le> status" and "tracked (wr x)"
  shows "tracked (wr (state_of (pass_reply onerror [] status h body complete x)))"
  using assms tracked_write_reply [OF assms(2) _ assms(1)]
  by (auto simp: pass_reply_def split: outcome.splits)

lemma keeps_tracked_proxy:
  assumes "final_replies b" and "keeps_tracked onerror"
  shows "keeps_tracked (reverse_proxy b onerror)"
  unfolding keeps_tracked_def
proof (intro allI impI)
  fix x :: "('a, 'b) exchange"
  assume t: "tracked (wr x)"
  let ?out = "outgoing (req x)" and ?x1 = "x\<lparr>forwarded := forwarded x @ [outgoing (req x)]\<rparr>"
  have err: "tracked (wr (state_of (onerror ?x1)))" "tracked (wr (state_of (onerror x)))"
    using assms(2) t by (simp_all add: keeps_tracked_def)
  have t1: "tracked (wr ?x1)" using t by simp
  show "tracked (wr (state_of (reverse_proxy b onerror x)))"
  proof (cases "b ?out")
    case (BackendError e)
    with err show ?thesis by (simp add: reverse_proxy_def Let_def)
  next
    case (BackendReply infos status h body)
    with assms(1) have "infos = []" "200 \<le> status"
      by (auto simp: final_replies_def dest: spec [of _ ?out])
    with BackendReply err tracked_pass_reply [OF _ t1] show ?thesis
      by (simp add: reverse_proxy_def Let_def)
  next
    case (BackendCut infos status h body)
    with assms(1) have "infos = []" "200 \<le> status"
      by (auto simp: final_replies_def dest: spec [of _ ?out])
    with BackendCut err tracked_pass_reply [OF _ t1] show ?thesis
      by (simp add: reverse_proxy_def Let_def)
  qed
qed

lemma keeps_tracked_ServeHTTP:
  assumes "final_replies (backend proxy)"
  shows "keeps_tracked (ServeHTTP proxy)"
proof -
  have "keeps_tracked (reverse_proxy (backend proxy) bad_gateway)"
    by (rule keeps_tracked_proxy [OF assms])
      (use keeps_tracked_answer [of 502 "''bad gateway''"] in \<open>simp add: keeps_tracked_def bad_gateway_def\<close>)
  then have "tracked (wr x) \<Longrightarrow> tracked (wr (state_of (ServeHTTP proxy x)))" for x :: "('a, 'b) exchange"
    unfolding keeps_tracked_def ServeHTTP_injected by (metis exchange.select_convs(2) exchange.surjective exchange.update_convs(1))
  then show ?thesis by (simp add: keeps_tracked_def)
qed

lemmas keeps_tracked_answers =
  keeps_tracked_answer [of 500, unfolded keeps_tracked_def, simplified, rule_format]
  keeps_tracked_answer [of 403, unfolded keeps_tracked_def, simplified, rule_format]
  keeps_tracked_answer [of 401, unfolded keeps_tracked_def, simplified, rule_format]
  keeps_tracked_answer [of 503, unfolded keeps_tracked_def, simplified, rule_format]

lemma keeps_tracked_policy: "keeps_tracked next \<Longrightarrow> keeps_tracked (policyHandler proxy next)"
  by (auto simp: keeps_tracked_def policyHandler_def Let_def keeps_tracked_answers
      split: option.splits outcome.splits sum.splits goval.splits)

lemma keeps_tracked_auth: "keeps_tracked next \<Longrightarrow> keeps_tracked (authHandler proxy next)"
  by (auto simp: keeps_tracked_def authHandler_def Let_def keeps_tracked_answers
      split: option.splits outcome.splits)

text \<open>The mux answers with a final status: it says that a path or a method has no route.\<close>

definition mux_final :: "('p, 'v) Proxy \<Rightarrow> bool" where
  "mux_final proxy \<longleftrightarrow> (\<forall>r h code body. mux proxy r = Some (h, code, body) \<longrightarrow> 200 \<le> code \<and> code \<le> 999)"

lemma keeps_tracked_mux:
  assumes "mux_final proxy" and "keeps_tracked next"
  shows "keeps_tracked (muxHandler proxy next)"
  unfolding keeps_tracked_def
proof (intro allI impI)
  fix x :: "('a, 'b) exchange"
  assume t: "tracked (wr x)"
  show "tracked (wr (state_of (muxHandler proxy next x)))"
  proof (cases "mux proxy (req x)")
    case None
    with t assms(2) show ?thesis by (simp add: muxHandler_def keeps_tracked_def)
  next
    case (Some a)
    then obtain h code body where a: "mux proxy (req x) = Some (h, code, body)" by (cases a) auto
    with assms(1) have code: "200 \<le> code" by (auto simp: mux_final_def)
    let ?w = "map_header (\<lambda>dst. copyHeader dst h) (wr x)"
    have "tracked ?w" using t by simp
    with a t tracked_WriteHeader [OF _ _ code, of ?w] tracked_Write show ?thesis
      by (auto simp: muxHandler_def split: outcome.splits)
  qed
qed

text \<open>The chain below the metrics middleware answers what it does not let pass.\<close>

lemma inner_answers:
  assumes "fresh x" and "GetInfo (req x) = Some info"
    and "auth proxy (auth_st x) info (req x) = Done (p, info', e)"
    and "e = None \<Longrightarrow> validator proxy (val_st x) (requestName proxy) info' = Done (v, res)"
    and "Option.bind (auth_pass proxy x) (policy_pass proxy) = None"
  shows "\<exists>y code msg. authHandler proxy (policyHandler proxy next) x = Served y \<and> answered code msg y \<and>
    code \<in> {401, 403, 500, 503} \<and> forwarded y = forwarded x \<and>
    (\<exists>i. GetInfo (req y) = Some i \<and> URL i = URL info')"
proof (cases e)
  case None
  let ?x1 = "put_info info' (x\<lparr>auth_st := p\<rparr>)"
  have pass: "authHandler proxy (policyHandler proxy next) x = policyHandler proxy next ?x1"
    using assms(2,3) None by (simp add: authHandler_def Let_def)
  have val: "validator proxy (val_st ?x1) (requestName proxy) info' = Done (v, res)"
    using assms(4) None by simp
  have "policy_pass proxy ?x1 = None"
    using assms(2,3,5) None by (simp add: auth_pass_def)
  with val have "policy_answer res \<noteq> None"
    by (auto simp: policy_pass_def policy_answer_def allows_def
        split: sum.splits goval.splits option.splits bool.splits if_splits)
  then obtain code msg where cm: "policy_answer res = Some (code, msg)" by auto
  have "fresh ?x1" "GetInfo (req ?x1) = Some info'" using assms(1) by simp_all
  from policyHandler_decides [OF this val, of "next"] cm pass show ?thesis
    by (fastforce simp: policy_answer_def split: sum.splits goval.splits option.splits bool.splits)
next
  case (Some err)
  have code: "fst (auth_answer err) \<in> {401, 403, 500, 503}" by (simp add: auth_answer_def)
  from authHandler_rejects [OF assms(1,2) assms(3) [unfolded Some], of "policyHandler proxy next"]
  obtain y where "authHandler proxy (policyHandler proxy next) x = Served y" "forwarded y = forwarded x"
    "req y = req (put_info info' x)" "answered (fst (auth_answer err)) (snd (auth_answer err)) y" by blast
  with code show ?thesis by (intro exI [of _ y] exI [of _ "fst (auth_answer err)"]) auto
qed

text \<open>What the chain does with a request that it does not let pass does not depend on the handler behind it.\<close>

lemma inner_next:
  assumes "GetInfo (req x) = Some info" and "auth proxy (auth_st x) info (req x) = Done (p, info', e)"
    and "Option.bind (auth_pass proxy x) (policy_pass proxy) = None"
  shows "authHandler proxy (policyHandler proxy next) x = authHandler proxy (policyHandler proxy next') x"
proof (cases e)
  case None
  let ?x1 = "put_info info' (x\<lparr>auth_st := p\<rparr>)"
  have "policy_pass proxy ?x1 = None" using assms None by (simp add: auth_pass_def)
  then have "policyHandler proxy next ?x1 = policyHandler proxy next' ?x1"
    by (auto simp: policy_pass_def policyHandler_def Let_def allows_def
        split: option.splits outcome.splits sum.splits goval.splits if_splits)
  with assms None show ?thesis by (simp add: authHandler_def Let_def)
next
  case (Some err)
  with assms show ?thesis by (simp add: authHandler_def Let_def)
qed

text \<open>The sample exchange as the wrapping handler passes it on.\<close>

definition sample_info :: Info where
  "sample_info =
     \<lparr>Request = \<lparr>ri_Method = ''GET'', ri_Path = [''a''], ri_Headers = [], ri_BlockedHeaders = None,
        ri_Auth = None, ri_Size = 0, ri_ID = []\<rparr>,
      JWT = VNil, User = VNil, Result = VNil, URL = ''/''\<rparr>"

definition wrapped_exchange :: "(unit, unit) exchange" where
  "wrapped_exchange = (sample_exchange [])\<lparr>req := RequestWithInfo sample_info (req (sample_exchange []))\<rparr>"

lemma wrapped_exchange_simps:
  "fresh wrapped_exchange" "GetInfo (req wrapped_exchange) = Some sample_info"
  "val_st wrapped_exchange = ()" "auth_st wrapped_exchange = ()" "forwarded wrapped_exchange = []"
  by (simp_all add: wrapped_exchange_def fresh_def sample_exchange_def)

lemma denied_run:
  obtains y where "serve (sample_proxy (VMap [(''allow'', VBool False)])) (sample_exchange []) = Served y"
proof -
  have "case serve (sample_proxy (VMap [(''allow'', VBool False)])) (sample_exchange []) of
      Served _ \<Rightarrow> True | Panicked _ _ \<Rightarrow> False"
    by code_simp
  then show ?thesis using that by (auto split: result.splits)
qed

section \<open>Lemmas on the reply of the backend\<close>

lemma write_informational_raw:
  "rw_status (raw_of w) = None \<Longrightarrow> list_all (\<lambda>i. 100 \<le> i \<and> i \<le> 199 \<and> i \<noteq> 101) infos \<Longrightarrow>
    \<exists>w'. write_informational w infos = Done w' \<and>
      raw_of w' = (raw_of w)\<lparr>rw_informational := rw_informational (raw_of w) @ infos\<rparr>"
proof (induction infos arbitrary: w)
  case (Cons i infos)
  obtain v where v: "WriteHeader w i = Done v" using WriteHeader_total [of w i] Cons.prems by auto
  have "raw_of v = (raw_of w)\<lparr>rw_informational := rw_informational (raw_of w) @ [i]\<rparr>"
    using WriteHeader_raw [OF v] Cons.prems by (simp add: rw_write_header_def split: if_splits)
  with Cons.IH [of v] Cons.prems v show ?case by auto
qed simp

lemma write_reply_fresh:
  assumes "rw_status (raw_of v) = None" and "rw_body (raw_of v) = []" and "200 \<le> status" and "status \<le> 999"
  shows "\<exists>w. write_reply v status h body = Done w \<and>
    raw_of w = (raw_of v)\<lparr>rw_header := copyHeader (rw_header (raw_of v)) (removeHopByHopHeaders h), rw_status := Some status,
      rw_body := (if rw_head (raw_of v) \<or> \<not> body_allowed status then [] else body)\<rparr>"
proof -
  let ?w1 = "map_header (\<lambda>dst. copyHeader dst (removeHopByHopHeaders h)) v"
  obtain w2 where w2: "WriteHeader ?w1 status = Done w2"
    using WriteHeader_total [of ?w1 status] assms(3,4) by auto
  then have "rw_write_header (raw_of ?w1) status = Done (raw_of w2)" by (rule WriteHeader_raw)
  with assms have r2: "raw_of w2 = (raw_of ?w1)\<lparr>rw_status := Some status\<rparr>"
    by (auto simp: rw_write_header_def split: if_splits)
  with assms w2 show ?thesis
    by (simp add: write_reply_def Write_raw rw_write_def Let_def)
qed

text \<open>A panic of the innermost handler passes through the whole chain.\<close>

lemma serve_panics:
  assumes "admit proxy x = Some y" and "ServeHTTP proxy y = Panicked m z"
  shows "\<exists>z'. serve proxy x = Panicked m z'"
  using assms
  by (auto simp: serve_def admit_def authorize_def cleanup_pass_def wrap_pass_def metrics_pass_def auth_pass_def
      mux_pass_def policy_pass_def bind_eq_Some_conv CleanupHandler_def WrapHandler_def metrics_Wrap_def authHandler_def
      muxHandler_def Let_def policyHandler_result newResponseTracker_def
      split: option.splits outcome.splits sum.splits if_splits writer.splits)

lemma admitted_reply:
  assumes "fresh x" and "admit proxy x = Some y" and "sendable (injected y)"
    and "backend proxy (outgoing (injected y)) = (if complete then BackendReply infos status h body else BackendCut infos status h body)"
    and "list_all (\<lambda>i. 100 \<le> i \<and> i \<le> 199 \<and> i \<noteq> 101) infos" and "200 \<le> status" and "status \<le> 999"
  shows "raw_of (wr (state_of (serve proxy x))) = (raw_of (wr x))
      \<lparr>rw_header := copyHeader (rw_header (raw_of (wr x))) (removeHopByHopHeaders h), rw_status := Some status,
       rw_informational := rw_informational (raw_of (wr x)) @ infos,
       rw_body := (if rw_head (raw_of (wr x)) \<or> \<not> body_allowed status then [] else body)\<rparr> \<and>
    forwarded (state_of (serve proxy x)) = forwarded x @ [outgoing (injected y)] \<and>
    (\<not> complete \<longrightarrow> (\<exists>z. serve proxy x = Panicked ''net/http: abort Handler'' z))"
proof -
  let ?x1 = "y\<lparr>req := injected y, forwarded := forwarded y @ [outgoing (injected y)]\<rparr>"
  have y: "wr y = newResponseTracker (wr x)" "forwarded y = forwarded x"
    using assms(2) by (auto elim: admit_Some)
  have raw_y: "raw_of (wr y) = raw_of (wr x)" by (simp add: y newResponseTracker_def)
  then have "rw_status (raw_of (wr y)) = None" using assms(1) by (simp add: fresh_def)
  from write_informational_raw [OF this assms(5)] obtain v where v: "write_informational (wr y) infos = Done v"
    "raw_of v = (raw_of (wr x))\<lparr>rw_informational := rw_informational (raw_of (wr x)) @ infos\<rparr>"
    using raw_y by auto
  then have "rw_status (raw_of v) = None" "rw_body (raw_of v) = []" using assms(1) by (simp_all add: fresh_def)
  from write_reply_fresh [OF this assms(6,7), of h body] obtain w where w: "write_reply v status h body = Done w"
    "raw_of w = (raw_of (wr x))\<lparr>rw_header := copyHeader (rw_header (raw_of (wr x))) (removeHopByHopHeaders h),
      rw_status := Some status, rw_informational := rw_informational (raw_of (wr x)) @ infos,
      rw_body := (if rw_head (raw_of (wr x)) \<or> \<not> body_allowed status then [] else body)\<rparr>"
    using v(2) by auto
  have run: "ServeHTTP proxy y = (if complete then Served (?x1\<lparr>wr := w\<rparr>) else Panicked ''net/http: abort Handler'' (?x1\<lparr>wr := w\<rparr>))"
    using assms(3,4,6) w(1) v(1)
    by (auto simp: ServeHTTP_injected reverse_proxy_def pass_reply_def sendable_def outgoing_def Let_def)
  have "raw_of (wr (state_of (serve proxy x))) = raw_of (wr (state_of (ServeHTTP proxy y)))"
    using routed.pair.pass_on [of proxy x y "ServeHTTP proxy"] assms(2) by (simp add: serve_def admit_def)
  moreover have "forwarded (state_of (serve proxy x)) = forwarded (state_of (ServeHTTP proxy y))"
    using assms(2) by (simp add: serve_forwarded)
  moreover have "raw_of (wr (state_of (ServeHTTP proxy y))) = raw_of w" using run by (cases complete) simp_all
  moreover have "forwarded (state_of (ServeHTTP proxy y)) = forwarded x @ [outgoing (injected y)]"
    using run y(2) by (cases complete) simp_all
  moreover have "\<not> complete \<Longrightarrow> \<exists>z. serve proxy x = Panicked ''net/http: abort Handler'' z"
    using serve_panics [OF assms(2)] run by auto
  ultimately show ?thesis using w by auto
qed

section \<open>Properties\<close>

text \<open>
  C8. A request that the provider rejects is answered by the authentication handler and goes no further:
  401 with the challenge of the provider (or Bearer) for failed authentication, 503 when the provider is
  unavailable, 500 for any other error.
\<close>

theorem auth_failure_answer:
  assumes "fresh x" and "GetInfo (req x) = Some info"
    and "auth proxy (auth_st x) info (req x) = Done (p, info', Some e)"
  shows "\<exists>y. authHandler proxy next x = Served y \<and> forwarded y = forwarded x \<and>
    answered (fst (auth_answer e)) (snd (auth_answer e)) y \<and>
    map_of (rw_header (raw_of (wr y))) ''Www-Authenticate'' =
      (if errors_is e ErrAuthenticationFailed then Some [challenge_of proxy]
       else map_of (rw_header (raw_of (wr x))) ''Www-Authenticate'')"
  using authHandler_rejects [OF assms] by blast

theorem auth_failure_answer_witness:
  "\<exists>y. authHandler ((sample_proxy VNil)\<lparr>auth := \<lambda>p i r. Done (p, i, Some ErrAuthenticationFailed)\<rparr>) Served
      wrapped_exchange = Served y \<and> rw_status (raw_of (wr y)) = Some 401 \<and>
    map_of (rw_header (raw_of (wr y))) ''Www-Authenticate'' = Some [''Bearer'']"
  using auth_failure_answer [OF wrapped_exchange_simps(1,2),
      of "(sample_proxy VNil)\<lparr>auth := \<lambda>p i r. Done (p, i, Some ErrAuthenticationFailed)\<rparr>"
        "()" sample_info ErrAuthenticationFailed Served]
  by (auto simp: auth_answer_def answered_def challenge_of_def sample_proxy_def)

text \<open>
  C7. The decision of the policy handler, for every result of the validator. Only a map whose
  \<^verbatim>\<open>allow\<close> is true passes the request on, with the result and the URL label stored in its info; a denial
  is a 403; an evaluation error, a result that is no map, and a missing or non-boolean \<^verbatim>\<open>allow\<close> are a 500.
\<close>

theorem policy_decision:
  assumes "fresh x" and "GetInfo (req x) = Some info"
    and "validator proxy (val_st x) (requestName proxy) info = Done (v, res)"
  shows "case policy_answer res of
      None \<Rightarrow> \<exists>m. res = Inr (VMap m) \<and>
        policyHandler proxy next x = next (put_info (rewritten (VMap m) info) (x\<lparr>val_st := v\<rparr>))
    | Some (code, msg) \<Rightarrow> \<exists>y. policyHandler proxy next x = Served y \<and> answered code msg y \<and>
        forwarded y = forwarded x"
  using policyHandler_decides [OF assms] by (fastforce split: option.splits)

theorem policy_decision_witness:
  "\<exists>y. policyHandler (sample_proxy (VMap [(''allow'', VString ''true'')])) Served wrapped_exchange = Served y \<and>
    answered 500 ''invalid policy result'' y \<and> forwarded y = []"
  using policy_decision [OF wrapped_exchange_simps(1,2),
      of "sample_proxy (VMap [(''allow'', VString ''true'')])" "()" "Inr (VMap [(''allow'', VString ''true'')])" Served]
  by (simp add: policy_answer_def sample_proxy_def wrapped_exchange_simps)

text \<open>
  C6. Every request is answered. When the calls to the provider and the validator return and the request
  can be wrapped, a request that does not pass the gates is answered with 401, 403, 500 or 503 and is not
  forwarded. The handler returns, unless the Prometheus client rejects the label values of this very
  answer: the method of the request, the status and the URL label that its info has after authentication.
\<close>

theorem rejected_is_answered:
  assumes "fresh x" and "config proxy = Some cfg"
    and "NewInfo (req (cleaned proxy x)) (authKey proxy) (URLMetricsLevel cfg) = Done info"
    and "auth proxy (auth_st x) info (RequestWithInfo info (req (cleaned proxy x))) = Done (p, info', e)"
    and "e = None \<Longrightarrow> validator proxy (val_st x) (requestName proxy) info' = Done (v, res)"
    and "authorize proxy x = None"
  shows "\<exists>y code msg. state_of (serve proxy x) = y \<and> answered code msg y \<and> code \<in> {401, 403, 500, 503} \<and>
    forwarded y = forwarded x \<and>
    (if label_values_ok x [r_Method (req x), itoa code, URL info'] then serve proxy x = Served y
     else serve proxy x = Panicked ''label values rejected'' y)"
proof -
  let ?inner = "authHandler proxy (policyHandler proxy (muxHandler proxy (ServeHTTP proxy)))"
  let ?x = "(cleaned proxy x)\<lparr>wr := newResponseTracker (wr x), req := RequestWithInfo info (req (cleaned proxy x))\<rparr>"
  have fr: "fresh ?x" using assms(1) by (simp add: fresh_def newResponseTracker_def)
  have pass: "Option.bind (auth_pass proxy ?x) (policy_pass proxy) = None"
    using assms(2,3,6) by (simp add: authorize_def cleanup_pass_def wrap_pass_def metrics_pass_def newResponseTracker_def)
  have "\<exists>y code msg. ?inner ?x = Served y \<and> answered code msg y \<and> code \<in> {401, 403, 500, 503} \<and>
      forwarded y = forwarded ?x \<and> (\<exists>i. GetInfo (req y) = Some i \<and> URL i = URL info')"
    by (rule inner_answers [OF fr _ _ _ pass]) (use assms(4,5) in simp_all)
  then obtain y code msg info2 where y: "?inner ?x = Served y" "answered code msg y" "code \<in> {401, 403, 500, 503}"
    "forwarded y = forwarded x" "GetInfo (req y) = Some info2" "URL info2 = URL info'" by auto
  have same: "r_Method (req y) = r_Method (req x)"
    using keeps_log_inner [of proxy] y(1) unfolding keeps_log_def
    by (metis RequestWithInfo_simps(4) cleaned_simps(6) exchange.select_convs(1) exchange.surjective
        exchange.update_convs(1,2) state_of.simps(1))
  have "?inner ?x = authHandler proxy (policyHandler proxy Served) ?x"
    by (rule inner_next [OF _ _ pass]) (use assms(4) in simp_all)
  moreover have "keeps_tracked Served" by (simp add: keeps_tracked_def)
  then have "keeps_tracked (authHandler proxy (policyHandler proxy Served))"
    by (intro keeps_tracked_auth keeps_tracked_policy)
  moreover have "tracked (wr ?x)" using tracked_new [OF assms(1)] by simp
  ultimately have "tracked (wr y)" using y(1) by (metis keeps_tracked_def state_of.simps(1))
  then have "rt_status (wr y) = code"
    using y(2) by (cases "wr y") (simp_all add: tracked_def answered_def client_status_def)
  with y same show ?thesis
    using assms(2,3)
    by (auto simp: serve_def CleanupHandler_def WrapHandler_def metrics_Wrap_def newResponseTracker_def
        Let_def answered_def)
qed

theorem rejected_is_answered_witness:
  "\<exists>y code msg. serve (sample_proxy (VMap [(''allow'', VBool False)])) (sample_exchange []) = Served y \<and>
    answered code msg y \<and> code \<in> {401, 403, 500, 503} \<and> forwarded y = []"
proof -
  let ?p = "sample_proxy (VMap [(''allow'', VBool False)])" and ?x = "sample_exchange []"
  have "fresh ?x" "authorize ?p ?x = None" by code_simp+
  moreover obtain info where "NewInfo (req (cleaned ?p ?x)) (authKey ?p) (URLMetricsLevel default_Fields) = Done info"
    using NewInfo_cases [of "req (cleaned ?p ?x)" "authKey ?p" "URLMetricsLevel default_Fields"]
    by (auto simp: sample_exchange_def toClean_def map_wf_def)
  moreover have "config ?p = Some default_Fields" "auth ?p a i r = Done (a, i, None)"
    "validator ?p v n i = Done (v, Inr (VMap [(''allow'', VBool False)]))" for a i r v n
    by (simp_all add: sample_proxy_def)
  moreover have "forwarded ?x = []" "label_values_ok ?x ls" for ls by (simp_all add: sample_exchange_def)
  ultimately show ?thesis
    using rejected_is_answered [of ?x ?p default_Fields info "()" info None "()" "Inr (VMap [(''allow'', VBool False)])"]
    by auto
qed

text \<open>
  C29. One record per request. A request whose handlers return is counted exactly once in the request
  counter, with its method, the status that the tracker reports and the URL label of its info, and every
  metric gets as many label values as it has labels, all of them accepted by the client library.
\<close>

theorem served_is_counted_once:
  assumes "serve proxy x = Served y"
  shows "\<exists>info. GetInfo (req y) = Some info \<and>
    total_labels (metric_log y) =
      total_labels (metric_log x) @ [[r_Method (req x), itoa (rt_status (wr y)), URL info]] \<and>
    labels_ok (metric_log y) = labels_ok (metric_log x) \<and>
    label_values_ok x [r_Method (req x), itoa (rt_status (wr y)), URL info]"
  using assms
proof (rule serve_Served)
  fix cfg info z info'
  let ?x = "(cleaned proxy x)\<lparr>wr := newResponseTracker (wr x), req := RequestWithInfo info (req (cleaned proxy x))\<rparr>"
  assume z: "authHandler proxy (policyHandler proxy (muxHandler proxy (ServeHTTP proxy))) ?x = Served z"
    and info': "GetInfo (req z) = Some info'"
    and ok: "label_values_ok x [r_Method (req z), itoa (rt_status (wr z)), URL info']"
    and y: "y = z\<lparr>metric_log := metric_log z @
      (let labels = [r_Method (req z), itoa (rt_status (wr z)), URL info'] in
       [ObserveDuration labels, ObserveRequestSize labels (r_ContentLength (req z)),
        ObserveResponseSize labels (rt_size (wr z)), IncRequestsTotal labels])\<rparr>"
  have "keeps_log (authHandler proxy (policyHandler proxy (muxHandler proxy (ServeHTTP proxy))))" by (rule keeps_log_inner)
  then have "metric_log (state_of (authHandler proxy (policyHandler proxy (muxHandler proxy (ServeHTTP proxy))) ?x)) = metric_log ?x"
    "r_Method (req (state_of (authHandler proxy (policyHandler proxy (muxHandler proxy (ServeHTTP proxy))) ?x))) = r_Method (req ?x)"
    unfolding keeps_log_def by blast+
  then have "metric_log z = metric_log (cleaned proxy x)" "r_Method (req z) = r_Method (req x)"
    using z by simp_all
  moreover have "labels_ok [ObserveDuration [a, b, c], ObserveRequestSize [a, b, c] i,
      ObserveResponseSize [a, b, c] j, IncRequestsTotal [a, b, c]]" for a b c i j
    by (simp add: labels_ok_def metrics_labels_def)
  ultimately show ?thesis using info' ok y by (simp add: Let_def cleaned_log)
qed

theorem served_is_counted_once_witness:
  "\<exists>y. serve (sample_proxy (VMap [(''allow'', VBool False)])) (sample_exchange []) = Served y \<and>
    length (total_labels (metric_log y)) = 1"
proof -
  obtain y where y: "serve (sample_proxy (VMap [(''allow'', VBool False)])) (sample_exchange []) = Served y"
    by (rule denied_run)
  from served_is_counted_once [OF y] y show ?thesis by (auto simp: sample_exchange_def)
qed

text \<open>
  C30. The status and size that the metrics record are those the client received, for a request other than
  HEAD and a backend that sends no informational (1xx) replies: the tracker reports the status of the
  server's writer and the number of body bytes that it sent. For HEAD the recorded status is right as well.
\<close>

theorem tracker_is_truthful:
  assumes "fresh x" and "final_replies (backend proxy)" and "mux_final proxy" and "serve proxy x = Served y"
  shows "rt_status (wr y) = client_status (raw_of (wr y)) \<and>
    (\<not> rw_head (raw_of (wr y)) \<longrightarrow> rt_size (wr y) = int (length (rw_body (raw_of (wr y)))))"
  using assms(4)
proof (rule serve_Served)
  fix cfg info z info'
  let ?x = "(cleaned proxy x)\<lparr>wr := newResponseTracker (wr x), req := RequestWithInfo info (req (cleaned proxy x))\<rparr>"
  assume z: "authHandler proxy (policyHandler proxy (muxHandler proxy (ServeHTTP proxy))) ?x = Served z"
    and y: "y = z\<lparr>metric_log := metric_log z @
      (let labels = [r_Method (req z), itoa (rt_status (wr z)), URL info'] in
       [ObserveDuration labels, ObserveRequestSize labels (r_ContentLength (req z)),
        ObserveResponseSize labels (rt_size (wr z)), IncRequestsTotal labels])\<rparr>"
  have "tracked (wr ?x)" using tracked_new [OF assms(1)] by simp
  then have "tracked (wr (state_of (authHandler proxy (policyHandler proxy (muxHandler proxy (ServeHTTP proxy))) ?x)))"
    using keeps_tracked_auth [OF keeps_tracked_policy [OF keeps_tracked_mux [OF assms(3)
      keeps_tracked_ServeHTTP [OF assms(2)]]], of proxy]
    by (simp add: keeps_tracked_def)
  then have "tracked (wr y)" using z y by simp
  then show ?thesis by (cases "wr y") (simp_all add: tracked_def)
qed

theorem tracker_is_truthful_witness:
  "\<exists>y. serve (sample_proxy (VMap [(''allow'', VBool False)])) (sample_exchange []) = Served y \<and>
    rt_status (wr y) = client_status (raw_of (wr y)) \<and> rt_size (wr y) = int (length (rw_body (raw_of (wr y))))"
proof -
  obtain y where y: "serve (sample_proxy (VMap [(''allow'', VBool False)])) (sample_exchange []) = Served y"
    by (rule denied_run)
  have "fresh (sample_exchange [])" by (simp add: fresh_def sample_exchange_def)
  moreover have "final_replies (backend (sample_proxy (VMap [(''allow'', VBool False)])))"
    by (simp add: final_replies_def sample_proxy_def)
  moreover have "mux_final (sample_proxy (VMap [(''allow'', VBool False)]))"
    by (simp add: mux_final_def sample_proxy_def)
  moreover have "\<not> rw_head (raw_of (wr y))"
  proof -
    have "\<not> rw_head (raw_of (wr (state_of (serve (sample_proxy (VMap [(''allow'', VBool False)])) (sample_exchange [])))))"
      by code_simp
    then show ?thesis using y by simp
  qed
  ultimately show ?thesis using tracker_is_truthful [OF _ _ _ y] y by blast
qed

text \<open>
  The size that is recorded for HEAD is wrong: the server accepts the body of an error answer and throws
  it away, so that the client receives nothing, while the tracker has counted the message.
\<close>

theorem head_error_size_recorded:
  assumes "fresh x" and "rw_head (raw_of (wr x))" and "code \<in> {401, 403, 500, 502, 503}"
  shows "\<exists>w'. http_error (newResponseTracker (wr x)) msg code = Done w' \<and> rw_status (raw_of w') = Some code \<and>
    rw_body (raw_of w') = [] \<and> rt_size w' = int (length msg) + 1"
proof -
  let ?w1 = "map_header (\<lambda>h. header_set (header_set (header_del h ''Content-Length'')
                 ''Content-Type'' ''text/plain; charset=utf-8'') ''X-Content-Type-Options'' ''nosniff'') (wr x)"
  obtain w2 where w2: "WriteHeader ?w1 code = Done w2" using WriteHeader_total [of ?w1 code] assms(3) by auto
  have raw: "raw_of w2 = (raw_of ?w1)\<lparr>rw_status := Some code\<rparr>"
    using WriteHeader_raw [OF w2] assms(1,3) by (auto simp: rw_write_header_def fresh_def split: if_splits dest: sym)
  have allowed: "body_allowed code" using assms(3) by (auto simp: body_allowed_def)
  obtain w3 n where w3: "Write w2 (msg @ [CHR 0x0A]) = (w3, n)" by fastforce
  then have "n = length msg + 1" "raw_of w3 = raw_of w2"
    using Write_count [of w2 "msg @ [CHR 0x0A]"] Write_raw [of w2 "msg @ [CHR 0x0A]"] raw assms(2) allowed
    by (simp_all add: rw_write_def Let_def)
  with w2 w3 raw assms(1) show ?thesis
    by (auto simp: http_error_def newResponseTracker_def Let_def fresh_def)
qed

theorem head_error_size_recorded_witness:
  "\<exists>w'. http_error (newResponseTracker (Raw (new_respw\<lparr>rw_head := True\<rparr>))) ''access denied'' 403 = Done w' \<and>
    rw_body (raw_of w') = [] \<and> rt_size w' = 14"
  using head_error_size_recorded [of "(sample_exchange [])\<lparr>wr := Raw (new_respw\<lparr>rw_head := True\<rparr>)\<rparr>" 403 "''access denied''"]
  by (auto simp: fresh_def new_respw_def)

text \<open>
  A request that the policy allows but that has no route is answered by the mux, not forwarded. The
  catch-all route takes the methods that the mux knows; a request with any other method passes
  authentication and policy and then gets the answer of the mux.
\<close>

theorem unrouted_is_answered:
  assumes "fresh x" and "authorize proxy x = Some y" and "mux proxy (req y) = Some (h, code, body)"
    and "200 \<le> code" and "code \<le> 999"
  shows "forwarded (state_of (serve proxy x)) = forwarded x \<and>
    rw_status (raw_of (wr (state_of (serve proxy x)))) = Some code"
proof -
  have wr: "wr y = newResponseTracker (wr x)" using assms(2) by (rule authorize_Some)
  let ?w = "map_header (\<lambda>dst. copyHeader dst h) (wr y)"
  have raw: "rw_status (raw_of ?w) = None" using assms(1) wr by (simp add: fresh_def newResponseTracker_def)
  obtain w where w: "WriteHeader ?w code = Done w" using WriteHeader_total [of ?w code] assms(4,5) by auto
  have "rw_status (raw_of w) = Some code"
    using WriteHeader_raw [OF w] raw assms(4) by (auto simp: rw_write_header_def split: if_splits dest: sym)
  then have "rw_status (raw_of (fst (Write w body))) = Some code" by (simp add: Write_raw rw_write_def Let_def)
  with w assms(3) have mux: "rw_status (raw_of (wr (state_of (muxHandler proxy (ServeHTTP proxy) y)))) = Some code"
    by (simp add: muxHandler_def)
  have "admit proxy x = None" using assms(2,3) by (simp add: admit_def mux_pass_def)
  then have "forwarded (state_of (serve proxy x)) = forwarded x" by (simp add: serve_forwarded)
  with authorized.pass_on [OF assms(2), of "muxHandler proxy (ServeHTTP proxy)"] mux show ?thesis
    by (simp add: serve_def)
qed

theorem unrouted_is_answered_witness:
  "rw_status (raw_of (wr (state_of (serve ((sample_proxy allow_user)\<lparr>mux := \<lambda>r. Some ([], 405, [])\<rparr>) spoofing)))) = Some 405"
proof -
  let ?p = "(sample_proxy allow_user)\<lparr>mux := \<lambda>r. Some ([], 405, [])\<rparr>"
  have "fresh spoofing" "authorize ?p spoofing \<noteq> None" by code_simp+
  then show ?thesis using unrouted_is_answered [of spoofing ?p] by auto
qed

text \<open>
  Label values that the Prometheus client rejects make the handler panic after the request has been
  served: nothing is counted, although the request may have been forwarded. The URL label is the request
  path, or its first segments, unless the level is zero; the client accepts only valid UTF-8 in it.
\<close>

theorem rejected_labels_panic:
  assumes "config proxy = Some cfg" and "url_fixed proxy"
    and "NewInfo (req (cleaned proxy x)) (authKey proxy) (URLMetricsLevel cfg) = Done info"
    and "\<forall>code. \<not> label_values_ok x [r_Method (req x), code, URL info]"
  shows "\<exists>m y. serve proxy x = Panicked m y \<and> total_labels (metric_log y) = total_labels (metric_log x) \<and>
    forwarded y = forwarded x @ (case admit proxy x of
      None \<Rightarrow> [] | Some z \<Rightarrow> if sendable (injected z) then [outgoing (injected z)] else [])"
proof -
  let ?inner = "authHandler proxy (policyHandler proxy (muxHandler proxy (ServeHTTP proxy)))"
  let ?x = "(cleaned proxy x)\<lparr>wr := newResponseTracker (wr x), req := RequestWithInfo info (req (cleaned proxy x))\<rparr>"
  have serve: "serve proxy x = metrics_Wrap ?inner ?x"
    using assms(1,3) by (simp add: serve_def CleanupHandler_def WrapHandler_def)
  have keep: "metric_log (state_of (?inner ?x)) = metric_log ?x"
    "r_Method (req (state_of (?inner ?x))) = r_Method (req ?x)"
    using keeps_log_inner [of proxy] unfolding keeps_log_def by blast+
  have "keeps_url ?inner"
    by (intro keeps_url_auth keeps_url_policy keeps_url_mux keeps_url_ServeHTTP assms(2))
  then have "url_label (state_of (?inner ?x)) = Some (URL info)" by (simp add: keeps_url_def url_label_def)
  then have "\<exists>m. metrics_Wrap ?inner ?x = Panicked m (state_of (?inner ?x))"
    using assms(4) keep(2)
    by (cases "?inner ?x") (auto simp: metrics_Wrap_def newResponseTracker_def Let_def url_label_def split: option.splits)
  then obtain m where m: "serve proxy x = Panicked m (state_of (?inner ?x))" using serve by auto
  moreover have "total_labels (metric_log (state_of (?inner ?x))) = total_labels (metric_log x)"
    using keep(1) by (simp add: cleaned_log)
  ultimately show ?thesis using serve_forwards_admit [of proxy x] by auto
qed

theorem rejected_labels_panic_witness:
  "\<exists>m y. serve (sample_proxy allow_user) (spoofing\<lparr>label_values_ok := \<lambda>ls. last ls \<noteq> ''/''\<rparr>) = Panicked m y"
proof -
  let ?p = "sample_proxy allow_user" and ?x = "spoofing\<lparr>label_values_ok := \<lambda>ls. last ls \<noteq> ''/''\<rparr>"
  have "(case NewInfo (req (cleaned ?p ?x)) (authKey ?p) (URLMetricsLevel default_Fields) of
      Panic _ \<Rightarrow> False | Done i \<Rightarrow> URL i = ''/'')" by code_simp
  then obtain info where info: "NewInfo (req (cleaned ?p ?x)) (authKey ?p) (URLMetricsLevel default_Fields) = Done info"
    "URL info = ''/''" by (auto split: outcome.splits)
  have cfg: "config ?p = Some default_Fields" by (simp add: sample_proxy_def)
  have url: "url_fixed ?p" by (auto simp: url_fixed_def sample_proxy_def allow_user_def)
  have "\<forall>code. \<not> label_values_ok ?x [r_Method (req ?x), code, URL info]" using info(2) by simp
  from rejected_labels_panic [OF cfg url info(1) this] show ?thesis by blast
qed

text \<open>
  An informational reply of the backend is recorded as the final status: after a 1xx reply (101
  apart) the tracker keeps its code, while the client receives the final status of the backend.
\<close>

theorem informational_recorded_as_final:
  assumes "rw_status (raw_of w) = None" and "100 \<le> i" and "i \<le> 199" and "i \<noteq> 101"
    and "200 \<le> status" and "status \<le> 999"
  shows "\<exists>w1 w2. write_informational (newResponseTracker w) [i] = Done w1 \<and>
    write_reply w1 status h body = Done w2 \<and> rt_status w2 = i \<and> rw_status (raw_of w2) = Some status"
proof -
  obtain v where v: "WriteHeader w i = Done v"
    using WriteHeader_total [of w i] assms by auto
  have raw: "raw_of v = (raw_of w)\<lparr>rw_informational := rw_informational (raw_of w) @ [i]\<rparr>"
    using WriteHeader_raw [OF v] assms by (simp add: rw_write_header_def split: if_splits)
  let ?v = "map_header (\<lambda>dst. copyHeader dst (removeHopByHopHeaders h)) v"
  obtain u where u: "WriteHeader ?v status = Done u"
    using WriteHeader_total [of ?v status] assms by auto
  have "rw_status (raw_of u) = Some status"
    using WriteHeader_raw [OF u] assms raw by (auto simp: rw_write_header_def split: if_splits dest: sym)
  moreover have "rw_status (raw_of (fst (Write u body))) = Some status"
    using calculation by (simp add: Write_raw rw_write_def Let_def)
  ultimately show ?thesis
    using v u by (cases "body = []") (auto simp: newResponseTracker_def write_reply_def Let_def split: prod.splits)
qed

theorem informational_recorded_as_final_witness:
  "\<exists>w1 w2. write_informational (newResponseTracker (Raw new_respw)) [103] = Done w1 \<and>
    write_reply w1 200 [] ''ok'' = Done w2 \<and> rt_status w2 = 103 \<and> rw_status (raw_of w2) = Some 200"
  using informational_recorded_as_final [of "Raw new_respw" 103 200 "[]" "''ok''"]
  by (simp add: new_respw_def)

text \<open>
  C5. An allowed request is answered by the backend. When a request passes all the gates and can be sent,
  and the backend replies, with any informational replies before a final status of three digits, exactly one
  request was handed on and the client receives those informational replies, that status, the headers of the
  reply without the hop-by-hop ones, and its body; no body in answer to HEAD or with a status that has none
  (204, 304). When the reply breaks off, the client receives what came of it and the exchange ends in a
  panic. A reply that switches protocols (101) is not passed on, nor is an error of the transport.
\<close>

theorem allowed_gets_backend_reply:
  assumes "fresh x" and "admit proxy x = Some y" and "sendable (injected y)"
    and "backend proxy (outgoing (injected y)) = (if complete then BackendReply infos status h body else BackendCut infos status h body)"
    and "list_all (\<lambda>i. 100 \<le> i \<and> i \<le> 199 \<and> i \<noteq> 101) infos" and "200 \<le> status" and "status \<le> 999"
  shows "rw_status (raw_of (wr (state_of (serve proxy x)))) = Some status \<and>
    rw_body (raw_of (wr (state_of (serve proxy x)))) =
      (if rw_head (raw_of (wr x)) \<or> status = 204 \<or> status = 304 then [] else body) \<and>
    rw_informational (raw_of (wr (state_of (serve proxy x)))) = rw_informational (raw_of (wr x)) @ infos \<and>
    rw_header (raw_of (wr (state_of (serve proxy x)))) =
      copyHeader (rw_header (raw_of (wr x))) (removeHopByHopHeaders h) \<and>
    forwarded (state_of (serve proxy x)) = forwarded x @ [outgoing (injected y)] \<and>
    (\<not> complete \<longrightarrow> (\<exists>z. serve proxy x = Panicked ''net/http: abort Handler'' z))"
  using admitted_reply [OF assms] assms(6) by (simp add: body_allowed_def)

theorem allowed_gets_backend_reply_witness:
  "rw_body (raw_of (wr (state_of (serve ((sample_proxy allow_user)\<lparr>backend := \<lambda>r. BackendReply [103] 201 [] ''ok''\<rparr>) spoofing)))) = ''ok'' \<and>
    rw_status (raw_of (wr (state_of (serve ((sample_proxy allow_user)\<lparr>backend := \<lambda>r. BackendReply [103] 201 [] ''ok''\<rparr>) spoofing)))) = Some 201"
proof -
  let ?p = "(sample_proxy allow_user)\<lparr>backend := \<lambda>r. BackendReply [103] 201 [] ''ok''\<rparr>"
  have ok: "(case admit ?p spoofing of None \<Rightarrow> False | Some y \<Rightarrow> sendable (injected y))"
    "fresh spoofing" "\<not> rw_head (raw_of (wr spoofing))" by code_simp+
  obtain y where y: "admit ?p spoofing = Some y" "sendable (injected y)"
    using ok(1) by (auto split: option.splits)
  have "backend ?p (outgoing (injected y)) = BackendReply [103] 201 [] ''ok''" by simp
  then show ?thesis
    using allowed_gets_backend_reply [OF ok(2) y, where complete = True] ok(3) by simp
qed

end
