(* ===== verification/E2e_Backend.thy ===== *)
theory E2e_Backend
  imports Reverse_Proxy Config
begin

text \<open>
  \<^verbatim>\<open>e2e-tests/shared/backend_server.go\<close>: the backend that the end-to-end tests put behind the proxy. Its
  handlers answer with bodies of a requested size, cached per size, and with a declared length that may be
  wrong on purpose. With it go the parts of \<^verbatim>\<open>strconv\<close>, \<^verbatim>\<open>net/url\<close> and the server's response writer that it uses.
\<close>

section \<open>strconv and net/url\<close>

text \<open>\<^verbatim>\<open>strconv.Atoi\<close> (and \<^verbatim>\<open>ParseInt\<close> in base ten): an optional sign, digits, and a value that a 64-bit int holds.\<close>

definition atoi :: "string \<Rightarrow> int option" where
  "atoi s =
     (let (neg, ds) = (case s of
            [] \<Rightarrow> (False, [])
          | c # t \<Rightarrow> if c = CHR ''-'' then (True, t) else if c = CHR ''+'' then (False, t) else (False, s));
          n = (if neg then - int (digits_val ds) else int (digits_val ds))
      in if ds = [] \<or> \<not> list_all is_digit ds then None
         else if n < - (2 ^ 63) \<or> 2 ^ 63 \<le> n then None
         else Some n)"

text \<open>\<^verbatim>\<open>QueryUnescape\<close>, \<^verbatim>\<open>URL.Query\<close> and \<^verbatim>\<open>Values.Get\<close>; entries that cannot be decoded are dropped.\<close>

definition query_unescape :: "string \<Rightarrow> string option" where
  [go_lib]: "query_unescape s = percent_decode (replace_all s (CHR ''+'') (CHR '' ''))"

fun query_entries :: "string list \<Rightarrow> (string \<times> string) list" where
  "query_entries [] = []"
| "query_entries (e # es) =
     (if CHR '';'' \<in> set e \<or> e = [] then query_entries es
      else (let (k, v) = cut (CHR ''='') e in
        case (query_unescape k, query_unescape v) of
          (Some k', Some v') \<Rightarrow> (k', v') # query_entries es
        | _ \<Rightarrow> query_entries es))"

definition query_Get :: "string \<Rightarrow> string \<Rightarrow> string" where
  "query_Get rawQuery key =
     (case map_of (query_entries (split_on (CHR ''&'') rawQuery)) key of Some v \<Rightarrow> v | None \<Rightarrow> [])"

section \<open>bodyCache\<close>

record bodyCache =
  bc_base :: string
  bc_cache :: "(int, string) gomap"

definition newBodyCache :: "string \<Rightarrow> bodyCache" where
  "newBodyCache base = \<lparr>bc_base = base, bc_cache = []\<rparr>"

text \<open>\<^verbatim>\<open>get\<close>; slicing with a negative bound panics.\<close>

definition body_get :: "bodyCache \<Rightarrow> int \<Rightarrow> (bodyCache \<times> string) outcome" where
  "body_get bc n =
     (case map_of (bc_cache bc) n of
        Some s \<Rightarrow> Done (bc, s)
      | None \<Rightarrow>
          if n < 0 then Panic ''slice bounds out of range''
          else
           (let s = (if int (length (bc_base bc)) \<ge> n then take (nat n) (bc_base bc)
                     else bc_base bc @ replicate (nat n - length (bc_base bc)) (CHR ''x''))
            in Done (bc\<lparr>bc_cache := map_put n s (bc_cache bc)\<rparr>, s)))"

section \<open>BackendServer\<close>

record mount =
  mt_status :: int
  mt_body :: string
  mt_cache :: bodyCache

text \<open>The handlers that are registered on the mux: the health check, and what \<^verbatim>\<open>Mount\<close> adds.\<close>

datatype route = HealthRoute | MountRoute mount

declare route.splits [go_split]

record BackendServer =
  bs_URL :: string
  bs_closed :: bool
  bs_mux :: "(string, route) gomap"
  bs_Requests :: "(string, request list) gomap"

text \<open>
  \<^verbatim>\<open>NewBackendServer\<close>: \<open>listen\<close> binds an address, with the address that was bound, or fails. The route
  \<^verbatim>\<open>/health\<close> is there from the start.
\<close>

definition NewBackendServer :: "(string \<Rightarrow> goerror + string) \<Rightarrow> int \<Rightarrow> goerror + BackendServer" where
  "NewBackendServer listen port =
     (let mux = [(''/health'', HealthRoute)] in
      case listen (''127.0.0.1:'' @ itoa port) of
        Inl err \<Rightarrow> Inl (ErrWrap (''BackendServer: listen on port '' @ itoa port) err)
      | Inr addr \<Rightarrow> Inr \<lparr>bs_URL = ''http://'' @ addr, bs_closed = False, bs_mux = mux, bs_Requests = []\<rparr>)"

text \<open>
  \<^verbatim>\<open>Mount\<close>; registering a pattern twice panics. The names are plain path segments: a name with braces, blanks
  or slashes would be a pattern with a meaning of its own.
\<close>

definition e2e_path :: "string \<Rightarrow> string" where
  "e2e_path name = ''/e2e/'' @ name"

definition Mount :: "BackendServer \<Rightarrow> string \<Rightarrow> int \<Rightarrow> string \<Rightarrow> BackendServer outcome" where
  "Mount bs name status body =
     (let path = e2e_path name; bc = newBodyCache body in
      if map_of (bs_mux bs) path \<noteq> None then Panic ''http: multiple registrations''
      else Done (bs\<lparr>bs_mux := map_put path (MountRoute \<lparr>mt_status = status, mt_body = body, mt_cache = bc\<rparr>) (bs_mux bs)\<rparr>))"

definition BackendServer_URL :: "BackendServer \<Rightarrow> string" where
  "BackendServer_URL bs = bs_URL bs"

definition BackendServer_Close :: "BackendServer \<Rightarrow> BackendServer" where
  "BackendServer_Close bs = bs\<lparr>bs_closed := True\<rparr>"

text \<open>
  What the server does with a declared length: an unusable one is dropped with the header, a usable one
  makes it refuse a write that is longer.
\<close>

definition declared_length :: "header \<Rightarrow> nat option" where
  [go_lib]: "declared_length h =
     (case atoi (header_get h ''Content-Length'') of Some n \<Rightarrow> if 0 \<le> n then Some (nat n) else None | None \<Rightarrow> None)"

definition respond :: "writer \<Rightarrow> int \<Rightarrow> string \<Rightarrow> writer outcome" where
  [go_lib]: "respond w status body =
     bind_outcome (WriteHeader w status) (\<lambda>w1.
       case declared_length (rw_header (raw_of w)) of
         None \<Rightarrow> Done (fst (Write (map_header (\<lambda>h. header_del h ''Content-Length'') w1) body))
       | Some n \<Rightarrow> if length body > n then Done w1 else Done (fst (Write w1 body)))"

text \<open>The body that the \<^verbatim>\<open>size\<close> parameter asks for.\<close>

definition sized :: "bodyCache \<Rightarrow> string \<Rightarrow> string \<Rightarrow> (bodyCache \<times> string) outcome" where
  "sized bc sizeStr body =
     (if sizeStr = [] then Done (bc, body)
      else (case atoi sizeStr of
          Some n \<Rightarrow> if n \<ge> 0 then body_get bc n else Done (bc, body)
        | None \<Rightarrow> Done (bc, body)))"

text \<open>The header changes that the \<^verbatim>\<open>cl\<close> parameter asks for.\<close>

definition override_length :: "string \<Rightarrow> header \<Rightarrow> header" where
  "override_length clVal h =
     (if clVal = ''missing'' then header_set (header_del h ''Content-Length'') ''Transfer-Encoding'' ''chunked''
      else if clVal = ''bad'' then header_set h ''Content-Length'' ''notanumber''
      else if clVal = [] then h
      else header_set h ''Content-Length'' clVal)"

text \<open>
  The handler that \<^verbatim>\<open>Mount\<close> registers: the request is recorded, then size and length are applied. The server
  state is the one at the end or at a panic.
\<close>

definition mount_handler :: "BackendServer \<Rightarrow> string \<Rightarrow> mount \<Rightarrow> request \<Rightarrow> writer \<Rightarrow> BackendServer \<times> writer outcome" where
  "mount_handler bs path m r w =
     (let seen = (case map_of (bs_Requests bs) path of None \<Rightarrow> [] | Some rs \<Rightarrow> rs);
          bs1 = bs\<lparr>bs_Requests := map_put path (seen @ [r]) (bs_Requests bs)\<rparr>;
          q = query_Get (r_RawQuery r) in
      case sized (mt_cache m) (q ''size'') (mt_body m) of
        Panic msg \<Rightarrow> (bs1, Panic msg)
      | Done (bc, responseBody) \<Rightarrow>
          (bs1\<lparr>bs_mux := map_put path (MountRoute (m\<lparr>mt_cache := bc\<rparr>)) (bs_mux bs1)\<rparr>,
           respond (map_header (override_length (q ''cl'')) w) (mt_status m) responseBody))"

section \<open>Serving\<close>

text \<open>
  The mux hands a request to the handler registered for its path; \<open>other\<close> is the mux's own answer, a
  redirection to a clean path or not found.
\<close>

definition backend_serve :: "(request \<Rightarrow> writer \<Rightarrow> writer) \<Rightarrow> BackendServer \<Rightarrow> request \<Rightarrow> writer
    \<Rightarrow> BackendServer \<times> writer outcome" where
  "backend_serve other bs r w =
     (case map_of (bs_mux bs) (r_Path r) of
        Some HealthRoute \<Rightarrow> (bs, WriteHeader w 200)
      | Some (MountRoute m) \<Rightarrow> mount_handler bs (r_Path r) m r w
      | None \<Rightarrow> (bs, Done (other r w)))"

text \<open>
  What a client receives: \<open>finish\<close> are the headers as the server completes them. A body shorter than its
  declared length breaks off. A handler that panicked, or a closed server, gives an error.
\<close>

definition wire_reply :: "(request \<Rightarrow> respw \<Rightarrow> header) \<Rightarrow> request \<Rightarrow> respw \<Rightarrow> backend_reply" where
  [go_lib]: "wire_reply finish r w =
     (let status = (case rw_status w of None \<Rightarrow> 200 | Some code \<Rightarrow> code);
          infos = rw_informational w;
          whole = BackendReply infos status (finish r w) in
      if r_Method r = ''HEAD'' \<or> \<not> body_allowed status then whole []
      else (case declared_length (rw_header w) of
          None \<Rightarrow> whole (rw_body w)
        | Some n \<Rightarrow> if length (rw_body w) < n then BackendCut infos status (finish r w) (rw_body w)
                    else whole (rw_body w)))"

definition client_sees :: "(request \<Rightarrow> respw \<Rightarrow> header) \<Rightarrow> request \<Rightarrow> writer outcome \<Rightarrow> backend_reply" where
  [go_lib]: "client_sees finish r res =
     (case res of
        Panic _ \<Rightarrow> BackendError (ErrText ''EOF'')
      | Done w \<Rightarrow> wire_reply finish r (raw_of w))"

definition backend_answer :: "(request \<Rightarrow> respw \<Rightarrow> header) \<Rightarrow> (request \<Rightarrow> writer \<Rightarrow> writer) \<Rightarrow> BackendServer \<Rightarrow> request
    \<Rightarrow> BackendServer \<times> backend_reply" where
  "backend_answer finish other bs r =
     (if bs_closed bs then (bs, BackendError (ErrText ''connection refused''))
      else (let (bs', res) = backend_serve other bs r (Raw new_respw) in (bs', client_sees finish r res)))"

fun backend_run :: "(request \<Rightarrow> respw \<Rightarrow> header) \<Rightarrow> (request \<Rightarrow> writer \<Rightarrow> writer) \<Rightarrow> BackendServer \<Rightarrow> request list
    \<Rightarrow> BackendServer \<times> backend_reply list" where
  "backend_run finish other bs [] = (bs, [])"
| "backend_run finish other bs (r # rs) =
     (let (bs1, a) = backend_answer finish other bs r; (bs2, as) = backend_run finish other bs1 rs in (bs2, a # as))"

section \<open>Lemmas\<close>

text \<open>The body of a given size, without a cache.\<close>

definition body_of_size :: "string \<Rightarrow> nat \<Rightarrow> string" where
  "body_of_size base n = take n (base @ replicate n (CHR ''x''))"

lemma length_body_of_size [simp]: "length (body_of_size base n) = n"
  by (simp add: body_of_size_def)

text \<open>Every cached body is the one that would be built.\<close>

definition cache_ok :: "bodyCache \<Rightarrow> bool" where
  "cache_ok bc \<longleftrightarrow> (\<forall>n s. map_of (bc_cache bc) n = Some s \<longrightarrow> 0 \<le> n \<and> s = body_of_size (bc_base bc) (nat n))"

lemma cache_ok_new [simp]: "cache_ok (newBodyCache base)"
  by (simp add: cache_ok_def newBodyCache_def)

lemma bc_base_new [simp]: "bc_base (newBodyCache base) = base"
  by (simp add: newBodyCache_def)

lemma body_built:
  "0 \<le> n \<Longrightarrow> (if int (length base) \<ge> n then take (nat n) base
     else base @ replicate (nat n - length base) (CHR ''x'')) = body_of_size base (nat n)"
  by (auto simp: body_of_size_def)

lemma body_get_ok:
  assumes "cache_ok bc" and "0 \<le> n"
  obtains bc' where "body_get bc n = Done (bc', body_of_size (bc_base bc) (nat n))" and "cache_ok bc'"
    and "bc_base bc' = bc_base bc"
proof (cases "map_of (bc_cache bc) n")
  case None
  let ?s = "body_of_size (bc_base bc) (nat n)"
  have "body_get bc n = Done (bc\<lparr>bc_cache := map_put n ?s (bc_cache bc)\<rparr>, ?s)"
    using None assms(2) body_built [of n "bc_base bc"] by (simp add: body_get_def Let_def)
  moreover have "cache_ok (bc\<lparr>bc_cache := map_put n ?s (bc_cache bc)\<rparr>)"
    using assms by (auto simp: cache_ok_def)
  ultimately show ?thesis using that by simp
next
  case (Some s)
  with assms(1) have "s = body_of_size (bc_base bc) (nat n)" unfolding cache_ok_def by blast
  with Some assms(1) that show ?thesis by (simp add: body_get_def)
qed

text \<open>A sequence of calls, with the results in order.\<close>

fun body_gets :: "bodyCache \<Rightarrow> int list \<Rightarrow> (bodyCache \<times> string list) outcome" where
  "body_gets bc [] = Done (bc, [])"
| "body_gets bc (n # ns) =
     bind_outcome (body_get bc n) (\<lambda>(bc1, s). bind_outcome (body_gets bc1 ns) (\<lambda>(bc2, ss). Done (bc2, s # ss)))"

lemma body_gets_ok:
  "cache_ok bc \<Longrightarrow> list_all (\<lambda>n. 0 \<le> n) ns \<Longrightarrow>
    \<exists>bc'. body_gets bc ns = Done (bc', map (\<lambda>n. body_of_size (bc_base bc) (nat n)) ns)"
proof (induction ns arbitrary: bc)
  case (Cons n ns)
  then obtain bc1 where bc1: "body_get bc n = Done (bc1, body_of_size (bc_base bc) (nat n))" "cache_ok bc1"
    "bc_base bc1 = bc_base bc" using body_get_ok [of bc n] by auto
  with Cons show ?case by fastforce
qed simp

lemma nat_digits_no_sign: "nat_digits n = c # t \<Longrightarrow> c \<noteq> CHR ''-'' \<and> c \<noteq> CHR ''+''"
  using nat_digits_chars [of c n] by auto

lemma atoi_nat_digits: "atoi (nat_digits n) = (if n < 2 ^ 63 then Some (int n) else None)"
proof -
  obtain c t where ct: "nat_digits n = c # t" by (cases "nat_digits n") auto
  have "list_all is_digit (c # t)" using list_all_nat_digits [of n] ct by simp
  moreover have "digits_val (c # t) = n" using digits_val_nat_digits [of n] ct by simp
  moreover have "int n < 2 ^ 63 \<longleftrightarrow> n < 2 ^ 63" by (metis of_nat_less_iff of_nat_numeral of_nat_power)
  ultimately show ?thesis
    using nat_digits_no_sign [OF ct] by (auto simp: atoi_def ct Let_def)
qed

lemma percent_decode_id: "CHR ''%'' \<notin> set s \<Longrightarrow> percent_decode s = Some s"
  by (induction s) auto

lemma query_unescape_plain: "set s \<inter> {CHR ''%'', CHR ''+''} = {} \<Longrightarrow> query_unescape s = Some s"
proof -
  assume s: "set s \<inter> {CHR ''%'', CHR ''+''} = {}"
  then have "replace_all s (CHR ''+'') (CHR '' '') = s" by (induction s) (auto simp: replace_all_def)
  with s show ?thesis by (simp add: query_unescape_def percent_decode_id)
qed

lemma query_Get_single:
  assumes "set k \<inter> {CHR ''%'', CHR ''+'', CHR ''&'', CHR '';'', CHR ''=''} = {}"
    and "set v \<inter> {CHR ''%'', CHR ''+'', CHR ''&'', CHR '';''} = {}"
  shows "query_Get (k @ ''='' @ v) key = (if key = k then v else [])"
proof -
  have "split_on (CHR ''&'') (k @ ''='' @ v) = [k @ ''='' @ v]"
    using assms by (intro split_on_id) auto
  moreover have "cut (CHR ''='') (k @ ''='' @ v) = (k, v)"
  proof -
    have "x \<in> set k \<Longrightarrow> x \<noteq> CHR ''=''" for x using assms(1) by auto
    then show ?thesis by (simp add: cut_def takeWhile_append2 dropWhile_append2)
  qed
  moreover have "query_unescape k = Some k" "query_unescape v = Some v"
    using assms by (auto intro!: query_unescape_plain)
  ultimately show ?thesis using assms by (auto simp: query_Get_def)
qed

lemma query_Get_number:
  assumes "set k \<inter> {CHR ''%'', CHR ''+'', CHR ''&'', CHR '';'', CHR ''=''} = {}"
  shows "query_Get (k @ ''='' @ itoa (int n)) key = (if key = k then nat_digits n else [])"
proof -
  have "set (nat_digits n) \<inter> {CHR ''%'', CHR ''+'', CHR ''&'', CHR '';''} = {}"
    using nat_digits_chars [of _ n] by fastforce
  from query_Get_single [OF assms this, of key] show ?thesis by (simp add: itoa_def)
qed

lemma nat_digits_plain: "nat_digits n \<noteq> ''missing'' \<and> nat_digits n \<noteq> ''bad''"
  using nat_digits_chars [of "hd (nat_digits n)" n] by (auto simp: nat_digits_not_Nil hd_in_set)

section \<open>The server without its caches\<close>

text \<open>
  The reference: what a client receives as a function of the mounted endpoints and the request alone. The
  table gives the status and the body of a mounted endpoint, and none for the health check.
\<close>

type_synonym endpoints = "string \<Rightarrow> (int \<times> string) option option"

definition spec_body :: "string \<Rightarrow> string \<Rightarrow> string" where
  "spec_body base sizeStr =
     (case atoi sizeStr of Some n \<Rightarrow> if 0 \<le> n then body_of_size base (nat n) else base | None \<Rightarrow> base)"

definition mount_spec :: "int \<Rightarrow> string \<Rightarrow> request \<Rightarrow> writer outcome" where
  "mount_spec status body r =
     respond (map_header (override_length (query_Get (r_RawQuery r) ''cl'')) (Raw new_respw)) status
       (spec_body body (query_Get (r_RawQuery r) ''size''))"

definition answer_spec :: "(request \<Rightarrow> respw \<Rightarrow> header) \<Rightarrow> (request \<Rightarrow> writer \<Rightarrow> writer) \<Rightarrow> endpoints \<Rightarrow> request \<Rightarrow> backend_reply" where
  "answer_spec finish other table r = client_sees finish r
     (case table (r_Path r) of
        None \<Rightarrow> Done (other r (Raw new_respw))
      | Some None \<Rightarrow> WriteHeader (Raw new_respw) 200
      | Some (Some (status, body)) \<Rightarrow> mount_spec status body r)"

definition endpoint_of :: "route \<Rightarrow> (int \<times> string) option" where
  "endpoint_of rt = (case rt of HealthRoute \<Rightarrow> None | MountRoute m \<Rightarrow> Some (mt_status m, mt_body m))"

definition endpoints_of :: "BackendServer \<Rightarrow> endpoints" where
  "endpoints_of bs = (\<lambda>p. map_option endpoint_of (map_of (bs_mux bs) p))"

definition recorded :: "BackendServer \<Rightarrow> string \<Rightarrow> request list" where
  "recorded bs path = (case map_of (bs_Requests bs) path of None \<Rightarrow> [] | Some rs \<Rightarrow> rs)"

definition backend_ok :: "BackendServer \<Rightarrow> bool" where
  "backend_ok bs \<longleftrightarrow> \<not> bs_closed bs \<and>
     (\<forall>p m. map_of (bs_mux bs) p = Some (MountRoute m) \<longrightarrow> cache_ok (mt_cache m) \<and> bc_base (mt_cache m) = mt_body m)"

definition mounted :: "BackendServer \<Rightarrow> string \<Rightarrow> bool" where
  "mounted bs p \<longleftrightarrow> (\<exists>sb. endpoints_of bs p = Some (Some sb))"

lemma atoi_Nil [simp]: "atoi [] = None"
  by (simp add: atoi_def)

lemma sized_ok:
  assumes "cache_ok bc" and "bc_base bc = body"
  obtains bc' where "sized bc sizeStr body = Done (bc', spec_body body sizeStr)" and "cache_ok bc'"
    and "bc_base bc' = body"
proof (cases "\<exists>n. atoi sizeStr = Some n \<and> 0 \<le> n")
  case True
  then obtain n where "atoi sizeStr = Some n" "0 \<le> n" by blast
  with assms that show ?thesis
    by (cases "sizeStr = []") (auto simp: sized_def spec_body_def elim: body_get_ok [of bc n])
next
  case False
  with assms that [of bc] show ?thesis by (auto simp: sized_def spec_body_def split: option.splits)
qed

lemma mount_handler_ok:
  assumes "backend_ok bs" and "map_of (bs_mux bs) p = Some (MountRoute m)"
  obtains bs' where "mount_handler bs p m r (Raw new_respw) = (bs', mount_spec (mt_status m) (mt_body m) r)"
    and "backend_ok bs'" and "endpoints_of bs' = endpoints_of bs"
    and "\<And>q. recorded bs' q = recorded bs q @ (if q = p then [r] else [])"
proof -
  have "cache_ok (mt_cache m)" "bc_base (mt_cache m) = mt_body m" using assms by (auto simp: backend_ok_def)
  from sized_ok [OF this] obtain bc where
    bc: "sized (mt_cache m) (query_Get (r_RawQuery r) ''size'') (mt_body m) =
          Done (bc, spec_body (mt_body m) (query_Get (r_RawQuery r) ''size''))"
      "cache_ok bc" "bc_base bc = mt_body m" by blast
  let ?bs = "bs\<lparr>bs_Requests := map_put p (recorded bs p @ [r]) (bs_Requests bs),
      bs_mux := map_put p (MountRoute (m\<lparr>mt_cache := bc\<rparr>)) (bs_mux bs)\<rparr>"
  show ?thesis
  proof (rule that)
    show "mount_handler bs p m r (Raw new_respw) = (?bs, mount_spec (mt_status m) (mt_body m) r)"
      using bc(1) by (simp add: mount_handler_def mount_spec_def recorded_def Let_def)
    show "backend_ok ?bs" using assms bc(2,3) by (auto simp: backend_ok_def)
    show "endpoints_of ?bs = endpoints_of bs"
      using assms(2) by (auto simp: endpoints_of_def endpoint_of_def fun_eq_iff)
    show "recorded ?bs q = recorded bs q @ (if q = p then [r] else [])" for q
      by (simp add: recorded_def)
  qed
qed

lemma backend_answer_ok:
  assumes "backend_ok bs"
  obtains bs' where "backend_answer finish other bs r = (bs', answer_spec finish other (endpoints_of bs) r)"
    and "backend_ok bs'" and "endpoints_of bs' = endpoints_of bs"
    and "\<And>p. recorded bs' p = recorded bs p @ (if p = r_Path r \<and> mounted bs p then [r] else [])"
proof (cases "\<exists>m. map_of (bs_mux bs) (r_Path r) = Some (MountRoute m)")
  case True
  then obtain m where m: "map_of (bs_mux bs) (r_Path r) = Some (MountRoute m)" by blast
  then have "mounted bs (r_Path r)" by (simp add: mounted_def endpoints_of_def endpoint_of_def)
  moreover obtain bs' where bs': "mount_handler bs (r_Path r) m r (Raw new_respw) = (bs', mount_spec (mt_status m) (mt_body m) r)"
    "backend_ok bs'" "endpoints_of bs' = endpoints_of bs"
    "\<And>q. recorded bs' q = recorded bs q @ (if q = r_Path r then [r] else [])"
    using mount_handler_ok [OF assms m, of r] by blast
  moreover have "backend_answer finish other bs r = (bs', answer_spec finish other (endpoints_of bs) r)"
    using m bs'(1) assms
    by (simp add: backend_answer_def backend_serve_def answer_spec_def endpoints_of_def endpoint_of_def backend_ok_def)
  ultimately show ?thesis using that [of bs'] by auto
next
  case False
  then have "\<not> mounted bs (r_Path r)"
    by (auto simp: mounted_def endpoints_of_def endpoint_of_def split: route.splits)
  with False assms that [of bs] show ?thesis
    by (cases "map_of (bs_mux bs) (r_Path r)")
      (auto simp: backend_answer_def backend_serve_def answer_spec_def endpoints_of_def endpoint_of_def backend_ok_def
        split: route.splits)
qed

lemma backend_run_ok:
  assumes "backend_ok bs"
  shows "\<exists>bs'. backend_run finish other bs rs = (bs', map (answer_spec finish other (endpoints_of bs)) rs) \<and>
    backend_ok bs' \<and> endpoints_of bs' = endpoints_of bs \<and>
    (\<forall>p. mounted bs p \<longrightarrow> recorded bs' p = recorded bs p @ filter (\<lambda>r. r_Path r = p) rs)"
  using assms
proof (induction rs arbitrary: bs)
  case (Cons r rs)
  obtain bs1 where bs1: "backend_answer finish other bs r = (bs1, answer_spec finish other (endpoints_of bs) r)"
    "backend_ok bs1" "endpoints_of bs1 = endpoints_of bs"
    "\<And>p. recorded bs1 p = recorded bs p @ (if p = r_Path r \<and> mounted bs p then [r] else [])"
    using backend_answer_ok [OF Cons.prems] by blast
  have "mounted bs1 = mounted bs" using bs1(3) by (simp add: mounted_def fun_eq_iff)
  with Cons.IH [OF bs1(2)] bs1 show ?case by (auto simp: Let_def)
qed simp

lemma plain_respond:
  assumes "r_Method r \<noteq> ''HEAD''" and "200 \<le> status" and "status \<le> 999" and "body_allowed status"
  shows "\<exists>h. client_sees finish r (respond (Raw new_respw) status body) = BackendReply [] status h body"
  using assms
  by (auto simp: client_sees_def respond_def wire_reply_def declared_length_def header_get_def header_values_def header_del_def
      new_respw_def rw_write_header_def rw_write_def Let_def)

lemma declared_respond:
  assumes "n < 2 ^ 63" and "r_Method r \<noteq> ''HEAD''" and "200 \<le> status" and "status \<le> 999" and "body_allowed status"
  shows "\<exists>h. client_sees finish r
      (respond (map_header (\<lambda>h. header_set h ''Content-Length'' (nat_digits n)) (Raw new_respw)) status body) =
    (if length body = n then BackendReply [] status h body
     else if length body < n then BackendCut [] status h body
     else if n = 0 then BackendReply [] status h [] else BackendCut [] status h [])"
proof -
  have "declared_length (header_set [] ''Content-Length'' (nat_digits n)) = Some n"
    using assms(1) by (simp add: declared_length_def header_get_def header_values_def header_set_def atoi_nat_digits)
  with assms(2-5) show ?thesis
    by (auto simp: client_sees_def respond_def wire_reply_def new_respw_def rw_write_header_def rw_write_def Let_def)
qed

text \<open>The answers to a request without parameters, and with a size.\<close>

lemma query_Get_Nil [simp]: "query_Get [] key = []"
  by (simp add: query_Get_def)

lemma plain_answer:
  assumes "table (r_Path r) = Some (Some (status, body))" and "r_RawQuery r = []"
    and "r_Method r \<noteq> ''HEAD''" and "200 \<le> status" and "status \<le> 999" and "body_allowed status"
  shows "\<exists>h. answer_spec finish other table r = BackendReply [] status h body"
  using assms(1,2) plain_respond [OF assms(3-6)]
  by (simp add: answer_spec_def mount_spec_def spec_body_def override_length_def)

lemma sized_answer:
  assumes "table (r_Path r) = Some (Some (status, body))" and "r_RawQuery r = ''size='' @ itoa (int n)"
    and "r_Method r \<noteq> ''HEAD''" and "200 \<le> status" and "status \<le> 999" and "body_allowed status"
  shows "\<exists>h. answer_spec finish other table r =
    BackendReply [] status h (if n < 2 ^ 63 then take n (body @ replicate n (CHR ''x'')) else body)"
proof -
  have q: "query_Get (r_RawQuery r) key = (if key = ''size'' then nat_digits n else [])" for key
    using query_Get_number [of "''size''" n key] assms(2) by simp
  show ?thesis
    using assms(1) plain_respond [OF assms(3-6)]
    by (simp add: answer_spec_def mount_spec_def q spec_body_def atoi_nat_digits override_length_def body_of_size_def)
qed

text \<open>Several mounts, one after the other.\<close>

fun mount_all :: "BackendServer \<Rightarrow> (string \<times> int \<times> string) list \<Rightarrow> BackendServer outcome" where
  "mount_all bs [] = Done bs"
| "mount_all bs ((name, status, body) # ms) = bind_outcome (Mount bs name status body) (\<lambda>bs1. mount_all bs1 ms)"

definition table_of :: "(string \<times> int \<times> string) list \<Rightarrow> endpoints" where
  "table_of ms = (\<lambda>p. if p = ''/health'' then Some None else map_of (map (\<lambda>(n, sb). (e2e_path n, Some sb)) ms) p)"

lemma e2e_path_simps [simp]: "e2e_path n = e2e_path n' \<longleftrightarrow> n = n'" "e2e_path n \<noteq> ''/health''" "''/health'' \<noteq> e2e_path n"
  by (simp_all add: e2e_path_def)

lemma table_of_mounted:
  assumes "distinct (map fst ms)" and "(n, sb) \<in> set ms"
  shows "table_of ms (e2e_path n) = Some (Some sb)"
proof -
  let ?t = "map (\<lambda>(n, sb). (e2e_path n, Some sb)) ms"
  have "map fst ?t = map e2e_path (map fst ms)" by (simp add: case_prod_beta)
  then have "distinct (map fst ?t)" using assms(1) by (auto simp: distinct_map inj_on_def)
  moreover have "(e2e_path n, Some sb) \<in> set ?t" using assms(2) by force
  ultimately show ?thesis by (simp add: table_of_def)
qed

lemma Mount_new:
  assumes "backend_ok bs" and "endpoints_of bs (e2e_path n) = None"
  shows "\<exists>bs'. Mount bs n status body = Done bs' \<and> backend_ok bs' \<and> bs_Requests bs' = bs_Requests bs \<and>
    endpoints_of bs' = (endpoints_of bs)(e2e_path n \<mapsto> Some (status, body))"
proof -
  have "map_of (bs_mux bs) (e2e_path n) = None" using assms(2) by (simp add: endpoints_of_def)
  with assms(1) show ?thesis
    by (auto simp: Mount_def Let_def backend_ok_def endpoints_of_def endpoint_of_def fun_eq_iff)
qed

lemma mount_all_ok:
  assumes "backend_ok bs" and "distinct (map fst ms)" and "\<forall>n \<in> fst ` set ms. endpoints_of bs (e2e_path n) = None"
  shows "\<exists>bs'. mount_all bs ms = Done bs' \<and> backend_ok bs' \<and> bs_Requests bs' = bs_Requests bs \<and>
    endpoints_of bs' = (endpoints_of bs) ++ map_of (map (\<lambda>(n, sb). (e2e_path n, Some sb)) ms)"
  using assms
proof (induction ms arbitrary: bs)
  case (Cons m ms)
  obtain n status body where m: "m = (n, status, body)" by (cases m)
  obtain bs1 where bs1: "Mount bs n status body = Done bs1" "backend_ok bs1" "bs_Requests bs1 = bs_Requests bs"
    "endpoints_of bs1 = (endpoints_of bs)(e2e_path n \<mapsto> Some (status, body))"
    using Mount_new [OF Cons.prems(1), of n status body] Cons.prems(3) m by auto
  have fresh: "\<forall>k \<in> fst ` set ms. endpoints_of bs1 (e2e_path k) = None"
    using Cons.prems(2,3) m bs1(4) by auto
  have new: "map_of (map (\<lambda>(n, sb). (e2e_path n, Some sb)) ms) (e2e_path n) = None"
    using Cons.prems(2) m by (force simp: map_of_eq_None_iff)
  from Cons.IH [OF bs1(2) _ fresh] Cons.prems(2) m bs1 new show ?case
    by (auto simp: map_add_def fun_eq_iff)
qed simp

lemma started_backend:
  assumes "NewBackendServer listen port = Inr bs0" and "distinct (map fst ms)"
  shows "\<exists>bs. mount_all bs0 ms = Done bs \<and> backend_ok bs \<and> bs_Requests bs = [] \<and> endpoints_of bs = table_of ms"
proof -
  have bs0: "backend_ok bs0" "endpoints_of bs0 = [''/health'' \<mapsto> None]" "bs_Requests bs0 = []"
    using assms(1)
    by (auto simp: NewBackendServer_def backend_ok_def endpoints_of_def endpoint_of_def fun_eq_iff Let_def
        split: sum.splits if_splits)
  then obtain bs where bs: "mount_all bs0 ms = Done bs" "backend_ok bs" "bs_Requests bs = []"
    "endpoints_of bs = [''/health'' \<mapsto> None] ++ map_of (map (\<lambda>(n, sb). (e2e_path n, Some sb)) ms)"
    using mount_all_ok [OF bs0(1) assms(2)] by auto
  have "map_of (map (\<lambda>(n, sb). (e2e_path n, Some sb)) ms) ''/health'' = None"
    by (auto simp: map_of_eq_None_iff e2e_path_def)
  with bs show ?thesis
    by (auto simp: table_of_def map_add_def fun_eq_iff split: option.splits)
qed

definition plain_get :: request where
  "plain_get = \<lparr>r_Method = ''GET'', r_Path = ''/e2e/a'', r_RawQuery = [], r_ContentLength = 0, r_RemoteIP = None, r_Header = [],
     r_ctxInfo = None, r_ctxBlocked = None\<rparr>"

section \<open>Properties\<close>

text \<open>
  The body cache is transparent. In any sequence of calls with sizes that are not negative, every call
  returns, and gives the base text cut or padded to exactly the size asked for, whatever was asked before.
\<close>

theorem body_cache_transparent:
  assumes "list_all (\<lambda>n. 0 \<le> n) ns"
  shows "\<exists>bc. body_gets (newBodyCache base) ns = Done (bc, map (\<lambda>n. take (nat n) (base @ replicate (nat n) (CHR ''x''))) ns)"
  using body_gets_ok [OF cache_ok_new assms] by (simp add: newBodyCache_def body_of_size_def)

theorem body_cache_transparent_witness:
  "\<exists>bc. body_gets (newBodyCache ''ok'') [1, 4, 1] = Done (bc, [''o'', ''okxx'', ''o''])"
  using body_cache_transparent [of "[1, 4, 1]" "''ok''"] by (simp add: numeral_eq_Suc)

text \<open>
  C27. The end-to-end backend is a function of its mounts. A server that was started and got mounts with
  different names answers any sequence of requests as the reference says, which knows no caches and no
  history: the mounted status, the body cut or padded to the size asked for, the declared length. Under
  every mounted path it has recorded exactly the requests for that path, in order.
\<close>

theorem backend_refines_spec:
  assumes "NewBackendServer listen port = Inr bs0" and "distinct (map fst ms)"
  shows "\<exists>bs. mount_all bs0 ms = Done bs \<and>
    (\<forall>rs. \<exists>bs'. backend_run finish other bs rs = (bs', map (answer_spec finish other (table_of ms)) rs) \<and>
      list_all (\<lambda>(n, _). recorded bs' (e2e_path n) = filter (\<lambda>r. r_Path r = e2e_path n) rs) ms)"
proof -
  obtain bs where bs: "mount_all bs0 ms = Done bs" "backend_ok bs" "bs_Requests bs = []" "endpoints_of bs = table_of ms"
    using started_backend [OF assms] by blast
  have mounted: "mounted bs (e2e_path n)" if "(n, sb) \<in> set ms" for n sb
    using table_of_mounted [OF assms(2) that] by (simp add: mounted_def bs(4))
  have "recorded bs p = []" for p using bs(3) by (simp add: recorded_def)
  with backend_run_ok [OF bs(2), of finish other] bs(1,4) mounted show ?thesis
    by (fastforce simp: list_all_iff)
qed

theorem backend_refines_spec_witness:
  "\<exists>bs bs'. mount_all \<lparr>bs_URL = ''http://127.0.0.1:18204'', bs_closed = False, bs_mux = [(''/health'', HealthRoute)], bs_Requests = []\<rparr>
      [(''a'', 200, ''ok'')] = Done bs \<and>
    backend_run (\<lambda>r w. []) (\<lambda>r w. w) bs [plain_get, plain_get] =
      (bs', map (answer_spec (\<lambda>r w. []) (\<lambda>r w. w) (table_of [(''a'', 200, ''ok'')])) [plain_get, plain_get]) \<and>
    recorded bs' ''/e2e/a'' = [plain_get, plain_get]"
proof -
  have "NewBackendServer (\<lambda>a. Inr ''127.0.0.1:18204'') 18204 =
      Inr \<lparr>bs_URL = ''http://127.0.0.1:18204'', bs_closed = False, bs_mux = [(''/health'', HealthRoute)], bs_Requests = []\<rparr>"
    by (simp add: NewBackendServer_def)
  from backend_refines_spec [OF this, of "[(''a'', 200, ''ok'')]" "\<lambda>r w. []" "\<lambda>r w. w"]
  obtain bs where bs: "mount_all \<lparr>bs_URL = ''http://127.0.0.1:18204'', bs_closed = False, bs_mux = [(''/health'', HealthRoute)], bs_Requests = []\<rparr>
      [(''a'', 200, ''ok'')] = Done bs"
    "\<forall>rs. \<exists>bs'. backend_run (\<lambda>r w. []) (\<lambda>r w. w) bs rs =
      (bs', map (answer_spec (\<lambda>r w. []) (\<lambda>r w. w) (table_of [(''a'', 200, ''ok'')])) rs) \<and>
      list_all (\<lambda>(n, _). recorded bs' (e2e_path n) = filter (\<lambda>r. r_Path r = e2e_path n) rs) [(''a'', 200, ''ok'')]"
    by auto
  from spec [OF bs(2), of "[plain_get, plain_get]"] bs(1) show ?thesis
    by (auto simp: e2e_path_def plain_get_def)
qed

text \<open>
  A declared length that is wrong. With the parameter \<^verbatim>\<open>cl\<close> a mounted endpoint declares the given number of
  bytes. The reply is complete only when that is the length of the body, or nothing is declared; when more
  is declared the reply breaks off after the body, and when less is declared the server refuses the body
  and the reply breaks off at once.
\<close>

theorem declared_length_answer:
  assumes "table (r_Path r) = Some (Some (status, body))" and "r_RawQuery r = ''cl='' @ itoa (int n)" and "n < 2 ^ 63"
    and "r_Method r \<noteq> ''HEAD''" and "200 \<le> status" and "status \<le> 999" and "body_allowed status"
  shows "\<exists>h. answer_spec finish other table r =
    (if length body = n then BackendReply [] status h body
     else if length body < n then BackendCut [] status h body
     else if n = 0 then BackendReply [] status h [] else BackendCut [] status h [])"
proof -
  have q: "query_Get (r_RawQuery r) key = (if key = ''cl'' then nat_digits n else [])" for key
    using query_Get_number [of "''cl''" n key] assms(2) by simp
  have o: "override_length (nat_digits n) h = header_set h ''Content-Length'' (nat_digits n)" for h
    using nat_digits_plain [of n] by (simp add: override_length_def)
  show ?thesis
    using assms(1) declared_respond [OF assms(3-7), of finish body]
    by (simp add: answer_spec_def mount_spec_def q spec_body_def o)
qed

theorem declared_length_answer_witness:
  "\<exists>h. answer_spec (\<lambda>r w. []) (\<lambda>r w. w) (table_of [(''a'', 200, ''ok'')]) (plain_get\<lparr>r_RawQuery := ''cl='' @ itoa (int 5)\<rparr>) =
    BackendCut [] 200 h ''ok''"
proof -
  have "\<exists>h. answer_spec (\<lambda>r w. []) (\<lambda>r w. w) (table_of [(''a'', 200, ''ok'')]) (plain_get\<lparr>r_RawQuery := ''cl='' @ itoa (int 5)\<rparr>) =
    (if length ''ok'' = 5 then BackendReply [] 200 h ''ok''
     else if length ''ok'' < 5 then BackendCut [] 200 h ''ok''
     else if (5 :: nat) = 0 then BackendReply [] 200 h [] else BackendCut [] 200 h [])"
    by (rule declared_length_answer) (simp_all add: plain_get_def body_allowed_def table_of_def e2e_path_def)
  then show ?thesis by simp
qed

end
