(* ===== verification/E2e_Helpers.thy ===== *)
theory E2e_Helpers
  imports E2e_Backend Jwt_Support
begin

text \<open>
  The programs of the end-to-end tests: \<^verbatim>\<open>e2e-tests/noauth/helpers/main.go\<close>, a backend, and
  \<^verbatim>\<open>e2e-tests/jwt/helpers/main.go\<close>, a backend with a server that publishes a well-known document and a key set
  and issues tokens. Each program is what \<^verbatim>\<open>main\<close> does up to the wait for a signal, what its handlers answer
  while it runs, and what it does after the signal. Key generation, JWK and JWT (\<^verbatim>\<open>crypto/rsa\<close>, \<^verbatim>\<open>jwx\<close>) are the
  fields of \<open>signer_env\<close>.
\<close>

section \<open>The helper without authentication\<close>

definition noauth_helper_main :: "(string \<Rightarrow> goerror + string) \<Rightarrow> BackendServer proc" where
  "noauth_helper_main listen =
     (case NewBackendServer listen 18204 of
        Inl err \<Rightarrow> Exited 1
      | Inr backendServer \<Rightarrow>
          (case Mount backendServer ''noauth-allow'' 200 ''ok'' of
             Panic m \<Rightarrow> Crashed m
           | Done bs \<Rightarrow> Running bs))"

text \<open>After the signal: the server at the end, and the exit status.\<close>

definition noauth_helper_stop :: "BackendServer \<Rightarrow> BackendServer \<times> int" where
  "noauth_helper_stop backendServer = (BackendServer_Close backendServer, 0)"

section \<open>The helper with tokens\<close>

definition backendPort :: int where "backendPort = 18304"
definition helperPort :: int where "helperPort = 18305"
definition helperAddr :: string where "helperAddr = ''http://127.0.0.1:18305''"
definition testAudience :: string where "testAudience = ''jwt-e2e-test''"
definition keyID :: string where "keyID = ''jwt-e2e-key-1''"

text \<open>
  A raw key, a JWK and a token are values of the libraries; the errors of \<^verbatim>\<open>Set\<close> and \<^verbatim>\<open>AddKey\<close> are ignored by the
  program, so these give the object afterwards.
\<close>

record ('k, 'j, 't) signer_env =
  rsa_GenerateKey :: "int \<Rightarrow> goerror + 'k"
  PublicKey :: "'k \<Rightarrow> 'k"
  jwk_FromRaw :: "'k \<Rightarrow> goerror + 'j"
  jwk_Set :: "'j \<Rightarrow> string \<Rightarrow> string \<Rightarrow> 'j"
  set_AddKey :: "'j list \<Rightarrow> 'j \<Rightarrow> 'j list"
  json_Marshal :: "'j list \<Rightarrow> goerror + string"
  jwt_New :: 't
  jwt_Set :: "'t \<Rightarrow> string \<Rightarrow> goval \<Rightarrow> 't"
  jwt_Sign :: "'t \<Rightarrow> string \<Rightarrow> 'j \<Rightarrow> goerror + string"

text \<open>The key with its identifier and algorithm.\<close>

definition labelled :: "('k, 'j, 't) signer_env \<Rightarrow> 'j \<Rightarrow> 'j" where
  "labelled env key = jwk_Set env (jwk_Set env key ''kid'' keyID) ''alg'' ''RS256''"

record 'j helper =
  hp_privateJWK :: 'j
  hp_jwksJSON :: string
  hp_backend :: BackendServer
  hp_up :: bool

text \<open>
  \<^verbatim>\<open>main\<close> up to the wait: every failure but one ends the program with status 1. The helper server is started in
  a goroutine, and when its port cannot be bound the program goes on without it.
\<close>

definition jwt_helper_main :: "('k, 'j, 't) signer_env \<Rightarrow> (string \<Rightarrow> goerror + string) \<Rightarrow> 'j helper proc" where
  "jwt_helper_main env listen =
     (case rsa_GenerateKey env 2048 of
        Inl err \<Rightarrow> Exited 1
      | Inr privateKey \<Rightarrow>
     (case jwk_FromRaw env privateKey of
        Inl err \<Rightarrow> Exited 1
      | Inr privateJWK \<Rightarrow>
     (case jwk_FromRaw env (PublicKey env privateKey) of
        Inl err \<Rightarrow> Exited 1
      | Inr publicJWK \<Rightarrow>
     (case json_Marshal env (set_AddKey env [] (labelled env publicJWK)) of
        Inl err \<Rightarrow> Exited 1
      | Inr jwksJSON \<Rightarrow>
     (case NewBackendServer listen backendPort of
        Inl err \<Rightarrow> Exited 1
      | Inr backendServer \<Rightarrow>
     (case Mount backendServer ''jwt-allow'' 200 ''ok'' of
        Panic m \<Rightarrow> Crashed m
      | Done bs \<Rightarrow>
          Running \<lparr>hp_privateJWK = labelled env privateJWK, hp_jwksJSON = jwksJSON, hp_backend = bs,
            hp_up = \<not> isl (listen (''127.0.0.1:'' @ itoa helperPort))\<rparr>))))))"

text \<open>The well-known document, as \<^verbatim>\<open>Fprintf\<close> writes it.\<close>

definition wellknown_text :: string where
  \<open>wellknown_text = ''{'' @ [CHR 0x0A] @
     ''  "issuer": "'' @ helperAddr @ ''",'' @ [CHR 0x0A] @
     ''  "jwks_uri": "'' @ helperAddr @ ''/jwks",'' @ [CHR 0x0A] @
     ''  "id_token_signing_alg_values_supported": ["RS256"]'' @ [CHR 0x0A] @ ''}''\<close>

text \<open>The token of one request; the clock is read twice, in seconds.\<close>

definition e2e_token :: "('k, 'j, 't) signer_env \<Rightarrow> int \<Rightarrow> int \<Rightarrow> 't" where
  "e2e_token env now now' =
     fold (\<lambda>(k, v) tok. jwt_Set env tok k v)
       [(''sub'', VString ''e2e-test-user''),
        (''aud'', VString testAudience),
        (''iss'', VString helperAddr),
        (''iat'', VNum (itoa now)),
        (''exp'', VNum (itoa (now' + 24 * 60 * 60))),
        (''email'', VString ''e2e@example.com''),
        (''roles'', VStrs [''reader''])] (jwt_New env)"

definition write_typed :: "string \<Rightarrow> string \<Rightarrow> writer \<Rightarrow> writer" where
  [go_lib]: "write_typed ctype body w = fst (Write (map_header (\<lambda>h. header_set h ''Content-Type'' ctype) w) body)"

definition token_handler :: "('k, 'j, 't) signer_env \<Rightarrow> 'j helper \<Rightarrow> int \<Rightarrow> int \<Rightarrow> writer \<Rightarrow> writer outcome" where
  "token_handler env hp now now' w =
     (case jwt_Sign env (e2e_token env now now') ''RS256'' (hp_privateJWK hp) of
        Inl err \<Rightarrow> http_error w ''token signing failed'' 500
      | Inr signed \<Rightarrow> Done (write_typed ''text/plain'' signed w))"

text \<open>The mux of the helper server; \<open>other\<close> is its own answer to any other path.\<close>

definition helper_serve :: "('k, 'j, 't) signer_env \<Rightarrow> (request \<Rightarrow> writer \<Rightarrow> writer) \<Rightarrow> 'j helper \<Rightarrow> int \<Rightarrow> int
    \<Rightarrow> request \<Rightarrow> writer \<Rightarrow> writer outcome" where
  "helper_serve env other hp now now' r w =
     (if r_Path r = ''/.well-known/openid-configuration'' then Done (write_typed ''application/json'' wellknown_text w)
      else if r_Path r = ''/jwks'' then Done (write_typed ''application/json'' (hp_jwksJSON hp) w)
      else if r_Path r = ''/token'' then token_handler env hp now now' w
      else Done (other r w))"

text \<open>What a client receives for a GET of a path: status and body, or an error when the server is not up.\<close>

definition helper_get :: "('k, 'j, 't) signer_env \<Rightarrow> (request \<Rightarrow> writer \<Rightarrow> writer) \<Rightarrow> 'j helper \<Rightarrow> int \<Rightarrow> int
    \<Rightarrow> string \<Rightarrow> goerror + int \<times> string" where
  "helper_get env other hp now now' path =
     (if \<not> hp_up hp then Inl (ErrText ''connection refused'')
      else (case helper_serve env other hp now now' \<lparr>r_Method = ''GET'', r_Path = path, r_RawQuery = [], r_ContentLength = 0,
              r_RemoteIP = None, r_Header = [], r_ctxInfo = None, r_ctxBlocked = None\<rparr> (Raw new_respw) of
          Panic m \<Rightarrow> Inl (ErrText ''EOF'')
        | Done w \<Rightarrow> Inr (case rw_status (raw_of w) of None \<Rightarrow> 200 | Some code \<Rightarrow> code, rw_body (raw_of w))))"

text \<open>After the signal both servers are shut down and \<^verbatim>\<open>main\<close> returns.\<close>

definition jwt_helper_stop :: "'j helper \<Rightarrow> 'j helper \<times> int" where
  "jwt_helper_stop hp = (hp\<lparr>hp_up := False, hp_backend := BackendServer_Close (hp_backend hp)\<rparr>, 0)"

section \<open>Lemmas\<close>

lemma write_typed_fresh:
  "raw_of (write_typed ctype body (Raw new_respw)) =
    \<lparr>rw_header = header_set [] ''Content-Type'' ctype, rw_status = Some 200, rw_informational = [], rw_body = body, rw_head = False\<rparr>"
  by (simp add: write_typed_def new_respw_def rw_write_def body_allowed_def Let_def)

lemma helper_get_documents:
  assumes "hp_up hp"
  shows "helper_get env other hp now now' ''/.well-known/openid-configuration'' = Inr (200, wellknown_text)"
    and "helper_get env other hp now now' ''/jwks'' = Inr (200, hp_jwksJSON hp)"
  using assms by (simp_all add: helper_get_def helper_serve_def write_typed_fresh)

lemma helper_get_token:
  assumes "hp_up hp"
  shows "helper_get env other hp now now' ''/token'' =
    (case jwt_Sign env (e2e_token env now now') ''RS256'' (hp_privateJWK hp) of
       Inl _ \<Rightarrow> Inr (500, ''token signing failed'' @ [CHR 0x0A]) | Inr signed \<Rightarrow> Inr (200, signed))"
proof (cases "jwt_Sign env (e2e_token env now now') ''RS256'' (hp_privateJWK hp)")
  case (Inl e)
  have "rw_status (raw_of (Raw new_respw)) = None" "rw_body (raw_of (Raw new_respw)) = []" by (simp_all add: new_respw_def)
  then obtain w where "http_error (Raw new_respw) ''token signing failed'' 500 = Done w" "rw_status (raw_of w) = Some 500"
    "rw_body (raw_of w) = ''token signing failed'' @ [CHR 0x0A]"
    using http_error_fresh [of "Raw new_respw" 500 "''token signing failed''"] by (auto simp: body_allowed_def new_respw_def)
  with Inl assms show ?thesis by (simp add: helper_get_def helper_serve_def token_handler_def)
next
  case (Inr signed)
  with assms show ?thesis by (simp add: helper_get_def helper_serve_def token_handler_def write_typed_fresh)
qed

text \<open>What the program reads out of the published document.\<close>

lemma wellknown_text_loads: "unmarshal_wellknown wellknown_text = Inr (helperAddr @ ''/jwks'', [''RS256''])"
  by code_simp

end
