(* ===== verification/E2e_Scenarios.thy ===== *)
theory E2e_Scenarios
  imports Router_Answers E2e_Helpers No_Auth Rego_Cache
begin

text \<open>
  The end-to-end tests as statements about the whole program: the helper programs of \<open>E2e_Helpers\<close> run, the
  proxy runs with the settings of the task files, and a request of the test scripts goes through the proxy to
  the helper's backend. What the policy files of the tests mean is \<open>noauth_policy\<close> and \<open>jwt_policy\<close>; that the
  policy engine gives this meaning to the files is a hypothesis.
\<close>

section \<open>Requests that can be sent on\<close>

text \<open>
  A header map as the server reads it, without the headers that ask for a connection of another kind, and
  a peer address that can be put into a header.
\<close>

definition plain_headers :: "request \<Rightarrow> bool" where
  "plain_headers r \<longleftrightarrow> header_wf (r_Header r) \<and> transport_accepts (r_Header r) \<and>
     map_of (r_Header r) ''Connection'' = None \<and> map_of (r_Header r) ''Te'' = None \<and>
     (case r_RemoteIP r of None \<Rightarrow> True | Some ip \<Rightarrow> valid_header_value ip)"

lemma transport_accepts_put:
  "transport_accepts h \<Longrightarrow> k \<noteq> [] \<Longrightarrow> list_all valid_header_byte k \<Longrightarrow> list_all valid_header_value vs \<Longrightarrow>
    transport_accepts (map_put k vs h)"
  unfolding transport_accepts_def using map_put_cases [of _ k vs h] by fastforce

lemma transport_accepts_set:
  "transport_accepts h \<Longrightarrow> canonical_key k \<noteq> [] \<Longrightarrow> list_all valid_header_byte (canonical_key k) \<Longrightarrow> valid_header_value v \<Longrightarrow>
    transport_accepts (header_set h k v)"
  unfolding header_set_def by (rule transport_accepts_put) auto

lemma transport_accepts_subset: "transport_accepts h \<Longrightarrow> set h' \<subseteq> set h \<Longrightarrow> transport_accepts h'"
  unfolding transport_accepts_def by blast

lemma set_fold_header_del: "set (fold (\<lambda>f h. header_del h f) fs h) \<subseteq> set h"
proof (induction fs arbitrary: h)
  case (Cons f fs)
  have "set (header_del h f) \<subseteq> set h" by (auto simp: header_del_def AList.delete_eq)
  with Cons [of "header_del h f"] show ?case by simp
qed simp

lemma transport_accepts_hop: "transport_accepts h \<Longrightarrow> transport_accepts (removeHopByHopHeaders h)"
  unfolding removeHopByHopHeaders_def
  by (erule transport_accepts_subset) (rule subset_trans [OF set_fold_header_del set_fold_header_del])

lemma valid_join:
  "list_all valid_header_value vs \<Longrightarrow> valid_header_value sep \<Longrightarrow> valid_header_value (join sep vs)"
  by (induction sep vs rule: join.induct) (auto simp: valid_header_value_def)

lemma header_values_valid: "transport_accepts h \<Longrightarrow> list_all valid_header_value (header_values h k)"
  by (auto simp: header_values_def transport_accepts_def split: option.splits dest: map_of_SomeD)

lemma sendable_plain:
  assumes "plain_headers r"
  shows "sendable r"
proof -
  have none: "header_values (r_Header r) ''Connection'' = []" "header_values (r_Header r) ''Te'' = []"
  proof -
    have "canonical_key ''Connection'' = ''Connection''" "canonical_key ''Te'' = ''Te''" by code_simp+
    with assms show "header_values (r_Header r) ''Connection'' = []" "header_values (r_Header r) ''Te'' = []"
      by (simp_all add: header_values_def plain_headers_def)
  qed
  then have up: "upgradeType (r_Header r) = []" "\<not> contains_token (header_values (r_Header r) ''Te'') ''trailers''"
    by (simp_all add: upgradeType_def contains_token_def)
  have keys: "canonical_key ''X-Forwarded-For'' \<noteq> []" "list_all valid_header_byte (canonical_key ''X-Forwarded-For'')"
    "canonical_key ''User-Agent'' \<noteq> []" "list_all valid_header_byte (canonical_key ''User-Agent'')" by code_simp+
  have hop: "transport_accepts (removeHopByHopHeaders (r_Header r))"
    using assms by (intro transport_accepts_hop) (simp add: plain_headers_def)
  define h3 where "h3 = removeHopByHopHeaders (r_Header r)"
  define h4 where "h4 = (case r_RemoteIP r of
      None \<Rightarrow> h3
    | Some ip \<Rightarrow> header_set h3 ''X-Forwarded-For''
        (case header_values h3 ''X-Forwarded-For'' of [] \<Rightarrow> ip | prior \<Rightarrow> join '', '' prior @ '', '' @ ip))"
  have h4: "transport_accepts h4"
  proof (cases "r_RemoteIP r")
    case (Some ip)
    let ?prior = "header_values h3 ''X-Forwarded-For''"
    have "valid_header_value ip" using assms Some by (simp add: plain_headers_def)
    moreover have sep: "valid_header_value '', ''" by code_simp
    moreover have "valid_header_value (join '', '' ?prior)"
      using header_values_valid [OF hop] sep unfolding h3_def by (rule valid_join)
    ultimately have "valid_header_value (case ?prior of [] \<Rightarrow> ip | _ \<Rightarrow> join '', '' ?prior @ '', '' @ ip)"
      by (auto simp: valid_header_value_def split: list.split)
    with Some keys(1,2) hop show ?thesis
      by (auto simp: h4_def h3_def intro!: transport_accepts_set split: list.splits)
  qed (use hop in \<open>simp add: h4_def h3_def\<close>)
  have "outgoing_header r = (if map_of h4 ''User-Agent'' = None then header_set h4 ''User-Agent'' [] else h4)"
    unfolding outgoing_header_def Let_def h4_def h3_def using up by (simp only: if_False not_True_eq_False simp_thms if_True)
  then have "transport_accepts (outgoing_header r)"
    using h4 keys(3,4) by (auto intro!: transport_accepts_set simp: valid_header_value_def)
  with up show ?thesis by (simp add: sendable_def is_print_def)
qed

section \<open>An allowed request through the proxy\<close>

text \<open>The result of a policy that has the one rule \<^verbatim>\<open>allow\<close>.\<close>

abbreviation allow_only :: "bool \<Rightarrow> goval" where
  "allow_only b \<equiv> VMap [(''allow'', VBool b)]"

lemma authorize_intro:
  assumes "config proxy = Some cfg"
    and "NewInfo (req (cleaned proxy x)) (authKey proxy) (URLMetricsLevel cfg) = Done info"
    and "auth proxy (auth_st x) info (RequestWithInfo info (req (cleaned proxy x))) = Done (p, info', None)"
    and "validator proxy (val_st x) (requestName proxy) info' = Done (v, Inr result)" and "allows result"
  shows "\<exists>y. authorize proxy x = Some y \<and> GetInfo (req y) = Some (rewritten result info') \<and> r_RemoteIP (req y) = r_RemoteIP (req x)"
  using assms
  by (auto simp: authorize_def cleanup_pass_def wrap_pass_def metrics_pass_def auth_pass_def policy_pass_def
      newResponseTracker_def RequestWithInfo_def put_info_def GetInfo_def)

lemma inject_allow:
  assumes "plain_headers r"
  shows "plain_headers (r\<lparr>r_Header := inject_headers [(''allow'', VBool True)] (r_Header r)\<rparr>)"
proof -
  have c: "canonical_key (result_key ''allow'') = ''X-Restrego-Allow''" "list_all valid_header_byte ''X-Restrego-Allow''"
    "header_text (VBool True) = ''true''" "valid_header_value ''true''" by code_simp+
  then have "inject_headers [(''allow'', VBool True)] (r_Header r) = header_set (r_Header r) (result_key ''allow'') ''true''" by simp
  moreover have "transport_accepts (header_set (r_Header r) (result_key ''allow'') ''true'')"
    using assms c by (intro transport_accepts_set) (simp_all add: plain_headers_def)
  moreover have "header_wf (header_set (r_Header r) (result_key ''allow'') ''true'')"
    using assms by (simp add: plain_headers_def)
  ultimately show ?thesis using assms c(1) by (simp add: plain_headers_def header_set_def)
qed

lemma plain_cleaned:
  assumes "plain_headers (req x)"
  shows "plain_headers (req (cleaned proxy x))"
proof -
  let ?h = "r_Header (req x)"
  have "transport_accepts (remove_headers (toClean ?h) ?h)"
    using assms set_fold_header_del
    by (auto simp: remove_headers_fold plain_headers_def intro: transport_accepts_subset)
  with assms show ?thesis
    by (simp add: plain_headers_def header_wf_remove map_of_remove_headers)
qed

text \<open>
  A plain request that authentication lets pass and the policy allows reaches the backend once, with its
  method, path and query, and the client receives what the backend replies.
\<close>

lemma allowed_request_served:
  assumes "fresh x" and "config proxy = Some cfg" and "mux proxy = (\<lambda>r. None)" and "plain_headers (req x)"
    and "has_prefix (r_Path (req x)) ''/''"
    and "NewInfo (req (cleaned proxy x)) (authKey proxy) (URLMetricsLevel cfg) = Done info"
    and "auth proxy (auth_st x) info (RequestWithInfo info (req (cleaned proxy x))) = Done (p, info', None)"
    and "validator proxy (val_st x) (requestName proxy) info' = Done (v, Inr (allow_only True))"
  obtains fr where "forwarded (state_of (serve proxy x)) = forwarded x @ [fr]"
    and "r_Method fr = r_Method (req x)" and "r_Path fr = r_Path (req x)" and "r_RawQuery fr = r_RawQuery (req x)"
    and "\<And>status h body. backend proxy fr = BackendReply [] status h body \<Longrightarrow> 200 \<le> status \<Longrightarrow> status \<le> 999 \<Longrightarrow>
      body_allowed status \<Longrightarrow> \<not> rw_head (raw_of (wr x)) \<Longrightarrow> rw_status (raw_of (wr (state_of (serve proxy x)))) = Some status \<and>
      rw_body (raw_of (wr (state_of (serve proxy x)))) = body"
proof -
  have allows: "allows (allow_only True)" by (simp add: allows_def)
  obtain y where y: "authorize proxy x = Some y" "GetInfo (req y) = Some (rewritten (allow_only True) info')"
    "r_RemoteIP (req y) = r_RemoteIP (req x)"
    using authorize_intro [OF assms(2,6-8) allows] by blast
  then have admit: "admit proxy x = Some y" using assms(3) by (simp add: admit_authorize)
  have req_y: "r_Header (req y) = r_Header (req (cleaned proxy x))" "r_Path (req y) = r_Path (req x)"
    "r_Method (req y) = r_Method (req x)" "r_RawQuery (req y) = r_RawQuery (req x)"
    using y(1) by (auto elim: authorize_Some)
  have "plain_headers (req y)"
    using plain_cleaned [OF assms(4), of proxy] req_y(1) y(3) by (simp add: plain_headers_def)
  moreover have inj: "injected y = (req y)\<lparr>r_Header := inject_headers [(''allow'', VBool True)] (r_Header (req y))\<rparr>"
    using y(2) by (simp add: injected_def)
  ultimately have send: "sendable (injected y)" using inject_allow sendable_plain by simp
  show ?thesis
  proof (rule that [of "outgoing (injected y)"])
    show "forwarded (state_of (serve proxy x)) = forwarded x @ [outgoing (injected y)]"
      using admit send by (simp add: serve_forwards_admit)
    show "r_Method (outgoing (injected y)) = r_Method (req x)" "r_RawQuery (outgoing (injected y)) = r_RawQuery (req x)"
      using req_y by (simp_all add: outgoing_def inj)
    show "r_Path (outgoing (injected y)) = r_Path (req x)" using req_y assms(5) by (simp add: outgoing_def inj)
    fix status h body
    assume "backend proxy (outgoing (injected y)) = BackendReply [] status h body" "200 \<le> status" "status \<le> 999" "body_allowed status"
      "\<not> rw_head (raw_of (wr x))"
    then show "rw_status (raw_of (wr (state_of (serve proxy x)))) = Some status \<and>
        rw_body (raw_of (wr (state_of (serve proxy x)))) = body"
      using admitted_reply [OF assms(1) admit send, where complete = True and infos = "[]"] by simp
  qed
qed

section \<open>The policies and settings of the tests\<close>

text \<open>\<^verbatim>\<open>e2e-tests/noauth/policies/request.rego\<close>: the last element of the path ends in \<^verbatim>\<open>-allow\<close>.\<close>

definition noauth_policy :: "Info \<Rightarrow> bool" where
  "noauth_policy i \<longleftrightarrow> ri_Path (Request i) \<noteq> [] \<and> suffix ''-allow'' (last (ri_Path (Request i)))"

text \<open>
  \<^verbatim>\<open>e2e-tests/jwt/policies/request.rego\<close>: the subject is there and is not the empty text, and one of the
  elements of the audience is the one of the tests.
\<close>

definition elements :: "goval \<Rightarrow> goval list" where
  "elements v = (case v of VStrs ss \<Rightarrow> map VString ss | VList vs \<Rightarrow> vs | VMap m \<Rightarrow> map snd m | _ \<Rightarrow> [])"

definition jwt_policy :: "Info \<Rightarrow> bool" where
  "jwt_policy i =
     (case JWT i of
        VMap claims \<Rightarrow>
          (case map_of claims ''sub'' of None \<Rightarrow> False | Some sub \<Rightarrow> sub \<noteq> VString []) \<and>
          (case map_of claims ''aud'' of None \<Rightarrow> False | Some aud \<Rightarrow> VString ''jwt-e2e-test'' \<in> set (elements aud))
      | _ \<Rightarrow> False)"

text \<open>The settings of the two task files.\<close>

definition noauth_settings :: Fields where
  "noauth_settings = default_Fields\<lparr>NoAuth := True, BackendHost := ''127.0.0.1'', BackendPort := 18204, ListenAddr := '':18201'',
     MgmtAddr := '':18203'', PolicyDir := ''e2e-tests/noauth/policies''\<rparr>"

definition jwt_settings :: Fields where
  "jwt_settings = default_Fields\<lparr>WellKnownURL := [''http://127.0.0.1:18305/.well-known/openid-configuration''],
     Audiences := [''jwt-e2e-test''], BackendHost := ''127.0.0.1'', BackendPort := 18304, ListenAddr := '':18301'',
     MgmtAddr := '':18303'', PolicyDir := ''e2e-tests/jwt/policies''\<rparr>"

text \<open>The network: one server that answers, at one address.\<close>

definition reachable_at :: "string \<Rightarrow> (request \<Rightarrow> backend_reply) \<Rightarrow> string \<Rightarrow> (request \<Rightarrow> backend_reply) option" where
  "reachable_at addr answer url = Some (if url = addr then answer else (\<lambda>r. BackendError (ErrText ''connection refused'')))"

text \<open>The query of the test scripts: none, or a response size.\<close>

definition size_query :: "nat option \<Rightarrow> string" where
  "size_query sz = (case sz of None \<Rightarrow> [] | Some n \<Rightarrow> ''size='' @ itoa (int n))"

definition sized_ok_body :: "nat option \<Rightarrow> string" where
  "sized_ok_body sz = (case sz of None \<Rightarrow> ''ok'' | Some n \<Rightarrow> take n (''ok'' @ replicate n (CHR ''x'')))"

text \<open>A request of the test scripts, before anything was answered.\<close>

definition script_request :: "string \<Rightarrow> string list option \<Rightarrow> nat option \<Rightarrow> ('p, 'v) exchange \<Rightarrow> bool" where
  "script_request path credentials sz x \<longleftrightarrow> fresh x \<and> \<not> rw_head (raw_of (wr x)) \<and> plain_headers (req x) \<and>
     map_of (r_Header (req x)) ''Authorization'' = credentials \<and> r_Method (req x) = ''GET'' \<and> r_Path (req x) = path \<and>
     r_RawQuery (req x) = size_query sz \<and> (case sz of None \<Rightarrow> True | Some n \<Rightarrow> n < 2 ^ 63)"

section \<open>Lemmas on the scenarios\<close>

text \<open>Whatever was asked before, the backend answers a request of the test scripts with the body it asks for.\<close>

lemma backend_after_run:
  assumes "NewBackendServer listen port = Inr bs0" and "Mount bs0 name 200 ''ok'' = Done bs"
    and "r_Method r = ''GET''" and "r_Path r = e2e_path name" and "r_RawQuery r = size_query sz"
    and "case sz of None \<Rightarrow> True | Some n \<Rightarrow> n < 2 ^ 63"
  shows "\<exists>h. snd (backend_answer finish other (fst (backend_run finish other bs rs)) r) = BackendReply [] 200 h (sized_ok_body sz)"
proof -
  have "mount_all bs0 [(name, 200, ''ok'')] = Done bs" using assms(2) by simp
  with started_backend [OF assms(1), of "[(name, 200, ''ok'')]"]
  have bs: "backend_ok bs" "endpoints_of bs = table_of [(name, 200, ''ok'')]" by auto
  let ?bs = "fst (backend_run finish other bs rs)"
  have run: "backend_ok ?bs" "endpoints_of ?bs = table_of [(name, 200, ''ok'')]"
    using backend_run_ok [OF bs(1), of finish other rs] bs(2) by auto
  obtain bs' where "backend_answer finish other ?bs r = (bs', answer_spec finish other (table_of [(name, 200, ''ok'')]) r)"
    using backend_answer_ok [OF run(1)] run(2) by metis
  moreover have table: "table_of [(name, 200, ''ok'')] (r_Path r) = Some (Some (200, ''ok''))"
    using table_of_mounted [of "[(name, 200, ''ok'')]" name] assms(4) by simp
  moreover have answer: "\<exists>h. answer_spec finish other (table_of [(name, 200, ''ok'')]) r = BackendReply [] 200 h (sized_ok_body sz)"
  proof (cases sz)
    case None
    then show ?thesis using assms(3,5) table
      by (simp add: plain_answer [where status = 200] sized_ok_body_def size_query_def body_allowed_def)
  next
    case (Some n)
    have "\<exists>h. answer_spec finish other (table_of [(name, 200, ''ok'')]) r =
        BackendReply [] 200 h (if n < 2 ^ 63 then take n (''ok'' @ replicate n (CHR ''x'')) else ''ok'')"
      by (rule sized_answer) (use assms(3,5) Some table in \<open>simp_all add: size_query_def body_allowed_def\<close>)
    then show ?thesis using assms(6) unfolding Some by (simp only: if_True sized_ok_body_def option.case)
  qed
  ultimately show ?thesis
    using answer by simp
qed

lemma itoa_ports: "itoa 18204 = ''18204''" "itoa 18304 = ''18304''" "itoa 18305 = ''18305''"
proof -
  have "digit_char 0 = CHR ''0''" "digit_char 1 = CHR ''1''" "digit_char 2 = CHR ''2''" "digit_char 3 = CHR ''3''"
    "digit_char 4 = CHR ''4''" "digit_char 5 = CHR ''5''" "digit_char 8 = CHR ''8''" by code_simp+
  then show "itoa 18204 = ''18204''" "itoa 18304 = ''18304''" "itoa 18305 = ''18305''"
    by (simp_all add: itoa_def nat_digits.simps [of "numeral n" for n] nat_digits.simps [of "Suc 0"])
qed

lemma e2e_router:
  assumes "BackendScheme cfg @ ''://'' @ BackendHost cfg @ '':'' @ itoa (BackendPort cfg) = addr"
    and "router_New (reachable_at addr answer) (\<lambda>r. None) a chal val cfg = Some proxy"
  shows "config proxy = Some cfg" and "mux proxy = (\<lambda>r. None)" and "authKey proxy = AuthHeader cfg" and "auth proxy = a"
    and "validator proxy = val" and "requestName proxy = RequestRego cfg" and "backend proxy = answer"
  using assms by (auto simp: router_New_def reachable_at_def Let_def)

lemma cleaned_authorization:
  assumes "header_wf h"
  shows "map_of (remove_headers (toClean h) h) ''Authorization'' = map_of h ''Authorization''"
  using map_of_cleaned [OF assms, of "''Authorization''"] by (simp add: has_prefix_def headerPrefix_def)

lemma visible_valid: "list_all visible s \<Longrightarrow> valid_header_value s"
  by (auto simp: valid_header_value_def visible_def is_ctl_def list_all_iff)

text \<open>The policy input of a request of the test scripts.\<close>

lemma script_input:
  assumes "script_request path credentials sz x" and "credentials = None \<or> credentials = Some [c]"
  obtains info where "NewInfo (req (cleaned proxy x)) ''Authorization'' lvl = Done info"
    and "ri_Path (Request info) = split_on (CHR ''/'') (trim_prefix path ''/'')"
    and "ri_Auth (Request info) = (case credentials of None \<Rightarrow> None | Some _ \<Rightarrow> Some (parse_auth c))"
proof -
  have hdr: "map_wf (r_Header (req (cleaned proxy x)))" "map_of (r_Header (req (cleaned proxy x))) ''Authorization'' = credentials"
    using assms(1) header_wf_remove [of "r_Header (req x)"]
    by (auto simp: script_request_def plain_headers_def cleaned_authorization header_wf_def)
  obtain info where info: "NewInfo (req (cleaned proxy x)) ''Authorization'' lvl = Done info"
    using NewInfo_cases [OF hdr(1), of "''Authorization''" lvl] hdr(2) assms(2) by auto
  show ?thesis
  proof (rule that [OF info])
    show "ri_Path (Request info) = split_on (CHR ''/'') (trim_prefix path ''/'')"
      using NewInfo_fields(2) [OF info] assms(1) by (simp add: script_request_def)
    show "ri_Auth (Request info) = (case credentials of None \<Rightarrow> None | Some _ \<Rightarrow> Some (parse_auth c))"
      using NewInfo_auth [OF info hdr(1)] hdr(2) assms(2) by auto
  qed
qed

text \<open>A request of the test scripts that authentication and policy let pass is answered by the helper's backend.\<close>

lemma script_served:
  assumes "NewBackendServer listen port = Inr bs0" and "Mount bs0 name 200 ''ok'' = Done bs"
    and "BackendScheme cfg @ ''://'' @ BackendHost cfg @ '':'' @ itoa (BackendPort cfg) = addr"
    and "AuthHeader cfg = ''Authorization''" and "RequestRego cfg = ''request.rego''"
    and "router_New (reachable_at addr (\<lambda>r. snd (backend_answer finish other (fst (backend_run finish other bs rs)) r)))
      (\<lambda>r. None) a chal val cfg = Some proxy"
    and "script_request (e2e_path name) credentials sz x"
    and "NewInfo (req (cleaned proxy x)) ''Authorization'' (URLMetricsLevel cfg) = Done info"
    and "a (auth_st x) info (RequestWithInfo info (req (cleaned proxy x))) = Done (p, info', None)"
    and "val (val_st x) ''request.rego'' info' = Done (v, Inr (allow_only True))"
  shows "rw_status (raw_of (wr (state_of (serve proxy x)))) = Some 200 \<and>
    rw_body (raw_of (wr (state_of (serve proxy x)))) = sized_ok_body sz \<and>
    length (forwarded (state_of (serve proxy x))) = length (forwarded x) + 1"
proof -
  note proxy = e2e_router [OF assms(3,6)]
  have x: "fresh x" "plain_headers (req x)" "has_prefix (r_Path (req x)) ''/''" "r_Method (req x) = ''GET''"
    "r_Path (req x) = e2e_path name" "r_RawQuery (req x) = size_query sz" "case sz of None \<Rightarrow> True | Some n \<Rightarrow> n < 2 ^ 63"
    "\<not> rw_head (raw_of (wr x))"
    using assms(7) by (simp_all add: script_request_def e2e_path_def has_prefix_def)
  obtain fr where fr: "forwarded (state_of (serve proxy x)) = forwarded x @ [fr]"
    "r_Method fr = ''GET''" "r_Path fr = e2e_path name" "r_RawQuery fr = size_query sz"
    "\<And>status h body. backend proxy fr = BackendReply [] status h body \<Longrightarrow> 200 \<le> status \<Longrightarrow> status \<le> 999 \<Longrightarrow>
      body_allowed status \<Longrightarrow> \<not> rw_head (raw_of (wr x)) \<Longrightarrow> rw_status (raw_of (wr (state_of (serve proxy x)))) = Some status \<and>
      rw_body (raw_of (wr (state_of (serve proxy x)))) = body"
  proof (rule allowed_request_served [OF x(1) proxy(1,2) x(2,3)])
    show "NewInfo (req (cleaned proxy x)) (authKey proxy) (URLMetricsLevel cfg) = Done info"
      using assms(4,8) by (simp add: proxy)
    show "auth proxy (auth_st x) info (RequestWithInfo info (req (cleaned proxy x))) = Done (p, info', None)"
      using assms(9) by (simp add: proxy)
    show "validator proxy (val_st x) (requestName proxy) info' = Done (v, Inr (allow_only True))"
      using assms(5,10) by (simp add: proxy)
  qed (use x(4-6) that in simp_all)
  from backend_after_run [OF assms(1,2) fr(2-4) x(7), of finish other rs] obtain h
    where "backend proxy fr = BackendReply [] 200 h (sized_ok_body sz)" by (auto simp: proxy(7))
  from fr(5) [OF this] fr(1) x(8) show ?thesis by (simp add: body_allowed_def)
qed

section \<open>The scenario without authentication\<close>

text \<open>
  C26. The end-to-end test without authentication. The helper has started, any requests have gone to its
  backend before, the proxy runs with the settings of the test and the policy means what its file says. A
  request of the test script, with or without a response size, is forwarded once and answered with status
  200 and the body the script asks for.
\<close>

theorem noauth_scenario:
  assumes "noauth_helper_main listen = Running bs"
    and "router_New (reachable_at ''http://127.0.0.1:18204''
        (\<lambda>r. snd (backend_answer finish other (fst (backend_run finish other bs rs)) r)))
      (\<lambda>r. None) noauth_Authenticate None val noauth_settings = Some proxy"
    and "\<And>v i. \<exists>v'. val v ''request.rego'' i = Done (v', Inr (allow_only (noauth_policy i)))"
    and "script_request ''/e2e/noauth-allow'' None sz x"
  shows "rw_status (raw_of (wr (state_of (serve proxy x)))) = Some 200 \<and>
    rw_body (raw_of (wr (state_of (serve proxy x)))) = sized_ok_body sz \<and>
    length (forwarded (state_of (serve proxy x))) = length (forwarded x) + 1"
proof -
  obtain bs0 where bs0: "NewBackendServer listen 18204 = Inr bs0" "Mount bs0 ''noauth-allow'' 200 ''ok'' = Done bs"
    using assms(1) by (auto simp: noauth_helper_main_def split: sum.splits outcome.splits)
  have url: "BackendScheme noauth_settings @ ''://'' @ BackendHost noauth_settings @ '':'' @ itoa (BackendPort noauth_settings) =
      ''http://127.0.0.1:18204''" "AuthHeader noauth_settings = ''Authorization''" "RequestRego noauth_settings = ''request.rego''"
    by (simp_all add: noauth_settings_def default_Fields_def itoa_ports)
  obtain info where info: "NewInfo (req (cleaned proxy x)) ''Authorization'' (URLMetricsLevel noauth_settings) = Done info"
    "ri_Path (Request info) = split_on (CHR ''/'') (trim_prefix ''/e2e/noauth-allow'' ''/'')"
    using script_input [OF assms(4), of "[]" proxy "URLMetricsLevel noauth_settings"] by auto
  have "split_on (CHR ''/'') (trim_prefix ''/e2e/noauth-allow'' ''/'') = [''e2e'', ''noauth-allow'']" by code_simp
  then have "noauth_policy info" using info(2) by (simp add: noauth_policy_def suffix_def)
  with assms(3) [of "val_st x" info] obtain v where v: "val (val_st x) ''request.rego'' info = Done (v, Inr (allow_only True))" by auto
  have path: "''/e2e/noauth-allow'' = e2e_path ''noauth-allow''" by (simp add: e2e_path_def)
  show ?thesis
    by (rule script_served [OF bs0 url assms(2) assms(4) [unfolded path] info(1) _ v]) (simp add: noauth_Authenticate_def)
qed

definition e2e_exchange :: "'p \<Rightarrow> string \<Rightarrow> string \<Rightarrow> header \<Rightarrow> ('p, unit) exchange" where
  "e2e_exchange p path query h =
     \<lparr>req = \<lparr>r_Method = ''GET'', r_Path = path, r_RawQuery = query, r_ContentLength = 0, r_RemoteIP = Some ''127.0.0.1'',
        r_Header = h, r_ctxInfo = None, r_ctxBlocked = None\<rparr>,
      wr = Raw new_respw, auth_st = p, val_st = (), metric_log = [], forwarded = [], label_values_ok = (\<lambda>_. True)\<rparr>"

lemma e2e_exchange_fresh: "fresh (e2e_exchange p path query h) \<and> \<not> rw_head (raw_of (wr (e2e_exchange p path query h)))"
  by (simp add: fresh_def e2e_exchange_def new_respw_def)

theorem noauth_scenario_witness:
  "\<exists>bs proxy. noauth_helper_main Inr = Running bs \<and>
    router_New (reachable_at ''http://127.0.0.1:18204'' (\<lambda>r. snd (backend_answer (\<lambda>r w. []) (\<lambda>r w. w) bs r)))
      (\<lambda>r. None) noauth_Authenticate None (\<lambda>(v :: unit) n i. Done (v, Inr (allow_only (noauth_policy i)))) noauth_settings = Some proxy \<and>
    rw_body (raw_of (wr (state_of (serve proxy (e2e_exchange None ''/e2e/noauth-allow'' (size_query (Some 4)) []))))) = ''okxx''"
proof -
  let ?val = "\<lambda>(v :: unit) n i. Done (v, Inr (allow_only (noauth_policy i)))"
    and ?x = "e2e_exchange None ''/e2e/noauth-allow'' (size_query (Some 4)) []"
  obtain bs where bs: "noauth_helper_main Inr = Running bs"
    by (simp add: noauth_helper_main_def NewBackendServer_def Mount_def e2e_path_def)
  let ?answer = "\<lambda>r. snd (backend_answer (\<lambda>r w. []) (\<lambda>r w. w) (fst (backend_run (\<lambda>r w. []) (\<lambda>r w. w) bs [])) r)"
  obtain proxy where proxy: "router_New (reachable_at ''http://127.0.0.1:18204'' ?answer) (\<lambda>r. None) noauth_Authenticate None ?val
      noauth_settings = Some proxy"
    by (simp add: router_New_def reachable_at_def Let_def)
  have "plain_headers (req ?x)" by code_simp
  then have "script_request ''/e2e/noauth-allow'' None (Some 4) ?x"
    unfolding script_request_def by (simp add: e2e_exchange_fresh) (simp add: e2e_exchange_def)
  then have "rw_body (raw_of (wr (state_of (serve proxy ?x)))) = sized_ok_body (Some 4)"
    using noauth_scenario [OF bs proxy, of "Some 4" ?x] by blast
  moreover have "sized_ok_body (Some 4) = ''okxx''" by code_simp
  ultimately show ?thesis using bs proxy by auto
qed

section \<open>The scenario with tokens\<close>

text \<open>
  What the scenario relies on of the libraries. Signing with the private key and parsing with the public
  one of the same pair is a round trip of the claims, as long as the token was issued before and expires
  after the time of the parser, and has the audience asked for; a signed token is visible text. A set with one key comes
  back from its JSON text with the algorithm that was put on the key, \<open>view\<close> being the key as the parser
  sees it; a claim that was set is there afterwards in its normal form, and the others stay.
\<close>

definition jwx_laws :: "('k, 'j, 't) signer_env \<Rightarrow> 't jwt_env \<Rightarrow> ('j \<Rightarrow> jwk) \<Rightarrow> (string \<Rightarrow> goerror + addr list \<times> key_heap)
    \<Rightarrow> (string \<Rightarrow> goval \<Rightarrow> goval) \<Rightarrow> int \<Rightarrow> bool" where
  "jwx_laws S env view decode normal clock \<longleftrightarrow>
     (\<forall>prv k1 k2 t s aud iat expiry. jwk_FromRaw S prv = Inr k1 \<longrightarrow> jwk_FromRaw S (PublicKey S prv) = Inr k2 \<longrightarrow>
        jwt_Sign S t ''RS256'' (labelled S k1) = Inr s \<longrightarrow>
        map_of (AsMap env t) ''aud'' = Some (VStrs [aud]) \<longrightarrow>
        map_of (AsMap env t) ''iat'' = Some (normal ''iat'' (VNum (itoa iat))) \<longrightarrow> iat \<le> clock \<longrightarrow>
        map_of (AsMap env t) ''exp'' = Some (normal ''exp'' (VNum (itoa expiry))) \<longrightarrow> clock < expiry \<longrightarrow>
        map_of (AsMap env t) ''nbf'' = None \<longrightarrow>
        (\<exists>t'. jwt_Parse env s [WithKey ''RS256'' (view (labelled S k2)), WithValidate True, WithVerify True, WithAudience aud] = Inr t' \<and>
           map_of (AsMap env t') = map_of (AsMap env t))) \<and>
     (\<forall>t key s. jwt_Sign S t ''RS256'' key = Inr s \<longrightarrow> s \<noteq> [] \<and> list_all visible s) \<and>
     (\<forall>key. set_AddKey S [] key = [key]) \<and>
     (\<forall>a. AddKey env [] a = [a]) \<and>
     (\<forall>key text. json_Marshal S [key] = Inr text \<longrightarrow> decode text = Inr ([fst (view key)], [view key])) \<and>
     (\<forall>key alg. snd (view (jwk_Set S key ''alg'' alg)) = alg) \<and>
     map_of (AsMap env (jwt_New S)) = Map.empty \<and>
     (\<forall>t k v. map_of (AsMap env (jwt_Set S t k v)) = (map_of (AsMap env t))(k \<mapsto> normal k v)) \<and>
     (\<forall>v. normal ''sub'' v = v) \<and> (\<forall>a. normal ''aud'' (VString a) = VStrs [a])"

text \<open>
  What the proxy's HTTP client and key cache do with a server: fetch a document and decode its text. The
  post-fetcher that the address is registered with then works on the decoded set.
\<close>

definition fetches_from :: "'t jwt_env \<Rightarrow> (string \<Rightarrow> goerror + addr list \<times> key_heap) \<Rightarrow> (string \<Rightarrow> goerror + int \<times> string) \<Rightarrow> bool" where
  "fetches_from env decode get \<longleftrightarrow>
     (\<forall>path text. get path = Inr (200, text) \<longrightarrow>
        http_wellknown env (helperAddr @ path) = unmarshal_wellknown text \<and>
        jwk_Register env (helperAddr @ path) = None \<and> jwk_Fetch env (helperAddr @ path) = decode text)"

text \<open>The provider that the proxy starts with, when it has read the helper's documents.\<close>

lemma jwt_provider_starts:
  assumes "fetches_from env decode (helper_get S other hp now now')" and "hp_up hp"
    and "decode (hp_jwksJSON hp) = Inr ([fst k], [k])" and "snd k \<noteq> []" and "AddKey env [] (fst k) = [fst k]"
  obtains j where "jwtsupport_New env (WellKnownURL jwt_settings) (AudienceKey jwt_settings) (Audiences jwt_settings)
      (AuthKind jwt_settings) (PermissiveAuth jwt_settings) = Inr j"
    and "wellknownList j = [\<lparr>JwksURI = helperAddr @ ''/jwks'', SupportedAlgorithms = [''RS256''],
      sourceURL = ''http://127.0.0.1:18305/.well-known/openid-configuration'', isLocalFile = False\<rparr>]"
    and "audiences j = [testAudience]" and "audienceKey j = ''aud''" and "authKind j = ''bearer''"
    and "cache_Get env (jwk_cache j) (helperAddr @ ''/jwks'') = Inr [k]"
proof -
  have url: "helperAddr @ ''/.well-known/openid-configuration'' = ''http://127.0.0.1:18305/.well-known/openid-configuration''"
    by (simp add: helperAddr_def)
  have get: "http_wellknown env ''http://127.0.0.1:18305/.well-known/openid-configuration'' = Inr (helperAddr @ ''/jwks'', [''RS256''])"
    "jwk_Register env (helperAddr @ ''/jwks'') = None" "jwk_Fetch env (helperAddr @ ''/jwks'') = Inr ([fst k], [k])"
    using assms(1,3) helper_get_documents [OF assms(2), of S other now now'] wellknown_text_loads
    unfolding fetches_from_def url [symmetric] by metis+
  have nofile: "\<not> isFileURL ''http://127.0.0.1:18305/.well-known/openid-configuration''" "\<not> isFileURL (helperAddr @ ''/jwks'')"
    by code_simp+
  let ?wk = "\<lparr>JwksURI = helperAddr @ ''/jwks'', SupportedAlgorithms = [''RS256''],
      sourceURL = ''http://127.0.0.1:18305/.well-known/openid-configuration'', isLocalFile = False\<rparr>"
  have "load_wellknown env ''http://127.0.0.1:18305/.well-known/openid-configuration'' = Some ?wk"
    using get(1) nofile(1) by (simp add: load_wellknown_def)
  moreover have keys: "cache_Get env [(helperAddr @ ''/jwks'', ?wk)] (helperAddr @ ''/jwks'') = Inr [k]"
    using get(3) assms(4,5) by (cases k) (simp add: cache_Get_def PostFetch_def alg_of_def set_view_def)
  then have "load_jwks env ?wk (conv, []) = (Some (CachedSet (helperAddr @ ''/jwks'')), conv, [(helperAddr @ ''/jwks'', ?wk)])" for conv
    using get(2) nofile by (simp add: load_jwks_def Let_def)
  ultimately show ?thesis
    using keys
    by (intro that [of "\<lparr>audiences = [testAudience], audienceKey = ''aud'', authKind = ''bearer'',
          wellKnowns = [''http://127.0.0.1:18305/.well-known/openid-configuration''], wellknownList = [?wk],
          jwk_cache = [(helperAddr @ ''/jwks'', ?wk)], JWKS = [CachedSet (helperAddr @ ''/jwks'')], jwt_permissive = False\<rparr>"])
      (simp_all add: jwtsupport_New_def LoadWellKnowns_def LoadJWKS_def jwt_settings_def default_Fields_def testAudience_def Let_def)
qed

lemma sign_parse:
  assumes "jwx_laws S env view decode normal clock" and "jwk_FromRaw S prv = Inr k1" and "jwk_FromRaw S (PublicKey S prv) = Inr k2"
    and "jwt_Sign S t ''RS256'' (labelled S k1) = Inr s"
    and "map_of (AsMap env t) ''aud'' = Some (VStrs [aud])"
    and "map_of (AsMap env t) ''iat'' = Some (normal ''iat'' (VNum (itoa iat)))" and "iat \<le> clock"
    and "map_of (AsMap env t) ''exp'' = Some (normal ''exp'' (VNum (itoa expiry)))" and "clock < expiry"
    and "map_of (AsMap env t) ''nbf'' = None"
  shows "\<exists>t'. jwt_Parse env s [WithKey ''RS256'' (view (labelled S k2)), WithValidate True, WithVerify True, WithAudience aud] = Inr t' \<and>
    map_of (AsMap env t') = map_of (AsMap env t)"
  using conjunct1 [OF assms(1) [unfolded jwx_laws_def], rule_format, OF assms(2-10)] .

text \<open>The claims of the helper's token.\<close>

lemma e2e_token_claims:
  assumes "jwx_laws S env view decode normal clock"
  shows "map_of (AsMap env (e2e_token S now now')) ''sub'' = Some (VString ''e2e-test-user'')"
    and "map_of (AsMap env (e2e_token S now now')) ''aud'' = Some (VStrs [testAudience])"
    and "map_of (AsMap env (e2e_token S now now')) ''iat'' = Some (normal ''iat'' (VNum (itoa now)))"
    and "map_of (AsMap env (e2e_token S now now')) ''exp'' = Some (normal ''exp'' (VNum (itoa (now' + 24 * 60 * 60))))"
    and "map_of (AsMap env (e2e_token S now now')) ''nbf'' = None"
  using assms by (simp_all add: e2e_token_def jwx_laws_def)

text \<open>The proxy accepts the helper's token, with its claims.\<close>

lemma e2e_token_accepted:
  assumes "jwx_laws S env view decode normal clock" and "jwt_helper_main S listen = Running hp"
    and "jwt_Sign S (e2e_token S now now') ''RS256'' (hp_privateJWK hp) = Inr signed"
    and "now \<le> clock" and "clock < now' + 24 * 60 * 60"
  obtains ks t where "decode (hp_jwksJSON hp) = Inr ([fst ks], [ks])" and "snd ks = ''RS256''"
    and "jwt_Parse env signed [WithKey ''RS256'' ks, WithValidate True, WithVerify True, WithAudience testAudience] = Inr t"
    and "map_of (AsMap env t) = map_of (AsMap env (e2e_token S now now'))"
proof -
  obtain prv k1 k2 where keys: "jwk_FromRaw S prv = Inr k1" "jwk_FromRaw S (PublicKey S prv) = Inr k2"
    "hp_privateJWK hp = labelled S k1" "json_Marshal S (set_AddKey S [] (labelled S k2)) = Inr (hp_jwksJSON hp)"
    using assms(2) by (auto simp: jwt_helper_main_def split: sum.splits outcome.splits)
  have "decode (hp_jwksJSON hp) = Inr ([fst (view (labelled S k2))], [view (labelled S k2)])" "snd (view (labelled S k2)) = ''RS256''"
    using assms(1) keys(4) by (auto simp: jwx_laws_def labelled_def)
  moreover obtain t where "jwt_Parse env signed [WithKey ''RS256'' (view (labelled S k2)), WithValidate True, WithVerify True,
      WithAudience testAudience] = Inr t" "map_of (AsMap env t) = map_of (AsMap env (e2e_token S now now'))"
    using sign_parse [OF assms(1) keys(1,2) assms(3) [unfolded keys(3)] e2e_token_claims(2,3) [OF assms(1)] assms(4)
        e2e_token_claims(4) [OF assms(1)] assms(5) e2e_token_claims(5) [OF assms(1)]] by blast
  ultimately show ?thesis using that by blast
qed

lemma bearer_parsed:
  assumes "s \<noteq> []" and "list_all visible s"
  shows "parse_auth (''Bearer '' @ s) = \<lparr>Kind = ''bearer'', Token = s, auth_User = [], Password = []\<rparr>"
proof -
  have "splitn2 (CHR '' '') (''Bearer'' @ CHR '' '' # s) = [''Bearer'', s]" by (rule splitn2_sep) simp
  moreover have "trim_space s = s" using assms by (intro trim_space_visible) (auto simp: list_all_iff)
  moreover have "to_lower ''Bearer'' = ''bearer''" "\<not> equal_fold ''bearer'' ''basic''" by code_simp+
  ultimately show ?thesis by (simp add: parse_auth_def)
qed

text \<open>
  The end-to-end test with tokens, for the helper program as it is meant: its file has a second package
  clause and does not compile as it stands. The helper has started, the libraries keep their contracts, and the
  policy means what its file says. Then the provider of the proxy starts from the documents that the helper
  publishes, and with it every request of the test script that carries a token the helper has issued is
  forwarded once and answered with status 200 and the body the script asks for, from the time of issue
  until a day later.
\<close>

theorem jwt_scenario:
  assumes "jwx_laws S env view decode normal clock"
    and "jwt_helper_main S listen = Running hp" and "hp_up hp"
    and "fetches_from env decode (helper_get S other' hp now now')"
    and "helper_get S other' hp now now' ''/token'' = Inr (200, signed)"
    and "now \<le> clock" and "clock < now' + 24 * 60 * 60"
    and "router_New (reachable_at ''http://127.0.0.1:18304''
        (\<lambda>r. snd (backend_answer finish other (fst (backend_run finish other (hp_backend hp) rs)) r)))
      (\<lambda>r. None) (jwt_Authenticate env) None val jwt_settings = Some proxy"
    and "\<And>v i. \<exists>v'. val v ''request.rego'' i = Done (v', Inr (allow_only (jwt_policy i)))"
  shows "\<exists>j. jwtsupport_New env (WellKnownURL jwt_settings) (AudienceKey jwt_settings) (Audiences jwt_settings)
      (AuthKind jwt_settings) (PermissiveAuth jwt_settings) = Inr j \<and>
    (\<forall>x sz. auth_st x = j \<longrightarrow> script_request ''/e2e/jwt-allow'' (Some [''Bearer '' @ signed]) sz x \<longrightarrow>
      rw_status (raw_of (wr (state_of (serve proxy x)))) = Some 200 \<and>
      rw_body (raw_of (wr (state_of (serve proxy x)))) = sized_ok_body sz \<and>
      length (forwarded (state_of (serve proxy x))) = length (forwarded x) + 1)"
proof -
  have sign: "jwt_Sign S (e2e_token S now now') ''RS256'' (hp_privateJWK hp) = Inr signed"
    using assms(5) helper_get_token [OF assms(3), of S other' now now'] by (auto split: sum.splits)
  then have signed: "signed \<noteq> []" "list_all visible signed" using assms(1) by (auto simp: jwx_laws_def)
  obtain ks t where t: "decode (hp_jwksJSON hp) = Inr ([fst ks], [ks])" "snd ks = ''RS256''"
    "jwt_Parse env signed [WithKey ''RS256'' ks, WithValidate True, WithVerify True, WithAudience testAudience] = Inr t"
    "map_of (AsMap env t) = map_of (AsMap env (e2e_token S now now'))"
    using e2e_token_accepted [OF assms(1,2) sign assms(6,7)] by blast
  obtain j where j: "jwtsupport_New env (WellKnownURL jwt_settings) (AudienceKey jwt_settings) (Audiences jwt_settings)
      (AuthKind jwt_settings) (PermissiveAuth jwt_settings) = Inr j"
    "wellknownList j = [\<lparr>JwksURI = helperAddr @ ''/jwks'', SupportedAlgorithms = [''RS256''],
      sourceURL = ''http://127.0.0.1:18305/.well-known/openid-configuration'', isLocalFile = False\<rparr>]"
    "audiences j = [testAudience]" "audienceKey j = ''aud''" "authKind j = ''bearer''"
    "cache_Get env (jwk_cache j) (helperAddr @ ''/jwks'') = Inr [ks]"
    using jwt_provider_starts [OF assms(4,3) t(1)] t(2) assms(1) by (auto simp: jwx_laws_def)
  obtain bs0 where bs0: "NewBackendServer listen backendPort = Inr bs0" "Mount bs0 ''jwt-allow'' 200 ''ok'' = Done (hp_backend hp)"
    using assms(2) by (auto simp: jwt_helper_main_def split: sum.splits outcome.splits)
  have url: "BackendScheme jwt_settings @ ''://'' @ BackendHost jwt_settings @ '':'' @ itoa (BackendPort jwt_settings) =
      ''http://127.0.0.1:18304''" "AuthHeader jwt_settings = ''Authorization''" "RequestRego jwt_settings = ''request.rego''"
    by (simp_all add: jwt_settings_def default_Fields_def itoa_ports)
  have path: "''/e2e/jwt-allow'' = e2e_path ''jwt-allow''" by (simp add: e2e_path_def)
  have "rw_status (raw_of (wr (state_of (serve proxy x)))) = Some 200 \<and>
      rw_body (raw_of (wr (state_of (serve proxy x)))) = sized_ok_body sz \<and>
      length (forwarded (state_of (serve proxy x))) = length (forwarded x) + 1"
    if x: "auth_st x = j" "script_request ''/e2e/jwt-allow'' (Some [''Bearer '' @ signed]) sz x" for x sz
  proof -
    obtain info where info: "NewInfo (req (cleaned proxy x)) ''Authorization'' (URLMetricsLevel jwt_settings) = Done info"
      "ri_Auth (Request info) = Some (parse_auth (''Bearer '' @ signed))"
      using script_input [OF x(2), of "''Bearer '' @ signed" proxy "URLMetricsLevel jwt_settings"] by auto
    have auth: "jwt_Authenticate env (auth_st x) info r = Done (j, info\<lparr>JWT := VMap (AsMap env t)\<rparr>, None)" for r
      using info(2) j(2-6) t(2,3) x(1) bearer_parsed [OF signed]
      by (simp add: jwt_Authenticate_def issuer_keys_def parse_options_def equal_fold_def)
    have "jwt_policy (info\<lparr>JWT := VMap (AsMap env t)\<rparr>)"
      using t(4) e2e_token_claims(1,2) [OF assms(1), of now now']
      by (simp add: jwt_policy_def elements_def testAudience_def)
    with assms(9) [of "val_st x" "info\<lparr>JWT := VMap (AsMap env t)\<rparr>"] obtain v
      where v: "val (val_st x) ''request.rego'' (info\<lparr>JWT := VMap (AsMap env t)\<rparr>) = Done (v, Inr (allow_only True))" by auto
    show ?thesis
      by (rule script_served [OF bs0 url assms(8) x(2) [unfolded path] info(1) auth v])
  qed
  with j(1) show ?thesis by blast
qed

text \<open>Libraries that keep the contracts: a key is its algorithm, a token is its claims, one token can be signed.\<close>

definition tiny_normal :: "string \<Rightarrow> goval \<Rightarrow> goval" where
  "tiny_normal k v = (if k = ''aud'' then (case v of VString a \<Rightarrow> VStrs [a] | _ \<Rightarrow> v) else v)"

definition tiny_token :: "(string, goval) gomap" where
  "tiny_token = [(''sub'', VString ''e2e-test-user''), (''aud'', VStrs [testAudience]), (''iss'', VString helperAddr),
     (''iat'', VNum (itoa 0)), (''exp'', VNum (itoa 86400)), (''email'', VString ''e2e@example.com''), (''roles'', VStrs [''reader''])]"

definition tiny_signer :: "(unit, string, (string, goval) gomap) signer_env" where
  "tiny_signer = \<lparr>rsa_GenerateKey = (\<lambda>n. Inr ()), PublicKey = (\<lambda>k. k), jwk_FromRaw = (\<lambda>k. Inr []),
     jwk_Set = (\<lambda>j k v. if k = ''alg'' then v else j), set_AddKey = (\<lambda>ks k. ks @ [k]),
     json_Marshal = (\<lambda>ks. Inr (concat ks)), jwt_New = [], jwt_Set = (\<lambda>t k v. map_put k (tiny_normal k v) t),
     jwt_Sign = (\<lambda>t alg key. if t = tiny_token then Inr ''signed'' else Inl (ErrText ''no''))\<rparr>"

definition not_found :: "request \<Rightarrow> writer \<Rightarrow> writer" where
  "not_found r w = (case WriteHeader w 404 of Done w' \<Rightarrow> w' | Panic _ \<Rightarrow> w)"

definition tiny_env :: "string helper \<Rightarrow> (string, goval) gomap jwt_env" where
  "tiny_env hp =
     (let get = (\<lambda>u. helper_get tiny_signer not_found hp 0 0 (drop (length helperAddr) u)) in
      \<lparr>ip_literal_ok = (\<lambda>_. True), ReadFile = (\<lambda>p. Inl (ErrText ''no such file'')),
       http_wellknown = (\<lambda>u. case get u of Inl e \<Rightarrow> Inl e | Inr (_, text) \<Rightarrow> unmarshal_wellknown text),
       jwk_Parse = (\<lambda>d. Inl (ErrText ''no'')), jwk_Register = (\<lambda>u. None),
       jwk_Fetch = (\<lambda>u. case get u of Inl e \<Rightarrow> Inl e | Inr (_, text) \<Rightarrow> Inr ([0], [(0, text)])),
       KeyAlgorithmFrom = (\<lambda>n. n), AddKey = (\<lambda>s a. if a \<in> set s then s else s @ [a]),
       jwt_Parse = (\<lambda>t opts. if t = ''signed'' then Inr tiny_token else Inl (ErrText ''bad signature'')), AsMap = (\<lambda>t. t)\<rparr>)"

lemma tiny_laws: "jwx_laws tiny_signer (tiny_env hp) (Pair 0) (\<lambda>text. Inr ([0], [(0, text)])) tiny_normal clock"
  unfolding jwx_laws_def
  by (intro conjI allI impI)
    (auto simp: tiny_signer_def tiny_env_def tiny_normal_def Let_def visible_def split: if_splits)

lemma tiny_fetches: "fetches_from (tiny_env hp) (\<lambda>text. Inr ([0], [(0, text)])) (helper_get tiny_signer not_found hp 0 0)"
  by (simp add: fetches_from_def tiny_env_def Let_def)

lemma tiny_signs: "jwt_Sign tiny_signer (e2e_token tiny_signer 0 0) ''RS256'' key = Inr ''signed''"
  by (simp add: e2e_token_def tiny_signer_def tiny_token_def tiny_normal_def)

theorem jwt_scenario_witness:
  "\<exists>hp proxy j. jwt_helper_main tiny_signer Inr = Running hp \<and>
    router_New (reachable_at ''http://127.0.0.1:18304'' (\<lambda>r. snd (backend_answer (\<lambda>r w. []) (\<lambda>r w. w) (hp_backend hp) r)))
      (\<lambda>r. None) (jwt_Authenticate (tiny_env hp)) None (\<lambda>(v :: unit) n i. Done (v, Inr (allow_only (jwt_policy i)))) jwt_settings = Some proxy \<and>
    rw_body (raw_of (wr (state_of (serve proxy (e2e_exchange j ''/e2e/jwt-allow'' [] [(''Authorization'', [''Bearer signed''])]))))) = ''ok''"
proof -
  let ?val = "\<lambda>(v :: unit) n i. Done (v, Inr (allow_only (jwt_policy i)))"
  obtain hp where hp: "jwt_helper_main tiny_signer Inr = Running hp" "hp_up hp"
    by (simp add: jwt_helper_main_def tiny_signer_def NewBackendServer_def Mount_def e2e_path_def)
  let ?answer = "\<lambda>r. snd (backend_answer (\<lambda>r w. []) (\<lambda>r w. w) (fst (backend_run (\<lambda>r w. []) (\<lambda>r w. w) (hp_backend hp) [])) r)"
  obtain proxy where proxy: "router_New (reachable_at ''http://127.0.0.1:18304'' ?answer) (\<lambda>r. None) (jwt_Authenticate (tiny_env hp)) None
      ?val jwt_settings = Some proxy"
    by (simp add: router_New_def reachable_at_def Let_def)
  have token: "helper_get tiny_signer not_found hp 0 0 ''/token'' = Inr (200, ''signed'')"
    using helper_get_token [OF hp(2), of tiny_signer not_found 0 0] tiny_signs by simp
  from jwt_scenario [OF tiny_laws hp tiny_fetches token _ _ proxy, of 5]
  obtain j where j: "\<forall>x sz. auth_st x = j \<longrightarrow> script_request ''/e2e/jwt-allow'' (Some [''Bearer signed'']) sz x \<longrightarrow>
      rw_status (raw_of (wr (state_of (serve proxy x)))) = Some 200 \<and>
      rw_body (raw_of (wr (state_of (serve proxy x)))) = sized_ok_body sz \<and>
      length (forwarded (state_of (serve proxy x))) = length (forwarded x) + 1"
    by auto
  let ?x = "e2e_exchange j ''/e2e/jwt-allow'' [] [(''Authorization'', [''Bearer signed''])]"
  have "plain_headers (req (e2e_exchange () ''/e2e/jwt-allow'' [] [(''Authorization'', [''Bearer signed''])]))" by code_simp
  then have "plain_headers (req ?x)" by (simp add: e2e_exchange_def)
  then have "script_request ''/e2e/jwt-allow'' (Some [''Bearer signed'']) None ?x"
    unfolding script_request_def by (simp add: e2e_exchange_fresh) (simp add: e2e_exchange_def size_query_def)
  moreover have "auth_st ?x = j" by (simp add: e2e_exchange_def)
  ultimately have "rw_body (raw_of (wr (state_of (serve proxy ?x)))) = sized_ok_body None" using j by blast
  then show ?thesis using hp(1) proxy by (auto simp: sized_ok_body_def)
qed

end
