(* ===== verification/Lock_Order.thy ===== *)
theory Lock_Order
  imports Main
begin

text \<open>
  The mutexes of the policy caches: \<^verbatim>\<open>mtx\<close> of \<^verbatim>\<open>pkg/filecache\<close>, \<^verbatim>\<open>mutex\<close> of its queue of delayed callbacks and \<^verbatim>\<open>mtx\<close> of
  \<^verbatim>\<open>pkg/regocache\<close>. The step relations of the other theories take a critical section as one step; here the
  calls of \<^verbatim>\<open>Lock\<close> and \<^verbatim>\<open>Unlock\<close> are the steps, a call of \<^verbatim>\<open>Lock\<close> waits while another goroutine has the mutex, and it
  is shown that the goroutines never wait for each other in a circle.
\<close>

section \<open>Goroutines that take mutexes\<close>

datatype mutex = CacheMtx | QueueMutex | RegoMtx

datatype lock_call = Lock mutex | Unlock mutex

text \<open>A goroutine: the mutexes it has, the last one taken first, and the calls it has yet to make.\<close>

type_synonym goroutine = "mutex list \<times> lock_call list"

definition locked :: "goroutine list \<Rightarrow> mutex \<Rightarrow> bool" where
  "locked gs m \<longleftrightarrow> (\<exists>g \<in> set gs. m \<in> set (fst g))"

text \<open>The next call of goroutine \<open>i\<close>; \<open>None\<close> when it has to wait or has none.\<close>

definition advance :: "nat \<Rightarrow> goroutine list \<Rightarrow> goroutine list option" where
  "advance i gs =
     (if i < length gs
      then (case gs ! i of
          (hs, Lock m # rest) \<Rightarrow> if locked gs m then None else Some (gs[i := (m # hs, rest)])
        | (hs, Unlock m # rest) \<Rightarrow> Some (gs[i := (remove1 m hs, rest)])
        | (hs, []) \<Rightarrow> None)
      else None)"

text \<open>Goroutines start at any time, with one of the given sequences of calls, and run in any order.\<close>

inductive locks_run :: "(lock_call list \<Rightarrow> bool) \<Rightarrow> goroutine list \<Rightarrow> bool" for starts where
  none: "locks_run starts []"
| go: "locks_run starts gs \<Longrightarrow> starts p \<Longrightarrow> locks_run starts (gs @ [([], p)])"
| move: "locks_run starts gs \<Longrightarrow> advance i gs = Some gs' \<Longrightarrow> locks_run starts gs'"

text \<open>
  A goroutine keeps the order of the mutexes: it takes one only while those it has are lower, gives back the
  last one it took, and ends without any.
\<close>

fun keeps_order :: "(mutex \<Rightarrow> nat) \<Rightarrow> mutex list \<Rightarrow> lock_call list \<Rightarrow> bool" where
  "keeps_order rank hs [] \<longleftrightarrow> hs = []"
| "keeps_order rank hs (Lock m # rest) \<longleftrightarrow> (\<forall>h \<in> set hs. rank h < rank m) \<and> keeps_order rank (m # hs) rest"
| "keeps_order rank [] (Unlock m # rest) \<longleftrightarrow> False"
| "keeps_order rank (h # hs) (Unlock m # rest) \<longleftrightarrow> h = m \<and> keeps_order rank hs rest"

section \<open>The contract: ordered mutexes\<close>

text \<open>The calls that are left, over all goroutines.\<close>

definition calls_left :: "goroutine list \<Rightarrow> nat" where
  "calls_left gs = sum_list (map (\<lambda>g. length (snd g)) gs)"

lemma calls_left_advance:
  assumes "advance i gs = Some gs'"
  shows "Suc (calls_left gs') = calls_left gs"
proof -
  obtain g g' where i: "i < length gs" "gs ! i = g" "gs' = gs[i := g']" "length (snd g) = Suc (length (snd g'))"
    using assms by (auto simp: advance_def split: if_splits prod.splits list.splits lock_call.splits)
  have "gs = take i gs @ g # drop (Suc i) gs" using id_take_nth_drop [OF i(1)] i(2) by simp
  moreover have "gs' = take i gs @ g' # drop (Suc i) gs" using i(1,3) by (simp add: upd_conv_take_nth_drop)
  ultimately have "calls_left gs = calls_left (take i gs) + length (snd g) + calls_left (drop (Suc i) gs)"
    "calls_left gs' = calls_left (take i gs) + length (snd g') + calls_left (drop (Suc i) gs)"
    unfolding calls_left_def by (metis add.assoc map_append list.map(2) sum_list.Cons sum_list_append)+
  with i(4) show ?thesis by simp
qed

locale ordered_mutexes =
  fixes starts :: "lock_call list \<Rightarrow> bool" and rank :: "mutex \<Rightarrow> nat"
  assumes starts_order: "starts p \<Longrightarrow> keeps_order rank [] p"
    and rank_inj: "rank m = rank m' \<Longrightarrow> m = m'"
begin

lemma run_order: "locks_run starts gs \<Longrightarrow> g \<in> set gs \<Longrightarrow> keeps_order rank (fst g) (snd g)"
proof (induction arbitrary: g rule: locks_run.induct)
  case (go gs p)
  then show ?case using starts_order by auto
next
  case (move gs i gs')
  obtain hs c rest where i: "i < length gs" "gs ! i = (hs, c # rest)"
    using move.hyps(2) by (auto simp: advance_def split: if_splits prod.splits list.splits)
  then have here: "keeps_order rank hs (c # rest)" using move.IH [of "(hs, c # rest)"] nth_mem [OF i(1)] by simp
  obtain g' where gs': "gs' = gs[i := g']" "keeps_order rank (fst g') (snd g')"
  proof (cases c)
    case (Lock m)
    with move.hyps(2) i here that [of "(m # hs, rest)"] show ?thesis by (auto simp: advance_def split: if_splits)
  next
    case (Unlock m)
    with here obtain hs' where "hs = m # hs'" "keeps_order rank hs' rest" by (cases hs) auto
    with move.hyps(2) i Unlock that [of "(hs', rest)"] show ?thesis by (auto simp: advance_def)
  qed
  then show ?case using move.prems move.IH set_update_subset_insert [of gs i g'] by blast
qed simp

text \<open>A mutex has at most one owner.\<close>

lemma run_exclusive:
  "locks_run starts gs \<Longrightarrow> i < length gs \<Longrightarrow> k < length gs \<Longrightarrow> m \<in> set (fst (gs ! i)) \<Longrightarrow> m \<in> set (fst (gs ! k)) \<Longrightarrow> i = k"
proof (induction arbitrary: i k m rule: locks_run.induct)
  case (go gs p)
  then show ?case by (auto simp: nth_append less_Suc_eq split: if_splits)
next
  case (move gs n gs')
  obtain hs c rest where n: "n < length gs" "gs ! n = (hs, c # rest)"
    using move.hyps(2) by (auto simp: advance_def split: if_splits prod.splits list.splits)
  have old: "locked gs m' \<or> m' \<notin> set (fst (gs ! k))" if "k < length gs" for k m'
    using that by (auto simp: locked_def)
  show ?case
  proof (cases c)
    case (Lock m')
    with move.hyps(2) n have free: "\<not> locked gs m'" and gs': "gs' = gs[n := (m' # hs, rest)]"
      by (auto simp: advance_def split: if_splits)
    have "m \<in> set (fst (gs ! l)) \<or> l = n \<and> m = m'" if "l < length gs" "m \<in> set (fst (gs' ! l))" for l
      using that gs' n by (cases "l = n") auto
    with move.prems gs' have "m \<in> set (fst (gs ! i)) \<or> i = n \<and> m = m'" "m \<in> set (fst (gs ! k)) \<or> k = n \<and> m = m'"
      by simp_all
    then show ?thesis using move.prems(1,2) gs' move.IH [of i k m] free old by fastforce
  next
    case (Unlock m')
    with move.hyps(2) n have gs': "gs' = gs[n := (remove1 m' hs, rest)]" by (simp add: advance_def)
    have "m \<in> set (fst (gs ! l))" if "l < length gs" "m \<in> set (fst (gs' ! l))" for l
      using that gs' n notin_set_remove1 [of m hs m'] by (cases "l = n") auto
    with move.prems gs' show ?thesis by (intro move.IH [of i k m]) simp_all
  qed
qed simp

text \<open>
  While a goroutine has calls left, one of them can go on: the one with the highest mutex that is taken, or
  any one when none is.
\<close>

lemma run_progress:
  assumes "locks_run starts gs" and "g \<in> set gs" and "snd g \<noteq> []"
  obtains i where "advance i gs \<noteq> None"
proof (cases "\<exists>m. locked gs m")
  case False
  obtain i where i: "i < length gs" "gs ! i = g" using assms(2) by (auto simp: in_set_conv_nth)
  have "keeps_order rank (fst g) (snd g)" using assms(1,2) by (rule run_order)
  moreover have "fst g = []" using False assms(2) unfolding locked_def by (metis list.set_intros(1) neq_Nil_conv)
  ultimately obtain m rest where "g = ([], Lock m # rest)"
    using assms(3) by (cases g; cases "snd g"; cases "hd (snd g)") auto
  with i False show ?thesis by (intro that [of i]) (auto simp: advance_def)
next
  case True
  define M where "M = {m. locked gs m}"
  have "finite M" unfolding M_def locked_def by (rule finite_subset [of _ "\<Union>g \<in> set gs. set (fst g)"]) auto
  moreover have "M \<noteq> {}" using True by (auto simp: M_def)
  ultimately obtain m where m: "m \<in> M" "\<forall>m' \<in> M. rank m' \<le> rank m"
    using Max_in [of "rank ` M"] Max_ge [of "rank ` M"] by fastforce
  then obtain h where h: "h \<in> set gs" "m \<in> set (fst h)" by (auto simp: M_def locked_def)
  then obtain i where i: "i < length gs" "gs ! i = h" by (auto simp: in_set_conv_nth)
  obtain hs cs where hc: "h = (hs, cs)" by fastforce
  have ord: "keeps_order rank hs cs" using run_order [OF assms(1) h(1)] hc by simp
  show ?thesis
  proof (cases cs)
    case Nil
    with ord h(2) hc show ?thesis by simp
  next
    case (Cons c rest)
    show ?thesis
    proof (cases c)
      case (Unlock m')
      with i hc Cons show ?thesis by (intro that [of i]) (simp add: advance_def)
    next
      case (Lock m')
      with ord Cons h(2) hc have "rank m < rank m'" by simp
      with m(2) have "\<not> locked gs m'" by (auto simp: M_def)
      with i hc Cons Lock show ?thesis by (intro that [of i]) (simp add: advance_def)
    qed
  qed
qed

end

section \<open>The goroutines of the program\<close>

text \<open>
  \<^verbatim>\<open>Get\<close> and \<^verbatim>\<open>add\<close> unlock in a deferred call, on every path; \<^verbatim>\<open>invalidate\<close> calls \<^verbatim>\<open>add\<close> in between, except for a file that
  is dirty already.
\<close>

definition Get_locks :: "lock_call list" where
  "Get_locks = [Lock CacheMtx, Unlock CacheMtx]"

definition add_locks :: "lock_call list" where
  "add_locks = [Lock QueueMutex, Unlock QueueMutex]"

definition invalidate_locks :: "bool \<Rightarrow> lock_call list" where
  "invalidate_locks adds = [Lock CacheMtx] @ (if adds then add_locks else []) @ [Unlock CacheMtx]"

text \<open>\<^verbatim>\<open>GetRego\<close> takes its own mutex after the file cache has given its one back, unless that call failed.\<close>

definition GetRego_locks :: "bool \<Rightarrow> lock_call list" where
  "GetRego_locks failed = Get_locks @ (if failed then [] else [Lock RegoMtx, Unlock RegoMtx])"

definition Ready_locks :: "lock_call list" where
  "Ready_locks = [Lock RegoMtx, Unlock RegoMtx]"

text \<open>The function of a timer: the mutex of the queue is given back before the callback.\<close>

definition timer_locks :: "bool \<Rightarrow> lock_call list" where
  "timer_locks failed = [Lock QueueMutex, Unlock QueueMutex] @ GetRego_locks failed"

text \<open>
  What can be running: a request or the initial load (any number of calls of \<^verbatim>\<open>GetRego\<close>), a readiness check, a
  turn of the watcher (up to two calls of \<^verbatim>\<open>invalidate\<close>), the read that it starts for a new file, a timer.
\<close>

inductive program_goroutine :: "lock_call list \<Rightarrow> bool" where
  calls: "program_goroutine (concat (map GetRego_locks failures))"
| ready: "program_goroutine Ready_locks"
| turn: "length adds \<le> 2 \<Longrightarrow> program_goroutine (concat (map invalidate_locks adds))"
| new_file: "program_goroutine Get_locks"
| timer: "program_goroutine (timer_locks failed)"

fun mutex_rank :: "mutex \<Rightarrow> nat" where
  "mutex_rank CacheMtx = 0"
| "mutex_rank QueueMutex = 1"
| "mutex_rank RegoMtx = 2"

lemma keeps_order_append: "keeps_order rank [] p \<Longrightarrow> keeps_order rank [] q \<Longrightarrow> keeps_order rank [] (p @ q)"
proof -
  have "keeps_order rank hs p \<Longrightarrow> keeps_order rank [] q \<Longrightarrow> keeps_order rank hs (p @ q)" for hs
    by (induction rank hs p rule: keeps_order.induct) auto
  then show "keeps_order rank [] p \<Longrightarrow> keeps_order rank [] q \<Longrightarrow> keeps_order rank [] (p @ q)" .
qed

lemma keeps_order_concat: "(\<And>x. keeps_order rank [] (f x)) \<Longrightarrow> keeps_order rank [] (concat (map f xs))"
  by (induction xs) (auto intro: keeps_order_append)

lemmas program_locks = Get_locks_def add_locks_def invalidate_locks_def GetRego_locks_def Ready_locks_def timer_locks_def

interpretation locks: ordered_mutexes program_goroutine mutex_rank
proof unfold_locales
  show "keeps_order mutex_rank [] p" if "program_goroutine p" for p
    using that by cases (auto intro!: keeps_order_concat simp: program_locks)
  show "m = m'" if "mutex_rank m = mutex_rank m'" for m m'
    using that by (cases m; cases m') auto
qed

section \<open>Properties\<close>

text \<open>
  C11. No deadlock of the policy caches. Whatever requests, readiness checks, watcher turns, reads and timers
  have started, and however far each has come: a mutex has at most one owner, and as long as a goroutine has
  calls of \<^verbatim>\<open>Lock\<close> or \<^verbatim>\<open>Unlock\<close> left, some goroutine can make its next one, after which one call less is left. The
  goroutines never wait for each other in a circle; when no new ones start, all come to their end. The work
  between the calls, reading a file or compiling a policy, is taken to return.
\<close>

theorem policy_caches_deadlock_free:
  assumes "locks_run program_goroutine gs"
  shows "(\<forall>i k m. i < length gs \<and> k < length gs \<and> m \<in> set (fst (gs ! i)) \<and> m \<in> set (fst (gs ! k)) \<longrightarrow> i = k) \<and>
    ((\<forall>g \<in> set gs. snd g = []) \<or>
     (\<exists>i gs'. advance i gs = Some gs' \<and> locks_run program_goroutine gs' \<and> Suc (calls_left gs') = calls_left gs))"
proof
  show "\<forall>i k m. i < length gs \<and> k < length gs \<and> m \<in> set (fst (gs ! i)) \<and> m \<in> set (fst (gs ! k)) \<longrightarrow> i = k"
    using locks.run_exclusive [OF assms] by blast
  show "(\<forall>g \<in> set gs. snd g = []) \<or>
     (\<exists>i gs'. advance i gs = Some gs' \<and> locks_run program_goroutine gs' \<and> Suc (calls_left gs') = calls_left gs)"
  proof (cases "\<forall>g \<in> set gs. snd g = []")
    case False
    then obtain g where "g \<in> set gs" "snd g \<noteq> []" by blast
    from locks.run_progress [OF assms this] obtain i gs' where "advance i gs = Some gs'" by blast
    with locks_run.move [OF assms this] calls_left_advance [OF this] show ?thesis by blast
  qed simp
qed

text \<open>The watcher has the mutex of the cache and waits for that of the queue, which a timer has.\<close>

theorem policy_caches_deadlock_free_witness:
  "\<exists>gs. locks_run program_goroutine gs \<and> locked gs CacheMtx \<and> locked gs QueueMutex \<and> advance 0 gs = None \<and>
    (\<exists>i gs'. advance i gs = Some gs')"
proof -
  let ?t = "timer_locks False" and ?w = "concat (map invalidate_locks [True])"
  let ?gs = "[([CacheMtx], tl ?w), ([QueueMutex], tl ?t)]"
  have "program_goroutine ?w" by (rule program_goroutine.turn) simp
  then have "locks_run program_goroutine ([] @ [([], ?w)])" by (intro locks_run.intros)
  moreover have "program_goroutine ?t" by (rule program_goroutine.timer)
  ultimately have "locks_run program_goroutine (([] @ [([], ?w)]) @ [([], ?t)])" by (rule locks_run.go)
  moreover have "advance 0 (([] @ [([], ?w)]) @ [([], ?t)]) = Some [([CacheMtx], tl ?w), ([], ?t)]"
    by (simp add: advance_def locked_def program_locks)
  moreover have "advance 1 [([CacheMtx], tl ?w), ([], ?t)] = Some ?gs"
    by (simp add: advance_def locked_def program_locks)
  ultimately have run: "locks_run program_goroutine ?gs" by (blast intro: locks_run.move)
  have "locked ?gs CacheMtx" "locked ?gs QueueMutex" "advance 0 ?gs = None" "\<not> (\<forall>g \<in> set ?gs. snd g = [])"
    by (simp_all add: advance_def locked_def program_locks)
  with policy_caches_deadlock_free [OF run] run show ?thesis by blast
qed

end
