(* ===== verification/Hash_Benchmark.thy ===== *)
theory Hash_Benchmark
  imports Basic_Auth
begin

text \<open>
  \<^verbatim>\<open>tests/hashing/test-hash.go\<close>: the benchmark that compares two hash functions for the cache key of basic
  authentication. A hash function is an argument, from the bytes that were written to it to its sum; a run is
  the list of the sums that are computed, in order, with the number of iterations that is logged.
\<close>

section \<open>The program\<close>

record user =
  username :: string
  password :: string

definition generateData :: "nat \<Rightarrow> user list" where
  "generateData n = map (\<lambda>i. \<lparr>username = ''user'' @ itoa (int i), password = ''password'' @ itoa (int i)\<rparr>) [0..<n]"

text \<open>\<^verbatim>\<open>run_maphash\<close>: three writes to the hash; \<open>Sum64\<close> is its sum under the seed it was made with.\<close>

definition run_maphash :: "(string \<Rightarrow> 's) \<Rightarrow> string \<Rightarrow> string \<Rightarrow> 's" where
  "run_maphash Sum64 usr pwd = Sum64 (concat [usr, [CHR '':''], pwd])"

definition run_hmac_sha256 :: "(string \<Rightarrow> string \<Rightarrow> 's) \<Rightarrow> string \<Rightarrow> string \<Rightarrow> 's" where
  "run_hmac_sha256 hmac usr pwd = hmac ''secret-key'' (usr @ '':'' @ pwd)"

text \<open>The loops of \<^verbatim>\<open>test\<close>.\<close>

fun each_user :: "(string \<Rightarrow> string \<Rightarrow> 's) \<Rightarrow> user list \<Rightarrow> 's list" where
  "each_user f [] = []"
| "each_user f (u # us) = f (username u) (password u) # each_user f us"

fun repeat_users :: "(string \<Rightarrow> string \<Rightarrow> 's) \<Rightarrow> user list \<Rightarrow> nat \<Rightarrow> 's list" where
  "repeat_users f us 0 = []"
| "repeat_users f us (Suc n) = each_user f us @ repeat_users f us n"

definition bench_test :: "(string \<Rightarrow> string \<Rightarrow> 's) \<Rightarrow> user list \<Rightarrow> nat \<Rightarrow> nat \<times> 's list" where
  "bench_test f us repeats = (repeats * length us, repeat_users f us repeats)"

definition UserCount :: nat where "UserCount = 100000"
definition Repeats :: nat where "Repeats = 100"

definition hash_main :: "(string \<Rightarrow> 's) \<Rightarrow> (string \<Rightarrow> string \<Rightarrow> 's) \<Rightarrow> (nat \<times> 's list) \<times> (nat \<times> 's list)" where
  "hash_main Sum64 hmac =
     (let us = generateData UserCount in
      (bench_test (run_maphash Sum64) us Repeats, bench_test (run_hmac_sha256 hmac) us Repeats))"

section \<open>Lemmas\<close>

lemma each_user_map: "each_user f us = map (\<lambda>u. f (username u) (password u)) us"
  by (induction us) auto

lemma length_repeat_users: "length (repeat_users f us n) = n * length us"
  by (induction n) (auto simp: each_user_map)

text \<open>The text of the users' cache keys.\<close>

lemma generated_keys:
  "map (\<lambda>u. cacheKeyText (username u) (password u)) (generateData n) =
    map (\<lambda>i. cacheKeyText (''user'' @ itoa (int i)) (''password'' @ itoa (int i))) [0..<n]"
  by (simp add: generateData_def)

lemma itoa_no_colon: "CHR '':'' \<notin> set (itoa (int i))"
  using nat_digits_chars [of "CHR '':''" i] by (auto simp: itoa_def)

lemma generated_distinct: "distinct (map (\<lambda>u. cacheKeyText (username u) (password u)) (generateData n))"
proof -
  have "cacheKeyText (''user'' @ itoa (int i)) p = cacheKeyText (''user'' @ itoa (int k)) q \<Longrightarrow> i = k" for i k p q
    using cacheKeyText_inject [of "''user'' @ itoa (int i)" "''user'' @ itoa (int k)"] itoa_no_colon
    by (auto simp: itoa_inject)
  then show ?thesis unfolding generated_keys by (auto simp: distinct_map inj_on_def)
qed

section \<open>Properties\<close>

text \<open>
  The benchmark measures what the provider does. Both runs make as many iterations as they log, and
  hash, for every generated user and as often as asked for, exactly the text from which basic
  authentication makes its cache key; the texts of different users are different.
\<close>

theorem benchmark_hashes_cache_keys:
  "let us = generateData n; keys = map (\<lambda>u. cacheKeyText (username u) (password u)) us in
   snd (bench_test (run_maphash (\<lambda>t. t)) us repeats) = concat (replicate repeats keys) \<and>
   snd (bench_test (run_hmac_sha256 (\<lambda>key t. t)) us repeats) = concat (replicate repeats keys) \<and>
   fst (bench_test f us repeats) = length (snd (bench_test f us repeats)) \<and>
   distinct keys \<and> length keys = n"
proof -
  have "each_user (run_maphash (\<lambda>t. t)) us = map (\<lambda>u. cacheKeyText (username u) (password u)) us"
    "each_user (run_hmac_sha256 (\<lambda>key t. t)) us = map (\<lambda>u. cacheKeyText (username u) (password u)) us" for us
    by (simp_all add: each_user_map run_maphash_def run_hmac_sha256_def cacheKeyText_def)
  moreover have "repeat_users g us k = concat (replicate k (each_user g us))" for g :: "string \<Rightarrow> string \<Rightarrow> string" and us k
    by (induction k) auto
  ultimately show ?thesis
    using generated_distinct [of n]
    by (simp add: bench_test_def length_repeat_users Let_def) (simp add: generateData_def)
qed

end
