(* ===== verification/Spec2Isabelle.thy ===== *)
theory Spec2Isabelle
  imports Lifecycle Router_Headers Concurrent_Properties E2e_Scenarios Lock_Order Hash_Benchmark
begin

text \<open>
  \<^bold>\<open>A verification development for rest-rego.\<close> rest-rego is an authorization proxy in front of an HTTP
  service. A request passes a chain of handlers: headers that only the proxy may set are removed, the
  request is turned into the input of a policy, an authentication provider puts an identity on it, a Rego
  policy decides, and a request that is allowed goes to the backend with the entries of the policy result
  as headers. Policies and credentials are files that are watched and reloaded while requests are served.

  \<^bold>\<open>Theories and the code they model.\<close> The sources are the Go files under \<^verbatim>\<open>src/\<close>.
  \<^item> \<open>Go_Prelude\<close>, \<open>Go_Http\<close>: byte strings, maps, dynamic values, errors, panics, headers, the server's response
    writer and base64, as the sources use them of the Go library. A map is an association list; its order
    stands for the order of a \<^verbatim>\<open>range\<close> loop, and lemmas say where it does not matter.
  \<^item> \<open>Types_Request\<close>: \<^verbatim>\<open>internal/types\<close>, from the request to the policy input (\<open>NewInfo\<close>).
  \<^item> \<open>Exchange\<close>: one HTTP exchange as a record (request, writer, provider and validator state, metrics log,
    requests handed to the backend) and the response tracker of \<^verbatim>\<open>internal/router/wrap.go\<close>. A handler maps an
    exchange to \<open>Served\<close> or \<open>Panicked\<close>; a middleware takes the next handler, as in the code.
  \<^item> \<open>Metrics\<close>, \<open>Config\<close>: \<^verbatim>\<open>internal/metrics\<close> and \<^verbatim>\<open>internal/config\<close>.
  \<^item> \<open>Auth_Provider\<close>, \<open>Validator\<close>: the interfaces of \<^verbatim>\<open>internal/types/types.go\<close> as the locales \<open>auth_provider\<close> and
    \<open>policy_validator\<close>. \<open>No_Auth\<close>, \<open>Basic_Auth\<close>, \<open>Jwt_Support\<close> (with \<open>File_Url\<close> and \<open>Go_Json\<close>) and \<open>Azure_Auth\<close> model the four
    provider packages and interpret the first one; \<open>Rego_Cache\<close> interprets the second.
  \<^item> \<open>File_Cache\<close>: \<^verbatim>\<open>pkg/filecache\<close> with its delayed callbacks and name patterns, and its contract, the locale
    \<open>file_source\<close>; \<open>Rego_Cache\<close>: \<^verbatim>\<open>pkg/regocache\<close> on top of that contract; \<open>Policy_System\<close>: directory, watcher,
    timers, goroutines and requests as a step relation with one step per critical section, entries of the
    directory being regular files, whose changes the kernel reports, or links, whose targets change unreported;
    \<open>Policy_Quiescence\<close>: why the goroutines of that system come to rest; \<open>Lock_Order\<close>: the three mutexes of the two
    packages, with \<^verbatim>\<open>Lock\<close> and \<^verbatim>\<open>Unlock\<close> as steps that may have to wait.
  \<^item> \<open>Reverse_Proxy\<close>: what the program uses of \<^verbatim>\<open>net/http/httputil\<close>; \<open>Router\<close>: \<^verbatim>\<open>internal/router\<close>, with the locale
    \<open>gate\<close> for a middleware that answers a request or hands it on once; \<open>Router_Properties\<close>, \<open>Router_Answers\<close> and
    \<open>Router_Headers\<close>: what the chain guarantees.
  \<^item> \<open>Application\<close>: construction of the application, \<^verbatim>\<open>internal/application/app.go\<close>, and the handlers of the
    management endpoints; interface values that hold nil pointers are kept apart from nil interfaces.
    \<open>Management\<close>: the routes of \<^verbatim>\<open>mgmt.go\<close> and what its server answers. \<open>Lifecycle\<close>: the process of \<^verbatim>\<open>cmd/main.go\<close> as a step relation, from the construction over the
    initial load, the servers and their requests to the signal, \<^verbatim>\<open>Close\<close> and the exit status; the process can also end in
    the argument parser, by a crash or killed.
  \<^item> \<open>Concurrent_Requests\<close>: any number of requests as threads with one step per access to shared state, beside the
    policy system and reloads of the provider; \<open>Concurrent_Properties\<close>: what holds in all interleavings. An access is
    one step that does not block; the waiting for mutexes is in \<open>Lock_Order\<close>, and calls into libraries return.
  \<^item> \<open>E2e_Backend\<close>: the backend of the end-to-end tests, \<^verbatim>\<open>e2e-tests/shared\<close>; \<open>E2e_Helpers\<close>: the helper programs
    \<^verbatim>\<open>e2e-tests/noauth/helpers\<close> and \<^verbatim>\<open>e2e-tests/jwt/helpers\<close> (the second file has two package clauses and does not
    compile; it is read as if it had one, and none of the properties C1 to C40 rests on it); \<open>E2e_Scenarios\<close>: the test scenarios through the whole program, with the policies and settings of
    the tests. \<open>Hash_Benchmark\<close>: \<^verbatim>\<open>tests/hashing\<close>.

  \<^bold>\<open>What is shown.\<close> The running application fails closed, in every interleaving of requests, file changes and
  reloads (C1), and for each request by itself (C2); it forwards exactly the admitted requests (C3), and only
  headers of the policy result carry the program's prefix (C4). An allowed request gets the reply of the
  backend (C5), every rejection the status the code intends (C6, C7, C8), and the providers keep their common
  contract (C9). Requests go on with the current files once the events of the directory are processed (C10), and
  the mutexes of the caches cannot deadlock (C11). The password cache refines a provider
  without cache (C13), the JWT loops a loop-free decision (C14), keys have algorithms (C12), and identities come only
  from verified tokens or from what Graph answered for the caller's own token (C15, C16). Compiled policies follow
  the files: sequentially (C17), and for the cache and its timers in every interleaving, for watched regular files (C18, C19);
  the goroutines terminate (C20), come to rest on the current files (C21), and a policy that is written in place takes
  effect when calls for it do not overlap (C22). The process exits with 0 only after an orderly shutdown or as the argument
  parser says (C23), and serves no request before the initial load (C24). The end-to-end test without
  authentication passes (C26), on a backend that refines a stateless function (C27). Further properties are on the policy input
  (C28, C39), metrics (C29, C30), credentials (C31, C32, C33), well-known documents (C34), configuration and
  timeouts (C35, C36), file URLs (C37) and readiness (C38). Several theorems describe behaviour that the authors
  did not intend: passwords that pass after a reload (C25), policies that stay in force after they were replaced (C40),
  and in the theories of the components links that are not noticed (\<open>link_updates_unnoticed\<close>), overlapping reloads
  (\<open>overlapping_reloads_install_old_policy\<close>), sizes recorded for HEAD (\<open>head_error_size_recorded\<close>), panics
  (\<open>failed_key_set_panics\<close>, \<open>rejected_labels_panic\<close>, \<open>removed_policy_panics\<close>), an exit that cuts requests off
  (\<open>unready_exit_cuts_requests\<close>) and failures at start-up that stop nothing (\<open>bind_failure_unnoticed\<close>,
  \<open>unreadable_credentials_start_anyway\<close>).

  \<^bold>\<open>Parameters and bounds.\<close> Code that is not under \<^verbatim>\<open>src/\<close> is an argument: bcrypt, the caches, the seeded hash,
  the JWT library and key generation, HTTP clients with their decoding of responses, the Rego engine,
  environment substitution, the argument parser, the route table of the chi mux, the label values that the Prometheus client
  accepts, its collectors and its exposition, the backend, the file system and its events. Of the Go library
  the parts in use are definitions, among them \<^verbatim>\<open>encoding/json\<close> (\<open>Go_Json\<close>) and \<^verbatim>\<open>net/url\<close> (\<open>File_Url\<close>); IP literals in
  a host and the headers a server adds by itself are arguments. What is relied on of an argument is a named hypothesis
  (\<open>lossy_cache\<close>, \<open>keys_distinct\<close>, \<open>app_cache\<close>, \<open>graph_identifiers\<close>, \<open>adds_key\<close>, \<open>distinct_sets\<close>, \<open>final_replies\<close>,
  \<open>mux_final\<close>, \<open>url_fixed\<close>, \<open>jwx_laws\<close>, \<open>fetches_from\<close>, permutation of a map's order). The refreshing key cache of the
  JWT library is used as documented: a registered address gives what was fetched from it after its post-fetcher.
  The functions are total, without fuel: loops are recursions on the data they range over, and the pattern
  matchers and the JSON tokenizer have a termination measure. The step relations need no fuel either; that the
  internal steps of the policy cache end is C20. Integers are unbounded where the code only
  compares or counts them; numbers that are parsed have the range of a 64-bit int, and the cache key is a 64-bit word.

  \<^bold>\<open>Not modelled.\<close> Logging and printed lines, also the hook \<^verbatim>\<open>Print\<close> of the policy cache, which only logs. TTLs of
  cache entries other than as possible loss of an entry. The patterns of \<^verbatim>\<open>http.ServeMux\<close> other than plain paths: what is
  said of \<open>Mount\<close> is for names that are plain path segments, as all that the tests use are. The size of the memory:
  \<open>body_get\<close> builds a body of any size that a 64-bit int holds. Changes of the directory during the initial load in the
  system of requests, which starts after it. The measured times of the benchmark.
\<close>

section \<open>The running application\<close>

text \<open>
  The proxy of an application, with the policy directory as it is when a request is handled.
\<close>

definition proxy_at :: "('tok, 'resp, 'az, 'jtok, 'bc, 'q) app_env \<Rightarrow> (string \<Rightarrow> fs_read) \<Rightarrow> ('az, 'bc, 'q) AppData
    \<Rightarrow> (('az, 'bc) provider, (Cache, 'q) RegoCache) Proxy" where
  "proxy_at env disk app = (app_router app)\<lparr>validator := Validate (ae_rego env) (filecache_Get disk)\<rparr>"

lemma application_New_router:
  fixes env :: "('tok, 'resp, 'az, 'jtok, 'bc, 'q) app_env"
  assumes "application_New env parsed = Running (Some app)"
  shows "auth (app_router app) = provider_Authenticate env"
    and "requestName (app_router app) = RequestRego (app_config app)"
    and "config (app_router app) = Some (app_config app)"
    and "authKey (app_router app) = AuthHeader (app_config app)"
    and "challenger (app_router app) = provider_challenge (app_auth app)"
    and "transport (app_router app) = backend_transport (app_config app)"
    and "config_New (ae_SetPrefix env) (ae_SetWrapper env) (ae_order env) parsed = Running (app_config app)"
proof -
  obtain cfg where cfg: "config_New (ae_SetPrefix env) (ae_SetWrapper env) (ae_order env) parsed = Running cfg"
    using assms unfolding application_New_def bind_proc_Running by blast
  let ?regos = "regocache_New (filecache_New (ae_folder_stat env) (ae_fs_watcher env) (ae_fs_watcher_add env)
            (PolicyDir cfg) (FilePattern cfg)) (Debug cfg) (RequestRego cfg) :: goerror + (Cache, 'q) RegoCache"
  obtain c where "?regos = Inr c"
    using assms cfg by (cases ?regos) (simp_all add: application_New_def Let_def)
  moreover from this obtain auth1 where "choose_auth env cfg = Running auth1"
    using assms cfg by (cases "choose_auth env cfg") (simp_all add: application_New_def Let_def)
  ultimately obtain log app_auth1 where "New_router env cfg log c app_auth1 = Some app"
    using assms cfg by (cases auth1) (auto simp: application_New_def Let_def)
  then show "auth (app_router app) = provider_Authenticate env"
    and "requestName (app_router app) = RequestRego (app_config app)"
    and "config (app_router app) = Some (app_config app)"
    and "authKey (app_router app) = AuthHeader (app_config app)"
    and "challenger (app_router app) = provider_challenge (app_auth app)"
    and "transport (app_router app) = backend_transport (app_config app)"
    and "config_New (ae_SetPrefix env) (ae_SetWrapper env) (ae_order env) parsed = Running (app_config app)"
    using cfg by (auto simp: New_router_def router_New_def Let_def split: option.splits)
qed

text \<open>The initial load fills the caches from the directory.\<close>

lemma from_disk_Callback:
  assumes "cache_from H (rc_cache r)" and "regos_from env H r" and "\<And>m d. disk m = Content d \<Longrightarrow> (m, d) \<in> H"
  shows "cache_from H (rc_cache (Callback env (filecache_Get disk) r n)) \<and> regos_from env H (Callback env (filecache_Get disk) r n) \<and>
    rc_debug (Callback env (filecache_Get disk) r n) = rc_debug r"
proof (cases "filecache_Get disk (rc_cache r) n")
  case (Pair c res)
  note get = cache_from_Get [OF assms(1,3) Pair]
  show ?thesis
  proof (cases res)
    case (Inl e)
    with Pair get assms(2) show ?thesis by (simp add: Callback_def GetRego_def)
  next
    case (Inr f)
    obtain dat u where f: "f = (dat, u)" by fastforce
    obtain r' x where locked: "GetRego_locked env (r\<lparr>rc_cache := c\<rparr>) n dat u = (r', x)" by fastforce
    have "regos_from env H (r\<lparr>rc_cache := c\<rparr>)" using assms(2) by simp
    note kept = regos_from_locked [OF this get(2) locked]
    have "rc_cache r' = c" using locked GetRego_locked_cache by (metis RegoCache.select_convs(1) RegoCache.surjective RegoCache.update_convs(1) fst_conv)
    with Pair Inr f locked get(1) kept show ?thesis by (simp add: Callback_def GetRego_def)
  qed
qed

lemma from_disk_load:
  assumes "cache_from H (rc_cache r)" and "regos_from env H r" and "\<And>m d. disk m = Content d \<Longrightarrow> (m, d) \<in> H"
  shows "cache_from H (rc_cache (regos_Watch env disk listing r)) \<and> regos_from env H (regos_Watch env disk listing r) \<and>
    rc_debug (regos_Watch env disk listing r) = rc_debug r"
proof -
  have "cache_from H (rc_cache (watch_load [Callback env (filecache_Get disk)] pat files r)) \<and>
      regos_from env H (watch_load [Callback env (filecache_Get disk)] pat files r) \<and>
      rc_debug (watch_load [Callback env (filecache_Get disk)] pat files r) = rc_debug r" for pat files
    using assms(1,2)
  proof (induction files arbitrary: r)
    case (Cons f files)
    obtain n d where f: "f = (n, d)" by fastforce
    show ?case
      using Cons from_disk_Callback [where disk = disk and n = n, OF Cons.prems assms(3)] by (auto simp: f doCallbacks_def)
  qed simp
  then show ?thesis using assms by (auto simp: regos_Watch_def AddCallback_def split: option.split)
qed

lemma proxy_at_simps:
  assumes "application_New env parsed = Running (Some app)"
  shows "auth (proxy_at env disk app) = provider_Authenticate env"
    and "validator (proxy_at env disk app) = Validate (ae_rego env) (filecache_Get disk)"
    and "requestName (proxy_at env disk app) = RequestRego (app_config app)"
    and "authKey (proxy_at env disk app) = AuthHeader (app_config app)"
    and "config (proxy_at env disk app) = Some (app_config app)"
  using application_New_router [OF assms] by (simp_all add: proxy_at_def)

lemma Validate_allows:
  assumes "Validate env get r n i = Done (v, Inr x)"
  obtains q where "GetRego env get r n = (v, Inr (Some q))" and "eval_query env q i = Inr x"
  using assms by (auto simp: Validate_def split: prod.splits sum.splits option.splits)

text \<open>A request to the sample installation.\<close>

definition sample_app_request ::
    "((string \<rightharpoonup> app, 64 word \<Rightarrow> bool option) provider, (Cache, string) RegoCache) exchange" where
  "sample_app_request =
     \<lparr>req = \<lparr>r_Method = ''GET'', r_Path = ''/a'', r_RawQuery = [], r_ContentLength = 0, r_RemoteIP = None, r_Header = [],
        r_ctxInfo = None, r_ctxBlocked = None\<rparr>,
      wr = Raw new_respw, auth_st = app_auth sample_app, val_st = app_regos sample_app, metric_log = [], forwarded = [],
      label_values_ok = (\<lambda>_. True)\<rparr>"

lemma sample_app_forwards:
  obtains fr where
    "forwarded (state_of (serve (proxy_at sample_app_env (ae_disk sample_app_env) sample_app) sample_app_request)) = [fr]"
proof -
  have "length (forwarded (state_of (serve (proxy_at sample_app_env (ae_disk sample_app_env) sample_app)
      sample_app_request))) = 1"
    by code_simp
  then show ?thesis using that by (auto simp: length_Suc_conv)
qed

lemma application_New_regos:
  fixes env :: "('tok, 'resp, 'az, 'jtok, 'bc, 'q) app_env"
  assumes "application_New env parsed = Running (Some app)"
  shows "fc_files (rc_cache (app_regos app)) = []" and "rc_regos (app_regos app) = []"
    and "rc_debug (app_regos app) = Debug (app_config app)"
proof -
  obtain cfg where cfg: "config_New (ae_SetPrefix env) (ae_SetWrapper env) (ae_order env) parsed = Running cfg"
    using assms unfolding application_New_def bind_proc_Running by blast
  let ?regos = "regocache_New (filecache_New (ae_folder_stat env) (ae_fs_watcher env) (ae_fs_watcher_add env)
            (PolicyDir cfg) (FilePattern cfg)) (Debug cfg) (RequestRego cfg) :: goerror + (Cache, 'q) RegoCache"
  obtain c where c: "?regos = Inr c"
    using assms cfg by (cases ?regos) (simp_all add: application_New_def Let_def)
  then have new: "fc_files (rc_cache c) = []" "rc_regos c = []" "rc_debug c = Debug cfg"
    by (auto simp: regocache_New_def filecache_New_def split: folder_stat.splits option.splits)
  obtain auth1 where "choose_auth env cfg = Running auth1"
    using assms cfg c by (cases "choose_auth env cfg") (simp_all add: application_New_def Let_def)
  with c obtain log app_auth1 where "New_router env cfg log c app_auth1 = Some app"
    using assms cfg by (cases auth1) (auto simp: application_New_def Let_def)
  then have "app_regos app = c" "app_config app = cfg" by (auto simp: New_router_def split: option.splits)
  with new show "fc_files (rc_cache (app_regos app)) = []" and "rc_regos (app_regos app) = []"
    and "rc_debug (app_regos app) = Debug (app_config app)" by simp_all
qed

text \<open>The server of an application after the initial load, before its first request.\<close>

definition started_server :: "('tok, 'resp, 'az, 'jtok, 'bc, 'q) app_env \<Rightarrow> (string \<Rightarrow> fs_read) \<Rightarrow> (string \<Rightarrow> bool)
    \<Rightarrow> (string \<times> bool) list option \<Rightarrow> ('az, 'bc, 'q) AppData \<Rightarrow> (('az, 'bc) provider, 'q) server_sys" where
  "started_server env disk links listing app =
     \<lparr>sv_policies = new_sys disk links (regos_Watch (ae_rego env) disk listing (app_regos app)), sv_auth = app_auth app, sv_threads = []\<rparr>"

lemma started_server_from_disk:
  assumes "application_New env parsed = Running (Some app)"
  shows "from_disk (ae_rego env) (on_disk (sv_policies (started_server env disk links listing app))) (sv_policies (started_server env disk links listing app))"
    and "rc_debug (ps_rc (sv_policies (started_server env disk links listing app))) = Debug (app_config app)"
    and "sv_threads (started_server env disk links listing app) = []"
proof -
  let ?H = "{(n, d). disk n = Content d}"
  have "cache_from ?H (rc_cache (app_regos app))" "regos_from (ae_rego env) ?H (app_regos app)"
    using application_New_regos [OF assms] by (simp_all add: cache_from_def regos_from_def)
  from from_disk_load [where disk = disk and listing = listing, OF this] application_New_regos(3) [OF assms]
  show "from_disk (ae_rego env) (on_disk (sv_policies (started_server env disk links listing app))) (sv_policies (started_server env disk links listing app))"
    and "rc_debug (ps_rc (sv_policies (started_server env disk links listing app))) = Debug (app_config app)"
    by (simp_all add: from_disk_def started_server_def new_sys_def on_disk_def)
qed (simp add: started_server_def)

text \<open>A file that the initial load left in the cache is the one on disk, and remains so in every run until an event says otherwise.\<close>

lemma started_server_current:
  assumes "application_New env parsed = Running (Some app)"
    and "server_run (ae_rego env) proxy reload (started_server env disk links listing app) H P s"
  shows "cache_current (sv_policies s)"
proof -
  let ?s0 = "started_server env disk links listing app"
  note start = started_server_from_disk [OF assms(1), of disk links listing]
  have "cache_current (sv_policies ?s0)"
    using start(1) by (auto simp: cache_current_def from_disk_def cache_from_def on_disk_def cached_def split: option.splits if_splits)
  moreover obtain p where "policy_run (ae_rego env) (\<lambda>_. True) (sv_policies ?s0) p" "p = (sv_policies s)\<lparr>ps_inflight := ps_inflight p\<rparr>"
    using requests_refine_policy_system [OF assms(2) start(3)] by blast
  ultimately have "cache_current ((sv_policies s)\<lparr>ps_inflight := ps_inflight p\<rparr>)" using policy_run_cache_current by metis
  then show ?thesis by (simp add: cache_current_def event_path_def)
qed

text \<open>Runs without a record of what was seen, to put sample runs together.\<close>

definition server_reaches :: "'q rego_env \<Rightarrow> ('p, 'q) served_proxy \<Rightarrow> ('p \<Rightarrow> 'p \<Rightarrow> bool) \<Rightarrow> ('p, 'q) server_sys \<Rightarrow> ('p, 'q) server_sys \<Rightarrow> bool" where
  "server_reaches env proxy reload s0 s \<longleftrightarrow> (\<exists>H P. server_run env proxy reload s0 H P s)"

lemma server_reaches_start: "server_reaches env proxy reload s0 s0"
  unfolding server_reaches_def by (blast intro: server_run.start)

lemma server_reaches_step: "server_reaches env proxy reload s0 s \<Longrightarrow> server_step env proxy reload s s' \<Longrightarrow> server_reaches env proxy reload s0 s'"
  unfolding server_reaches_def by (blast intro: server_run.step)

lemma server_reaches_execs:
  "execs env ls (sv_policies s) = Some p \<Longrightarrow> server_reaches env proxy reload s0 s \<Longrightarrow> server_reaches env proxy reload s0 (put_policies p s)"
proof (induction ls arbitrary: s)
  case (Cons l ls)
  then obtain t where t: "exec env l (sv_policies s) = Some t" "execs env ls t = Some p" by (auto split: option.splits)
  have "server_reaches env proxy reload s0 (put_policies t s)"
    using Cons.prems(2) server_step.policies [OF exec_step [OF t(1)]] by (rule server_reaches_step)
  with Cons.IH [of "put_policies t s"] t(2) show ?case by (simp add: put_policies_def)
qed (auto simp: put_policies_def)

text \<open>The policy file of the sample installation is rewritten, the watcher takes the event, and a request is authenticated.\<close>

lemma rewritten_policy_run:
  obtains H P s q j where
    "server_run sample_rego_env (app_router sample_app) (\<lambda>_ _. False)
       (started_server sample_app_env (ae_disk sample_app_env) (\<lambda>_. False) (ae_ReadDir sample_app_env) sample_app) H P s"
    and "thread_at s 0 (Authenticated sample_app_request (Done (q, j, None)))"
    and "ps_events (sv_policies s) = []" and "watched (ps_cache (sv_policies s)) ''request.rego''"
    and "\<not> ps_link (sv_policies s) ''request.rego''"
    and "ps_disk (sv_policies s) ''request.rego'' = Content ''package new''" and "cached (ps_cache (sv_policies s)) ''request.rego'' = None"
proof -
  let ?env = "sample_app_env" and ?n = "''request.rego''" and ?proxy = "app_router sample_app" and ?no = "\<lambda>_ _. False"
  let ?s0 = "started_server ?env (ae_disk ?env) (\<lambda>_. False) (ae_ReadDir ?env) sample_app"
  have "case execs sample_rego_env [LDisk {OpWrite} ?n (Content ''package new'') False, LWatch] (sv_policies ?s0) of
      None \<Rightarrow> False
    | Some p \<Rightarrow> ps_events p = [] \<and> watched (ps_cache p) ?n \<and> \<not> ps_link p ?n \<and> ps_disk p ?n = Content ''package new'' \<and>
        cached (ps_cache p) ?n = None"
    by code_simp
  then obtain p where p: "execs sample_rego_env [LDisk {OpWrite} ?n (Content ''package new'') False, LWatch] (sv_policies ?s0) = Some p"
    "ps_events p = []" "watched (ps_cache p) ?n" "\<not> ps_link p ?n" "ps_disk p ?n = Content ''package new''" "cached (ps_cache p) ?n = None"
    by (auto simp del: execs.simps split: option.splits)
  let ?s1 = "put_policies p ?s0"
  let ?s2 = "?s1\<lparr>sv_threads := sv_threads ?s1 @ [Accepted sample_app_request]\<rparr>"
  have "server_step sample_rego_env ?proxy ?no ?s1 ?s2" by (rule server_step.arrive) (simp add: sample_app_request_def)
  with server_reaches_execs [OF p(1) server_reaches_start] have s2: "server_reaches sample_rego_env ?proxy ?no ?s0 ?s2"
    by (rule server_reaches_step)
  have "case auth_call ?proxy sample_app_request of None \<Rightarrow> False
    | Some (info, r) \<Rightarrow> (case auth ?proxy (sv_auth ?s0) info r of Done (q, i, e) \<Rightarrow> e = None | _ \<Rightarrow> False)"
    by code_simp
  then obtain info r where call: "auth_call ?proxy sample_app_request = Some (info, r)"
    "case auth ?proxy (sv_auth ?s0) info r of Done (q, i, e) \<Rightarrow> e = None | _ \<Rightarrow> False"
    by (auto split: option.splits)
  then obtain q j where auth: "auth ?proxy (sv_auth ?s2) info r = Done (q, j, None)"
    by (cases "auth ?proxy (sv_auth ?s0) info r") (auto simp: put_policies_def)
  let ?s3 = "set_thread 0 (Authenticated sample_app_request (Done (q, j, None))) (?s2\<lparr>sv_auth := q\<rparr>)"
  have "thread_at ?s2 0 (Accepted sample_app_request)" by (simp add: put_policies_def started_server_def)
  from server_step.request [OF request_step.authenticate [OF this call(1) auth]] s2
  obtain H P where run: "server_run sample_rego_env ?proxy ?no ?s0 H P ?s3"
    using server_reaches_step by (fastforce simp: server_reaches_def)
  have "thread_at ?s3 0 (Authenticated sample_app_request (Done (q, j, None)))" and "sv_policies ?s3 = p"
    by (simp_all add: set_thread_def put_policies_def started_server_def)
  with run p(2-6) that show ?thesis by metis
qed

section \<open>Properties\<close>

text \<open>
  C1. The running application fails closed under concurrency. For every application that starts, whatever
  the policy directory holds at the initial load, regular files or links: however many requests run at once, and however their
  accesses to shared state interleave with changes of the directory, the watcher, timers, callbacks and
  reloads of the credentials, a request that was handed to the backend was authenticated without an error by
  the configured provider in some state it had, which changed nothing of the request but the identity; and
  it was allowed by a policy that is the compilation of some content that the policy file had on disk
  since the start.
\<close>

theorem running_application_fails_closed:
  assumes "application_New env parsed = Running (Some app)"
    and "server_run (ae_rego env) (app_router app) reload (started_server env disk links listing app) H P s"
    and "thread_at s i (Finished x r)" and "fr \<in> set (forwarded (state_of r))"
  shows "\<exists>info rq p p' info' d q m. auth_call (app_router app) x = Some (info, rq) \<and> p \<in> P \<and>
    provider_Authenticate env p info rq = Done (p', info', None) \<and> same_request info info' \<and>
    (RequestRego (app_config app), d) \<in> H \<and>
    compile_policy (ae_rego env) (Debug (app_config app)) (RequestRego (app_config app)) d = Inr q \<and>
    eval_query (ae_rego env) q info' = Inr (VMap m) \<and> map_of m ''allow'' = Some (VBool True)"
proof -
  note start = started_server_from_disk [OF assms(1), of disk links listing]
  have ok: "server_ok (ae_rego env) (Debug (app_config app)) (app_router app) H P s"
    using server_run_ok [OF assms(2) start(3,1)] start(2) by simp
  from finished_allowed [OF ok assms(3,4)] application_New_router(1,2) [OF assms(1)] show ?thesis
    using provider.auth_frame by (metis (no_types, lifting))
qed

theorem running_application_fails_closed_witness:
  "\<exists>d q info m. compile_policy sample_rego_env False ''request.rego'' d = Inr q \<and>
    eval_query sample_rego_env q info = Inr (VMap m) \<and> map_of m ''allow'' = Some (VBool True)"
proof -
  let ?s0 = "started_server sample_app_env (ae_disk sample_app_env) (\<lambda>_. False) (ae_ReadDir sample_app_env) sample_app"
  let ?x = "sample_app_request\<lparr>val_st := ps_rc (sv_policies ?s0)\<rparr>"
  have "length (forwarded (state_of (serve (app_router sample_app) ?x))) = 1" by code_simp
  then obtain fr where fr: "fr \<in> set (forwarded (state_of (serve (app_router sample_app) ?x)))"
    by (auto simp: length_Suc_conv)
  have "sv_threads ?s0 = []" "forwarded ?x = []" "auth_st ?x = sv_auth ?s0" "val_st ?x = ps_rc (sv_policies ?s0)"
    "validator (app_router sample_app) = Validate (ae_rego sample_app_env) (filecache_Get (ps_disk (sv_policies ?s0)))"
    by (simp_all add: started_server_def new_sys_def sample_app_request_def sample_app_def sample_app_env_def)
  then obtain H P s where "server_run (ae_rego sample_app_env) (app_router sample_app) (\<lambda>_ _. False) ?s0 H P s"
    "thread_at s 0 (Finished ?x (serve (app_router sample_app) ?x))" by (rule single_request_run)
  from running_application_fails_closed [OF sample_app_starts this fr] show ?thesis
    by (auto simp: sample_app_env_def sample_app_def sample_fields_def default_Fields_def)
qed

text \<open>
  C10. The running application decides on current files. For every application that starts, however requests,
  changes of the directory, the watcher, timers, callbacks and reloads have interleaved since: in a state in which every
  event of the directory has been processed, the content with which a request goes on to its policy
  is the one that the policy file has on disk, and no content exactly if the file is gone. The file is a regular one
  that the name pattern covers, and the directory did not change during the initial load.
\<close>

theorem running_application_reads_current_files:
  assumes "application_New env parsed = Running (Some app)"
    and "server_run (ae_rego env) (app_router app) reload (started_server env disk links listing app) H P s"
    and "ps_events (sv_policies s) = []" and "watched (ps_cache (sv_policies s)) (RequestRego (app_config app))"
    and "\<not> ps_link (sv_policies s) (RequestRego (app_config app))"
    and "thread_at s i (Authenticated x a)" and "request_step (ae_rego env) (app_router app) i s s'"
    and "thread_at s' i (Read y b dat u)"
  shows "ps_disk (sv_policies s) (RequestRego (app_config app)) = (case dat of Some d \<Rightarrow> Content d | None \<Rightarrow> NotExist)"
proof -
  let ?n = "RequestRego (app_config app)"
  obtain c where get: "filecache_Get (ps_disk (sv_policies s)) (ps_cache (sv_policies s)) ?n = (c, Inr (dat, u))"
    using assms(7,6,8) application_New_router(2) [OF assms(1)] by cases (auto simp: set_thread_def put_policies_def)
  then have "(\<exists>d. dat = Some d \<and> cached (ps_cache (sv_policies s)) ?n = Some d) \<or>
      ps_disk (sv_policies s) ?n = (case dat of Some d \<Rightarrow> Content d | None \<Rightarrow> NotExist)"
    by (auto simp: filecache_Get_eq cache_read_def readFile_def split: option.splits fs_read.splits)
  with started_server_current [OF assms(1,2)] assms(3-5) show ?thesis by (auto simp: cache_current_def)
qed

theorem running_application_reads_current_files_witness:
  "\<exists>s i x a b dat u s'. request_step sample_rego_env (app_router sample_app) i s s' \<and> thread_at s i (Authenticated x a) \<and>
    thread_at s' i (Read x b dat u) \<and> ps_disk (sv_policies s) ''request.rego'' = Content ''package new'' \<and> dat = Some ''package new''"
proof -
  obtain H P s q j where run: "server_run sample_rego_env (app_router sample_app) (\<lambda>_ _. False)
       (started_server sample_app_env (ae_disk sample_app_env) (\<lambda>_. False) (ae_ReadDir sample_app_env) sample_app) H P s"
    and at: "thread_at s 0 (Authenticated sample_app_request (Done (q, j, None)))"
    and st: "ps_events (sv_policies s) = []" "watched (ps_cache (sv_policies s)) ''request.rego''"
      "\<not> ps_link (sv_policies s) ''request.rego''"
    and disk: "ps_disk (sv_policies s) ''request.rego'' = Content ''package new''" "cached (ps_cache (sv_policies s)) ''request.rego'' = None"
    by (rule rewritten_policy_run)
  obtain c where get: "filecache_Get (ps_disk (sv_policies s)) (ps_cache (sv_policies s)) ''request.rego'' = (c, Inr (Some ''package new'', True))"
    using disk by (auto simp: filecache_Get_eq cache_read_def readFile_def)
  let ?s' = "set_thread 0 (Read sample_app_request (Done (q, j, None)) (Some ''package new'') True) (put_policies (with_cache c (sv_policies s)) s)"
  have step: "request_step sample_rego_env (app_router sample_app) 0 s ?s'"
    using request_step.read [OF at refl, of "app_router sample_app" c "Some ''package new''" True sample_rego_env] get
    by (simp add: sample_app_def)
  moreover have at': "thread_at ?s' 0 (Read sample_app_request (Done (q, j, None)) (Some ''package new'') True)"
    using at by (simp add: set_thread_def put_policies_def)
  moreover have "ps_disk (sv_policies s) ''request.rego'' = Content ''package new''"
    using running_application_reads_current_files [OF sample_app_starts _ _ _ _ at _ at'] run step st
    by (simp add: sample_app_env_def sample_app_def sample_fields_def default_Fields_def)
  ultimately show ?thesis using at by blast
qed

text \<open>
  C2. The application as a whole fails closed. For every application that starts, whatever the state of
  its provider, of its policies and of the policy directory: a request that reaches the backend was
  authenticated by the configured provider without an error, the request policy was found and compiled,
  and its evaluation on the input that authentication left, which differs from the request only in the
  identity, gave a map with \<^verbatim>\<open>allow\<close> true.
\<close>

theorem application_forwards_only_allowed:
  assumes "application_New env parsed = Running (Some app)" and "forwarded x = []"
    and "fr \<in> set (forwarded (state_of (serve (proxy_at env disk app) x)))"
  shows "\<exists>info p info' v q m.
    NewInfo (req (cleaned (proxy_at env disk app) x)) (AuthHeader (app_config app))
      (URLMetricsLevel (app_config app)) = Done info \<and>
    provider_Authenticate env (auth_st x) info (RequestWithInfo info (req (cleaned (proxy_at env disk app) x)))
      = Done (p, info', None) \<and> same_request info info' \<and>
    GetRego (ae_rego env) (filecache_Get disk) (val_st x) (RequestRego (app_config app)) = (v, Inr (Some q)) \<and>
    eval_query (ae_rego env) q info' = Inr (VMap m) \<and> map_of m ''allow'' = Some (VBool True)"
proof -
  note fields = proxy_at_simps [OF assms(1), of disk]
  obtain y where "admit (proxy_at env disk app) x = Some y"
    using assms(2,3) by (auto simp: serve_forwarded split: option.splits)
  then obtain cfg info p info' v result where run:
    "config (proxy_at env disk app) = Some cfg"
    "NewInfo (req (cleaned (proxy_at env disk app) x)) (AuthHeader (app_config app)) (URLMetricsLevel cfg) = Done info"
    "provider_Authenticate env (auth_st x) info (RequestWithInfo info (req (cleaned (proxy_at env disk app) x)))
      = Done (p, info', None)"
    "Validate (ae_rego env) (filecache_Get disk) (val_st x) (RequestRego (app_config app)) info' = Done (v, Inr result)"
    "allows result"
    by (rule admit_Some) (simp only: fields)
  obtain m where m: "result = VMap m" "map_of m ''allow'' = Some (VBool True)"
    using run(5) by (auto simp: allows_def split: goval.splits)
  obtain q where q: "GetRego (ae_rego env) (filecache_Get disk) (val_st x) (RequestRego (app_config app)) = (v, Inr (Some q))"
    "eval_query (ae_rego env) q info' = Inr (VMap m)" using Validate_allows [OF run(4)] m(1) by metis
  have "same_request info info'" using run(3) by (rule provider.auth_frame)
  with run(1-3) q m(2) fields(5) show ?thesis by auto
qed

theorem application_forwards_only_allowed_witness:
  "\<exists>q m info. eval_query sample_rego_env q info = Inr (VMap m) \<and> map_of m ''allow'' = Some (VBool True) \<and>
    (\<exists>v. GetRego sample_rego_env (filecache_Get (ae_disk sample_app_env)) (app_regos sample_app) ''request.rego'' =
      (v, Inr (Some q)))"
proof -
  obtain fr where fr:
    "forwarded (state_of (serve (proxy_at sample_app_env (ae_disk sample_app_env) sample_app) sample_app_request)) = [fr]"
    by (rule sample_app_forwards)
  then have "fr \<in> set (forwarded (state_of (serve (proxy_at sample_app_env (ae_disk sample_app_env) sample_app)
      sample_app_request)))" by simp
  moreover have "forwarded sample_app_request = []" "val_st sample_app_request = app_regos sample_app"
    "ae_rego sample_app_env = sample_rego_env" "RequestRego (app_config sample_app) = ''request.rego''"
    by (simp_all add: sample_app_request_def sample_app_env_def sample_app_def sample_fields_def default_Fields_def)
  ultimately show ?thesis
    using application_forwards_only_allowed [OF sample_app_starts, of sample_app_request fr "ae_disk sample_app_env"]
    by metis
qed

text \<open>
  C9. Authentication in the running application. Whatever provider is configured, as long as it is in a
  good state (no nil pointer, every file issuer with its key set), the authentication handler does not
  panic: it passes the request on with the same request data and the provider still in a good state, or
  answers 401 or 503 and passes nothing on.
\<close>

theorem application_auth_contract:
  assumes "application_New env parsed = Running (Some app)" and "fresh x" and "GetInfo (req x) = Some info"
    and "provider_ok (auth_st x)"
  shows "(\<exists>p info'. authHandler (proxy_at env disk app) next x = next (put_info info' (x\<lparr>auth_st := p\<rparr>)) \<and>
      provider_ok p \<and> same_request info info') \<or>
    (\<exists>y. authHandler (proxy_at env disk app) next x = Served y \<and> forwarded y = forwarded x \<and>
      (answered 401 ''invalid credentials'' y \<or> answered 503 ''authentication service unavailable'' y))"
proof (cases rule: provider.auth_cases [OF assms(4), where env = env and i = info and r = "req x"])
  case (1 p info')
  then show ?thesis
    using assms(3) proxy_at_simps(1) [OF assms(1)] by (auto simp: authHandler_def Let_def)
next
  case (2 p info' e)
  have "auth (proxy_at env disk app) (auth_st x) info (req x) = Done (p, info', Some e)"
    using 2(1) proxy_at_simps(1) [OF assms(1)] by simp
  from authHandler_rejects [OF assms(2,3) this, of "next"] 2(5) show ?thesis
    by (auto simp: auth_answer_def)
qed

theorem application_auth_contract_witness:
  "\<exists>y. authHandler (proxy_at sample_app_env (\<lambda>_. NotExist) sample_app) Served
     (sample_app_request\<lparr>req := RequestWithInfo sample_info (req sample_app_request)\<rparr>) = Served y"
proof -
  let ?x = "sample_app_request\<lparr>req := RequestWithInfo sample_info (req sample_app_request)\<rparr>"
  have "fresh ?x" by (simp add: fresh_def sample_app_request_def new_respw_def)
  moreover have "GetInfo (req ?x) = Some sample_info" by simp
  moreover have "provider_ok (auth_st ?x)" by (simp add: sample_app_request_def sample_app_def provider_ok_def)
  ultimately have "(\<exists>p info'. authHandler (proxy_at sample_app_env (\<lambda>_. NotExist) sample_app) Served ?x =
        Served (put_info info' (?x\<lparr>auth_st := p\<rparr>)) \<and> provider_ok p \<and> same_request sample_info info') \<or>
      (\<exists>y. authHandler (proxy_at sample_app_env (\<lambda>_. NotExist) sample_app) Served ?x = Served y \<and> forwarded y = forwarded ?x \<and>
        (answered 401 ''invalid credentials'' y \<or> answered 503 ''authentication service unavailable'' y))"
    by (rule application_auth_contract [OF sample_app_starts])
  then show ?thesis by blast
qed

text \<open>
  C35. The timeouts of a running application. Whatever the configuration and the order in which its timeouts
  are checked, an application that starts has every timeout of the proxy server and of the transport to the
  backend between one second and ten minutes, in nanoseconds and far from overflow; each timeout of the
  management server is half of the same timeout of the proxy server, rounded down; the transport has the
  backend timeouts of the configuration; and no server has a header timeout above its read timeout.
\<close>

theorem running_timeouts_bounded:
  assumes "application_New env parsed = Running (Some app)" and "\<And>m. mset (ae_order env m) = mset m"
  shows "(\<forall>t \<in> {hs_ReadHeaderTimeout (proxy_server (app_config app)), hs_ReadTimeout (proxy_server (app_config app)),
       hs_WriteTimeout (proxy_server (app_config app)), hs_IdleTimeout (proxy_server (app_config app)),
       tr_DialTimeout (transport (app_router app)), tr_TLSHandshakeTimeout (transport (app_router app)),
       tr_ResponseHeaderTimeout (transport (app_router app)), tr_IdleConnTimeout (transport (app_router app))}.
      1000000000 \<le> t \<and> t \<le> 600000000000) \<and>
    (\<forall>t \<in> {hs_ReadHeaderTimeout (mgmt_server (app_config app)), hs_ReadTimeout (mgmt_server (app_config app)),
       hs_WriteTimeout (mgmt_server (app_config app)), hs_IdleTimeout (mgmt_server (app_config app))}.
      500000000 \<le> t \<and> t \<le> 300000000000) \<and>
    hs_ReadHeaderTimeout (mgmt_server (app_config app)) = hs_ReadHeaderTimeout (proxy_server (app_config app)) div 2 \<and>
    hs_ReadTimeout (mgmt_server (app_config app)) = hs_ReadTimeout (proxy_server (app_config app)) div 2 \<and>
    hs_WriteTimeout (mgmt_server (app_config app)) = hs_WriteTimeout (proxy_server (app_config app)) div 2 \<and>
    hs_IdleTimeout (mgmt_server (app_config app)) = hs_IdleTimeout (proxy_server (app_config app)) div 2 \<and>
    tr_DialTimeout (transport (app_router app)) = BackendDialTimeout (app_config app) \<and>
    tr_ResponseHeaderTimeout (transport (app_router app)) = BackendResponseTimeout (app_config app) \<and>
    tr_IdleConnTimeout (transport (app_router app)) = BackendIdleConnTimeout (app_config app) \<and>
    hs_ReadHeaderTimeout (proxy_server (app_config app)) \<le> hs_ReadTimeout (proxy_server (app_config app)) \<and>
    hs_ReadHeaderTimeout (mgmt_server (app_config app)) \<le> hs_ReadTimeout (mgmt_server (app_config app))"
proof -
  have "timeouts_in_range (app_config app)"
    using application_New_router(7) [OF assms(1)] unfolding config_New_Running [OF assms(2)]
    by (auto simp: timeouts_in_range_def)
  moreover from this have "ReadHeaderTimeout (app_config app) div 2 \<le> ReadTimeout (app_config app) div 2"
    by (intro zdiv_mono1) (simp_all add: timeouts_in_range_def)
  moreover have "500000000 \<le> t div 2 \<and> t div 2 \<le> 300000000000" if "1000000000 \<le> t" "t \<le> 600000000000" for t :: int
    using that by linarith
  ultimately show ?thesis
    using application_New_router(6) [OF assms(1)] mgmt_timeouts [of "app_config app"]
    by (simp add: timeouts_in_range_def minTimeout_def maxTimeout_def proxy_server_def backend_transport_def)
qed

theorem running_timeouts_bounded_witness:
  "500000000 \<le> hs_ReadTimeout (mgmt_server (app_config sample_app)) \<and>
    hs_IdleTimeout (mgmt_server (app_config sample_app)) = hs_IdleTimeout (proxy_server (app_config sample_app)) div 2 \<and>
    tr_DialTimeout (transport (app_router sample_app)) \<le> 600000000000"
proof -
  have "mset (ae_order sample_app_env m) = mset m" for m by (simp add: sample_app_env_def)
  with running_timeouts_bounded [OF sample_app_starts] show ?thesis by blast
qed

end
